(* ===== verification/Prelude.thy ===== *)
theory Prelude
  imports Complex_Main
begin

text \<open>
  Shared vocabulary of the development: how Go values and failures are represented, the
  collections of rewrite rules the component proofs use, and generic facts on lists, minima
  and results.

  Representation.  A Go \<open>float64\<close> is a \<^typ>\<open>real\<close> (rounding, infinities and NaN are not
  represented; where the source uses NaN as ``parameter absent'' the model uses
  \<^typ>\<open>'a option\<close>).  A Go slice is a list.  A panic or an error return is the left
  injection of a sum type.
\<close>

named_theorems go_results
named_theorems min_simps

datatype go_error =
    IndexOutOfRange
  | TypeAssertion
  | GoPanic string
  | GoError string

type_synonym 'a result = "go_error + 'a"

text \<open>Sequencing of fallible steps: the first failure wins.\<close>

definition bindR :: "'a result \<Rightarrow> ('a \<Rightarrow> 'b result) \<Rightarrow> 'b result" where
  "bindR r f = (case r of Inl e \<Rightarrow> Inl e | Inr x \<Rightarrow> f x)"

lemma bindR_simps [simp]:
  "bindR (Inl e) f = Inl e"
  "bindR (Inr x) f = f x"
  by (simp_all add: bindR_def)

lemma bindR_eq_Inr [go_results]:
  "bindR r f = Inr y \<longleftrightarrow> (\<exists>x. r = Inr x \<and> f x = Inr y)"
  by (cases r) auto

lemma bindR_eq_Inl [go_results]:
  "bindR r f = Inl e \<longleftrightarrow> r = Inl e \<or> (\<exists>x. r = Inr x \<and> f x = Inl e)"
  by (cases r) auto

text \<open>Slice indexing: a read outside the bounds panics.\<close>

definition go_index :: "'a list \<Rightarrow> nat \<Rightarrow> 'a result" where
  "go_index xs i = (if i < length xs then Inr (xs ! i) else Inl IndexOutOfRange)"

lemma go_index_Inr [go_results]:
  "go_index xs i = Inr x \<longleftrightarrow> i < length xs \<and> x = xs ! i"
  by (auto simp: go_index_def)

lemma go_index_append_right [simp]:
  "go_index (xs @ ys) (length xs + i) = go_index ys i"
  by (simp add: go_index_def nth_append)

lemma go_index_Cons [simp]:
  "go_index (x # xs) 0 = Inr x"
  "go_index (x # xs) (Suc i) = go_index xs i"
  by (simp_all add: go_index_def)

text \<open>Minima of reals: the facts the planner proofs use.\<close>

lemma min_absorb_left [min_simps]: "(a::real) \<le> b \<Longrightarrow> min a b = a"
  by simp

lemma min_le_cancel [min_simps]: "min (s::real) (min s c) = min s c"
  by simp

lemma min_sandwich:
  fixes s c k :: real
  assumes "min s k \<le> c" and "c \<le> k"
  shows "min s c = min s k"
  using assms by (auto simp: min_def split: if_splits)

text \<open>A list of four coordinates, as the motion code builds them.\<close>

lemma length4_conv: "length xs = 4 \<longleftrightarrow> (\<exists>a b c d. xs = [a, b, c, d])"
  by (auto simp: numeral_eq_Suc length_Suc_conv)

text \<open>Adjacent elements of a list.\<close>

fun adjacent :: "('a \<Rightarrow> 'a \<Rightarrow> bool) \<Rightarrow> 'a list \<Rightarrow> bool" where
  "adjacent R [] = True"
| "adjacent R [x] = True"
| "adjacent R (x # y # zs) = (R x y \<and> adjacent R (y # zs))"

lemma adjacent_snoc [simp]:
  "adjacent R (xs @ [y]) \<longleftrightarrow> adjacent R xs \<and> (xs = [] \<or> R (last xs) y)"
  by (induction R xs rule: adjacent.induct) auto

lemma adjacent_append:
  "adjacent R (xs @ ys) \<longleftrightarrow>
     adjacent R xs \<and> adjacent R ys \<and> (xs = [] \<or> ys = [] \<or> R (last xs) (hd ys))"
proof (induction R xs rule: adjacent.induct)
  case (2 R x)
  then show ?case by (cases ys) auto
qed auto

lemma adjacent_tl: "adjacent R (x # xs) \<Longrightarrow> adjacent R xs"
  by (cases xs) auto

lemma adjacent_drop: "adjacent R xs \<Longrightarrow> adjacent R (drop n xs)"
proof (induction n arbitrary: xs)
  case (Suc n)
  then show ?case by (cases xs) (auto dest: adjacent_tl)
qed simp

end
