(* ===== verification/MoveQueue.thy ===== *)
theory MoveQueue
  imports Prelude
begin

text \<open>
  Moves and the look-ahead queue: \<^verbatim>\<open>internal/pkg/motion/move_queue.go\<close>.  This theory holds
  the data and the operations; \<^verbatim>\<open>LookAhead\<close> holds the planner's correctness.

  The queue's processor callback is represented by the batch of moves that a flush hands
  over; a timing callback is represented by its identifier, so that the calls it receives
  can be recorded (see \<^verbatim>\<open>QueueMoveBatch\<close>).
\<close>

section \<open>Moves\<close>

record MoveConfig =
  Max_accel :: real
  cfg_Junction_deviation :: real
  Max_velocity :: real
  Max_accel_to_decel :: real

record Move =
  Start_pos :: "real list"
  End_pos :: "real list"
  Accel :: real
  Junction_deviation :: real
  Timing_callbacks :: "nat list"
  Is_kinematic_move :: bool
  Axes_d :: "real list"
  Move_d :: real
  Axes_r :: "real list"
  Min_move_t :: real
  Max_start_v2 :: real
  Max_cruise_v2 :: real
  Delta_v2 :: real
  Next_junction_v2 :: real
  Max_mcr_start_v2 :: real
  Mcr_delta_v2 :: real
  Max_smoothed_v2 :: real
  Smooth_delta_v2 :: real
  Start_v :: real
  Cruise_v :: real
  End_v :: real
  Accel_t :: real
  Cruise_t :: real
  Decel_t :: real

text \<open>
  \<open>NewMove\<close> indexes both positions at 0 to 3, so shorter slices panic.  Fields the source
  leaves unset are Go's zero values.
\<close>

definition NewMove :: "MoveConfig \<Rightarrow> real list \<Rightarrow> real list \<Rightarrow> real \<Rightarrow> Move result" where
  "NewMove config start_pos end_pos speed =
     (if length start_pos < 4 \<or> length end_pos < 4 then Inl IndexOutOfRange else
      let d0 = end_pos ! 0 - start_pos ! 0;
          d1 = end_pos ! 1 - start_pos ! 1;
          d2 = end_pos ! 2 - start_pos ! 2;
          d3 = end_pos ! 3 - start_pos ! 3;
          move_d = sqrt (d0 * d0 + d1 * d1 + d2 * d2);
          degenerate = move_d < 0.000000001;
          axes_d = (if degenerate then [0, 0, 0, d3] else [d0, d1, d2, d3]);
          move_d' = (if degenerate then \<bar>d3\<bar> else move_d);
          inv_move_d = (if degenerate then (if move_d' \<noteq> 0 then 1 / move_d' else 0)
                        else 1 / move_d');
          accel = (if degenerate then 99999999.9 else Max_accel config);
          velocity = (if degenerate then speed else min speed (Max_velocity config))
      in Inr \<lparr> Start_pos = start_pos,
               End_pos = (if degenerate
                          then [start_pos ! 0, start_pos ! 1, start_pos ! 2, end_pos ! 3]
                          else end_pos),
               Accel = accel,
               Junction_deviation = cfg_Junction_deviation config,
               Timing_callbacks = [],
               Is_kinematic_move = (\<not> degenerate),
               Axes_d = axes_d,
               Move_d = move_d',
               Axes_r = map (\<lambda>d. d * inv_move_d) axes_d,
               Min_move_t = move_d' / velocity,
               Max_start_v2 = 0,
               Max_cruise_v2 = velocity * velocity,
               Delta_v2 = 2 * move_d' * accel,
               Next_junction_v2 = 999999999.9,
               Max_mcr_start_v2 = 0,
               Mcr_delta_v2 = 2 * move_d' * Max_accel_to_decel config,
               Max_smoothed_v2 = 0,
               Smooth_delta_v2 = 2 * move_d' * Max_accel_to_decel config,
               Start_v = 0, Cruise_v = 0, End_v = 0,
               Accel_t = 0, Cruise_t = 0, Decel_t = 0 \<rparr>)"

definition Limit_speed :: "real \<Rightarrow> real \<Rightarrow> Move \<Rightarrow> Move" where
  "Limit_speed speed accel m =
     (let speed2 = speed * speed;
          m1 = (if speed2 < Max_cruise_v2 m
                then m\<lparr>Max_cruise_v2 := speed2, Min_move_t := Move_d m / speed\<rparr> else m);
          m2 = m1\<lparr>Accel := min (Accel m1) accel\<rparr>;
          m3 = m2\<lparr>Delta_v2 := 2 * Move_d m2 * Accel m2\<rparr>;
          m4 = m3\<lparr>Mcr_delta_v2 := min (Mcr_delta_v2 m3) (Delta_v2 m3)\<rparr>
      in m4\<lparr>Smooth_delta_v2 := Mcr_delta_v2 m4\<rparr>)"

definition Limit_next_junction_speed :: "real \<Rightarrow> Move \<Rightarrow> Move" where
  "Limit_next_junction_speed speed m =
     m\<lparr>Next_junction_v2 := min (Next_junction_v2 m) (speed * speed)\<rparr>"

definition Move_error :: "string \<Rightarrow> Move \<Rightarrow> string \<times> real list" where
  "Move_error msg m = (msg, take 4 (End_pos m))"

fun customMin :: "real list \<Rightarrow> real" where
  "customMin [] = 0"
| "customMin (v # vs) = foldl (\<lambda>mn w. if w < mn then w else mn) v vs"

text \<open>
  The extruder is an optional junction calculator (nil in the source when absent);
  \<open>Calc_junction\<close> updates the later of the two moves.
\<close>

type_synonym junction_calculator = "Move \<Rightarrow> Move \<Rightarrow> real"

definition Calc_junction :: "junction_calculator option \<Rightarrow> Move \<Rightarrow> Move \<Rightarrow> Move" where
  "Calc_junction extruder prev_move m =
     (if \<not> Is_kinematic_move m \<or> \<not> Is_kinematic_move prev_move then m else
      let extruder_v2 = (case extruder of None \<Rightarrow> Max_cruise_v2 m | Some f \<Rightarrow> f prev_move m);
          max_start_v2 = customMin [extruder_v2, Max_cruise_v2 m, Max_cruise_v2 prev_move,
                           Next_junction_v2 prev_move,
                           Max_start_v2 prev_move + Delta_v2 prev_move];
          r = Axes_r m; p = Axes_r prev_move;
          junction_cos_theta = - (r ! 0 * p ! 0 + r ! 1 * p ! 1 + r ! 2 * p ! 2);
          sin_theta_d2 = sqrt (max (0.5 * (1 - junction_cos_theta)) 0);
          cos_theta_d2 = sqrt (max (0.5 * (1 + junction_cos_theta)) 0);
          one_minus_sin_theta_d2 = 1 - sin_theta_d2;
          limited = (if one_minus_sin_theta_d2 > 0 \<and> cos_theta_d2 > 0 then
             let R_jd = sin_theta_d2 / one_minus_sin_theta_d2;
                 move_jd_v2 = R_jd * Junction_deviation m * Accel m;
                 pmove_jd_v2 = R_jd * Junction_deviation prev_move * Accel prev_move;
                 quarter_tan_theta_d2 = 0.25 * sin_theta_d2 / cos_theta_d2;
                 move_centripetal_v2 = Delta_v2 m * quarter_tan_theta_d2;
                 pmove_centripetal_v2 = Delta_v2 prev_move * quarter_tan_theta_d2
             in customMin [max_start_v2, move_jd_v2, pmove_jd_v2,
                           move_centripetal_v2, pmove_centripetal_v2]
           else max_start_v2);
          mcr = min limited (Max_mcr_start_v2 prev_move + Mcr_delta_v2 prev_move)
      in m\<lparr>Max_start_v2 := limited, Max_mcr_start_v2 := mcr, Max_smoothed_v2 := mcr\<rparr>)"

definition Set_junction :: "real \<Rightarrow> real \<Rightarrow> real \<Rightarrow> Move \<Rightarrow> Move" where
  "Set_junction start_v2 cruise_v2 end_v2 m =
     (let half_inv_accel = 0.5 / Accel m;
          accel_d = (cruise_v2 - start_v2) * half_inv_accel;
          decel_d = (cruise_v2 - end_v2) * half_inv_accel;
          cruise_d = Move_d m - accel_d - decel_d;
          start_v = sqrt start_v2;
          cruise_v = sqrt cruise_v2;
          end_v = sqrt end_v2
      in m\<lparr>Start_v := start_v, Cruise_v := cruise_v, End_v := end_v,
           Accel_t := accel_d / ((start_v + cruise_v) * 0.5),
           Cruise_t := cruise_d / cruise_v,
           Decel_t := decel_d / ((end_v + cruise_v) * 0.5)\<rparr>)"

section \<open>The look-ahead queue\<close>

definition LOOKAHEAD_FLUSH_TIME :: real where
  "LOOKAHEAD_FLUSH_TIME = 0.150"

record junctionNode =
  node_Move :: Move
  StartV2 :: real
  CruiseV2 :: real
  HasCruiseV2 :: bool
  NextStartV2 :: real

record LookAheadQueue =
  queue :: "Move list"
  junction_flush :: real

definition NewMoveQueue :: LookAheadQueue where
  "NewMoveQueue = \<lparr>queue = [], junction_flush = LOOKAHEAD_FLUSH_TIME\<rparr>"

definition Reset :: "LookAheadQueue \<Rightarrow> LookAheadQueue" where
  "Reset lq = lq\<lparr>queue := [], junction_flush := LOOKAHEAD_FLUSH_TIME\<rparr>"

definition Set_flush_time :: "real \<Rightarrow> LookAheadQueue \<Rightarrow> LookAheadQueue" where
  "Set_flush_time flush_time lq = lq\<lparr>junction_flush := flush_time\<rparr>"

definition Get_last :: "LookAheadQueue \<Rightarrow> Move option" where
  "Get_last lq = (if length (queue lq) > 0 then Some (queue lq ! (length (queue lq) - 1)) else None)"

definition Queue_len :: "LookAheadQueue \<Rightarrow> nat" where
  "Queue_len lq = length (queue lq)"

text \<open>
  The loop variables of \<open>Flush\<close>'s traversal from the last move to the first, with the
  part of \<open>junctionInfo\<close> filled so far.
\<close>

record flush_vars =
  next_start_v2 :: real
  next_mcr_start_v2 :: real
  peak_cruise_v2 :: real
  pending_cruise_assign :: nat
  update_flush_count :: bool
  flush_count :: nat
  junctionInfo :: "junctionNode list"

definition flush_init :: "bool \<Rightarrow> nat \<Rightarrow> flush_vars" where
  "flush_init lazy n = \<lparr>next_start_v2 = 0, next_mcr_start_v2 = 0, peak_cruise_v2 = 0,
     pending_cruise_assign = 0, update_flush_count = lazy, flush_count = n, junctionInfo = []\<rparr>"

definition flush_step :: "nat \<Rightarrow> Move \<Rightarrow> flush_vars \<Rightarrow> flush_vars" where
  "flush_step i m s =
     (let reachable_start_v2 = next_start_v2 s + Delta_v2 m;
          start_v2 = min (Max_start_v2 m) reachable_start_v2;
          pending = pending_cruise_assign s + 1;
          reachable_mcr_start_v2 = next_mcr_start_v2 s + Mcr_delta_v2 m;
          mcr_start_v2 = min (Max_mcr_start_v2 m) reachable_mcr_start_v2;
          hasCruiseV2 = (mcr_start_v2 < reachable_mcr_start_v2);
          new_peak = (hasCruiseV2 \<and>
            (mcr_start_v2 + Mcr_delta_v2 m > next_mcr_start_v2 s \<or> pending > 1));
          cut = (new_peak \<and> update_flush_count s \<and> peak_cruise_v2 s \<noteq> 0);
          peak = (if new_peak then (mcr_start_v2 + reachable_mcr_start_v2) * 0.5
                  else peak_cruise_v2 s);
          cruise_v2 = (if hasCruiseV2 then
                         customMin [(start_v2 + reachable_start_v2) * 0.5, Max_cruise_v2 m, peak]
                       else 0)
      in \<lparr>next_start_v2 = start_v2, next_mcr_start_v2 = mcr_start_v2, peak_cruise_v2 = peak,
          pending_cruise_assign = (if hasCruiseV2 then 0 else pending),
          update_flush_count = (if cut then False else update_flush_count s),
          flush_count = (if cut then i + pending else flush_count s),
          junctionInfo = \<lparr>node_Move = m, StartV2 = start_v2, CruiseV2 = cruise_v2,
             HasCruiseV2 = hasCruiseV2, NextStartV2 = next_start_v2 s\<rparr> # junctionInfo s\<rparr>)"

text \<open>The traversal: the element at index \<open>i\<close> is handled after every later one.\<close>

primrec flush_backward :: "flush_vars \<Rightarrow> nat \<Rightarrow> Move list \<Rightarrow> flush_vars" where
  "flush_backward s0 i [] = s0"
| "flush_backward s0 i (m # ms) = flush_step i m (flush_backward s0 (Suc i) ms)"

definition node_cruise_v2 :: "real \<Rightarrow> junctionNode \<Rightarrow> real" where
  "node_cruise_v2 prev_cruise_v2 node =
     (if HasCruiseV2 node then CruiseV2 node else min prev_cruise_v2 (StartV2 node))"

primrec flush_forward :: "real \<Rightarrow> junctionNode list \<Rightarrow> Move list" where
  "flush_forward prev_cruise_v2 [] = []"
| "flush_forward prev_cruise_v2 (node # nodes) =
     (let cruise_v2 = node_cruise_v2 prev_cruise_v2 node
      in Set_junction (min (StartV2 node) cruise_v2) cruise_v2
           (min (NextStartV2 node) cruise_v2) (node_Move node)
         # flush_forward cruise_v2 nodes)"

text \<open>
  \<open>Flush\<close> returns the batch handed to the processor (\<open>None\<close> when it returns early) and
  the queue afterwards.
\<close>

definition Flush :: "bool \<Rightarrow> LookAheadQueue \<Rightarrow> Move list option \<times> LookAheadQueue" where
  "Flush lazy lq =
     (let lq1 = lq\<lparr>junction_flush := LOOKAHEAD_FLUSH_TIME\<rparr>;
          q = queue lq1;
          s = flush_backward (flush_init lazy (length q)) 0 q
      in if update_flush_count s \<or> flush_count s = 0 then (None, lq1)
         else (Some (flush_forward 0 (take (flush_count s) (junctionInfo s))),
               lq1\<lparr>queue := (if flush_count s < length q then drop (flush_count s) q else [])\<rparr>))"

definition Add_move :: "junction_calculator option \<Rightarrow> Move \<Rightarrow> LookAheadQueue \<Rightarrow> bool \<times> LookAheadQueue" where
  "Add_move extruder m lq =
     (if queue lq = [] then (False, lq\<lparr>queue := [m]\<rparr>)
      else let m' = Calc_junction extruder (last (queue lq)) m;
               jf = junction_flush lq - Min_move_t m'
           in (jf \<le> 0, lq\<lparr>queue := queue lq @ [m'], junction_flush := jf\<rparr>))"

section \<open>Handing a batch to the trapezoid queue\<close>

text \<open>
  \<^verbatim>\<open>move_batch.go\<close>.  The sink and the timing callbacks are effects; the model records them.
\<close>

datatype batch_event =
    QueueKinematicMove real Move
  | QueueExtruderMove real Move
  | TimingCallback nat real

primrec QueueMoveBatch :: "real \<Rightarrow> Move list \<Rightarrow> batch_event list \<times> real" where
  "QueueMoveBatch t [] = ([], t)"
| "QueueMoveBatch t (m # ms) =
     (let t' = t + (Accel_t m + Cruise_t m + Decel_t m);
          evs = (if Is_kinematic_move m then [QueueKinematicMove t m] else [])
              @ (if Axes_d m ! 3 \<noteq> 0 then [QueueExtruderMove t m] else [])
              @ map (\<lambda>cb. TimingCallback cb t') (Timing_callbacks m);
          r = QueueMoveBatch t' ms
      in (evs @ fst r, snd r))"

end
