(* ===== verification/LookAhead.thy ===== *)
theory LookAhead
  imports MoveQueue
begin

text \<open>
  Correctness of the look-ahead planner of \<^verbatim>\<open>move_queue.go\<close>.  The plan a flush hands to the
  processor is a sequence of feasible trapezoids (no negative time, exact distance, no
  acceleration or speed above the move's limits), the speed is continuous from each move to
  the next, and this continuity also holds across flushes, lazy ones included, for every
  sequence of additions and flushes.
\<close>

section \<open>Well-formed moves and junctions\<close>

definition wf_move :: "Move \<Rightarrow> bool" where
  "wf_move m \<longleftrightarrow> 0 < Move_d m \<and> 0 < Accel m \<and> Delta_v2 m = 2 * Move_d m * Accel m \<and>
     0 < Mcr_delta_v2 m \<and> Mcr_delta_v2 m \<le> Delta_v2 m \<and> 0 < Max_cruise_v2 m \<and>
     0 \<le> Junction_deviation m \<and> 0 \<le> Next_junction_v2 m \<and>
     0 \<le> Max_mcr_start_v2 m \<and> Max_mcr_start_v2 m \<le> Max_start_v2 m \<and>
     Max_start_v2 m \<le> Max_cruise_v2 m"

text \<open>A move that has not been joined to a predecessor: it starts from rest.\<close>

definition fresh_move :: "Move \<Rightarrow> bool" where
  "fresh_move m \<longleftrightarrow> wf_move m \<and> Max_start_v2 m = 0 \<and> Max_mcr_start_v2 m = 0"

definition joined :: "Move \<Rightarrow> Move \<Rightarrow> bool" where
  "joined p m \<longleftrightarrow> Max_start_v2 m \<le> Max_cruise_v2 p \<and>
     Max_start_v2 m \<le> Max_start_v2 p + Delta_v2 p \<and>
     Max_mcr_start_v2 m = min (Max_start_v2 m) (Max_mcr_start_v2 p + Mcr_delta_v2 p)"

definition chain :: "Move list \<Rightarrow> bool" where
  "chain ms \<longleftrightarrow> (\<forall>m\<in>set ms. wf_move m) \<and> adjacent joined ms"

lemma wf_moveD:
  assumes "wf_move m"
  shows "0 < Move_d m" "0 < Accel m" "Delta_v2 m = 2 * Move_d m * Accel m"
    "0 < Mcr_delta_v2 m" "Mcr_delta_v2 m \<le> Delta_v2 m" "0 < Max_cruise_v2 m" "0 < Delta_v2 m"
    "0 \<le> Max_mcr_start_v2 m" "Max_mcr_start_v2 m \<le> Max_start_v2 m"
    "Max_start_v2 m \<le> Max_cruise_v2 m" "0 \<le> Max_start_v2 m"
  using assms by (auto simp: wf_move_def)

lemma chain_Cons: "chain (m # ms) \<longleftrightarrow>
    wf_move m \<and> chain ms \<and> (ms = [] \<or> joined m (hd ms))"
  by (cases ms) (auto simp: chain_def)

lemma chain_Nil [simp]: "chain []"
  by (simp add: chain_def)

lemma chain_drop: "chain ms \<Longrightarrow> chain (drop k ms)"
  by (auto simp: chain_def adjacent_drop dest: in_set_dropD)

lemma chain_snoc: "chain (ms @ [m]) \<longleftrightarrow> chain ms \<and> wf_move m \<and> (ms = [] \<or> joined (last ms) m)"
  by (auto simp: chain_def)

section \<open>Construction of well-formed moves\<close>

definition wf_config :: "MoveConfig \<Rightarrow> bool" where
  "wf_config c \<longleftrightarrow> 0 < Max_accel c \<and> 0 \<le> cfg_Junction_deviation c \<and> 0 < Max_velocity c \<and>
     0 < Max_accel_to_decel c \<and> Max_accel_to_decel c \<le> Max_accel c \<and>
     Max_accel_to_decel c \<le> 99999999.9"

lemma NewMove_limits:
  assumes "NewMove c sp ep speed = Inr m"
  defines "v \<equiv> if Is_kinematic_move m then min speed (Max_velocity c) else speed"
  shows "Max_cruise_v2 m = v * v"
    "Accel m = (if Is_kinematic_move m then Max_accel c else 99999999.9)"
    "Delta_v2 m = 2 * Move_d m * Accel m"
    "Mcr_delta_v2 m = 2 * Move_d m * Max_accel_to_decel c" "0 \<le> Move_d m"
    "Max_start_v2 m = 0" "Max_mcr_start_v2 m = 0" "Next_junction_v2 m = 999999999.9"
    "Junction_deviation m = cfg_Junction_deviation c"
  using assms by (auto simp: NewMove_def Let_def split: if_split_asm)

lemma NewMove_fresh:
  assumes "wf_config c" and "0 < speed"
    and "NewMove c sp ep speed = Inr m" and "Move_d m \<noteq> 0"
  shows "fresh_move m"
proof -
  define v where "v = (if Is_kinematic_move m then min speed (Max_velocity c) else speed)"
  note lim = NewMove_limits[OF assms(3), folded v_def]
  have "0 < v" using assms(1,2) by (auto simp: wf_config_def v_def)
  moreover have "0 < Accel m" "Max_accel_to_decel c \<le> Accel m"
    using assms(1) by (auto simp: wf_config_def lim(2))
  moreover have "0 < Move_d m" using lim(5) assms(4) by simp
  ultimately show "fresh_move m"
    using assms(1) lim unfolding fresh_move_def wf_move_def wf_config_def by simp
qed

lemma NewMove_axes:
  assumes "NewMove c sp ep speed = Inr m"
  shows "length (Axes_d m) = 4" "length (Axes_r m) = 4" "length (End_pos m) \<ge> 4"
    "Start_pos m = sp"
  using assms by (auto simp: NewMove_def Let_def split: if_splits)

lemma Limit_speed_sel [simp]:
  "Move_d (Limit_speed v a m) = Move_d m"
  "Max_start_v2 (Limit_speed v a m) = Max_start_v2 m"
  "Max_mcr_start_v2 (Limit_speed v a m) = Max_mcr_start_v2 m"
  "Accel (Limit_speed v a m) = min (Accel m) a"
  "Delta_v2 (Limit_speed v a m) = 2 * Move_d m * min (Accel m) a"
  "Max_cruise_v2 (Limit_speed v a m) = min (Max_cruise_v2 m) (v * v)"
  "Mcr_delta_v2 (Limit_speed v a m) = min (Mcr_delta_v2 m) (2 * Move_d m * min (Accel m) a)"
  "Junction_deviation (Limit_speed v a m) = Junction_deviation m"
  "Next_junction_v2 (Limit_speed v a m) = Next_junction_v2 m"
  "Is_kinematic_move (Limit_speed v a m) = Is_kinematic_move m"
  "Axes_d (Limit_speed v a m) = Axes_d m"
  "Axes_r (Limit_speed v a m) = Axes_r m"
  "Start_pos (Limit_speed v a m) = Start_pos m"
  "End_pos (Limit_speed v a m) = End_pos m"
  by (auto simp: Limit_speed_def Let_def min_def)

lemma Limit_speed_fresh:
  assumes "fresh_move m" and "0 < v" and "0 < a"
  shows "fresh_move (Limit_speed v a m)"
  using assms by (auto simp: fresh_move_def wf_move_def min_def)

lemma Limit_next_junction_fresh:
  "fresh_move m \<Longrightarrow> fresh_move (Limit_next_junction_speed v m)"
  by (auto simp: fresh_move_def wf_move_def Limit_next_junction_speed_def min_def)

section \<open>The junction contract of an extruder\<close>

lemma foldl_min_le:
  "foldl (\<lambda>mn w. if w < mn then w else mn) v vs \<le> (v::real)"
  "w \<in> set vs \<Longrightarrow> foldl (\<lambda>mn w. if w < mn then w else mn) v vs \<le> w"
proof (induction vs arbitrary: v)
  case (Cons a vs)
  { case 1
    have "foldl (\<lambda>mn w. if w < mn then w else mn) (if a < v then a else v) vs
            \<le> (if a < v then a else v)"
      by (rule Cons.IH)
    then show ?case by (simp split: if_splits) }
  { case 2
    have "foldl (\<lambda>mn w. if w < mn then w else mn) (if a < v then a else v) vs
            \<le> (if a < v then a else v)"
      by (rule Cons.IH)
    also have "\<dots> \<le> a" by simp
    finally show ?case using 2 by (auto simp: Cons.IH(2)) }
qed auto

lemma foldl_min_in:
  "foldl (\<lambda>mn w. if w < mn then w else mn) v vs \<in> insert (v::real) (set vs)"
proof (induction vs arbitrary: v)
  case (Cons a vs)
  have "foldl (\<lambda>mn w. if w < mn then w else mn) (if a < v then a else v) vs
          \<in> insert (if a < v then a else v) (set vs)"
    by (rule Cons.IH)
  then show ?case by (auto split: if_splits)
qed simp

text \<open>\<open>customMin\<close> is the minimum of its arguments.\<close>

lemma customMin_le: "x \<in> set xs \<Longrightarrow> customMin xs \<le> x"
  by (cases xs) (auto intro: foldl_min_le)

lemma customMin_in: "xs \<noteq> [] \<Longrightarrow> customMin xs \<in> set xs"
  using foldl_min_in by (cases xs) auto

lemma customMin_eq_Min: "xs \<noteq> [] \<Longrightarrow> customMin xs = Min (set xs)"
  using customMin_le customMin_in by (metis List.finite_set Min_eqI)

lemma customMin_nonneg: "(\<forall>x\<in>set xs. 0 \<le> x) \<Longrightarrow> 0 \<le> customMin xs"
  using customMin_in by (cases "xs = []") auto

lemma customMin3: "customMin [a, b, c] = min a (min b c)"
  by (auto simp: min_def)

lemma customMin_single: "customMin [a] = a"
  by simp

declare customMin.simps(2) [simp del]

text \<open>Whatever the limit, only the three start-speed fields of the later move change.\<close>

lemma Calc_junction_shape:
  obtains "Calc_junction e p m = m" "\<not> (Is_kinematic_move m \<and> Is_kinematic_move p)"
  | x where "Calc_junction e p m = m\<lparr>Max_start_v2 := x,
        Max_mcr_start_v2 := min x (Max_mcr_start_v2 p + Mcr_delta_v2 p),
        Max_smoothed_v2 := min x (Max_mcr_start_v2 p + Mcr_delta_v2 p)\<rparr>"
proof (cases "Is_kinematic_move m \<and> Is_kinematic_move p")
  case False
  then show ?thesis using that(1) by (auto simp: Calc_junction_def)
next
  case True
  then have k: "\<not> Is_kinematic_move m \<or> \<not> Is_kinematic_move p \<longleftrightarrow> False" by blast
  show ?thesis
    by (rule that(2)) (simp only: Calc_junction_def k if_False Let_def)
qed

text \<open>
  The limits a junction sets, as a specification: with the cosine of the angle between the
  two directions, the limits of a straight junction and those of a corner (the approximated
  centripetal velocity from the junction deviation, and the circle that touches both moves
  at their middles).
\<close>

definition dir_dot :: "Move \<Rightarrow> Move \<Rightarrow> real" where
  "dir_dot p m = Axes_r m ! 0 * Axes_r p ! 0 + Axes_r m ! 1 * Axes_r p ! 1
                 + Axes_r m ! 2 * Axes_r p ! 2"

definition straight_limits :: "junction_calculator \<Rightarrow> Move \<Rightarrow> Move \<Rightarrow> real list" where
  "straight_limits f p m = [f p m, Max_cruise_v2 m, Max_cruise_v2 p, Next_junction_v2 p,
                            Max_start_v2 p + Delta_v2 p]"

definition half_sin :: "Move \<Rightarrow> Move \<Rightarrow> real" where
  "half_sin p m = sqrt (max (0.5 * (1 - (- dir_dot p m))) 0)"

definition half_cos :: "Move \<Rightarrow> Move \<Rightarrow> real" where
  "half_cos p m = sqrt (max (0.5 * (1 + (- dir_dot p m))) 0)"

definition corner_limits :: "Move \<Rightarrow> Move \<Rightarrow> real list" where
  "corner_limits p m = (if 1 - half_sin p m > 0 \<and> half_cos p m > 0 then
     [half_sin p m / (1 - half_sin p m) * Junction_deviation m * Accel m,
      half_sin p m / (1 - half_sin p m) * Junction_deviation p * Accel p,
      Delta_v2 m * (0.25 * half_sin p m / half_cos p m),
      Delta_v2 p * (0.25 * half_sin p m / half_cos p m)] else [])"

lemma corner_limits_nonneg:
  assumes "wf_move m" "wf_move p"
  shows "\<forall>y\<in>set (corner_limits p m). 0 \<le> y"
proof -
  have "0 \<le> half_sin p m" by (simp add: half_sin_def)
  with assms show ?thesis
    by (auto simp: corner_limits_def wf_move_def)
qed

lemma straight_limits_nonneg:
  "wf_move m \<Longrightarrow> wf_move p \<Longrightarrow> 0 \<le> f p m \<Longrightarrow> \<forall>x\<in>set (straight_limits f p m). 0 \<le> x"
  by (auto simp: straight_limits_def wf_move_def)

lemma Calc_junction_start:
  assumes "Is_kinematic_move m" "Is_kinematic_move p"
  shows "Max_start_v2 (Calc_junction (Some f) p m) =
     customMin (customMin (straight_limits f p m) # corner_limits p m)"
  using assms
  unfolding Calc_junction_def Let_def option.case dir_dot_def[symmetric] half_sin_def[symmetric]
    half_cos_def[symmetric] corner_limits_def straight_limits_def
  by (simp add: customMin_single)

locale junction_contract =
  fixes calc :: junction_calculator
  assumes calc_nonneg: "wf_move p \<Longrightarrow> wf_move m \<Longrightarrow> 0 \<le> calc p m"
begin

text \<open>
  With a calculator that never asks for a negative squared speed, joining a fresh move to a
  well-formed predecessor yields a well-formed, joined move.
\<close>

lemma junction_start_bounds:
  assumes "wf_move p" "fresh_move m"
  defines "m' \<equiv> Calc_junction (Some calc) p m"
  shows "0 \<le> Max_start_v2 m'" "Max_start_v2 m' \<le> Max_cruise_v2 m"
    "Max_start_v2 m' \<le> Max_cruise_v2 p" "Max_start_v2 m' \<le> Max_start_v2 p + Delta_v2 p"
    "Max_start_v2 m' \<le> max 0 (calc p m)"
proof -
  have wm: "wf_move m" using assms(2) by (simp add: fresh_move_def)
  have c0: "0 \<le> calc p m" using calc_nonneg assms(1) wm .
  define xs where "xs = straight_limits calc p m"
  note xs0 = straight_limits_nonneg[where f = calc, OF wm assms(1) c0, folded xs_def]
  have A: "Max_start_v2 m' \<le> customMin xs \<and> 0 \<le> Max_start_v2 m'"
  proof (cases "Is_kinematic_move m \<and> Is_kinematic_move p")
    case False
    then have "m' = m" by (auto simp: m'_def Calc_junction_def)
    with assms(2) customMin_nonneg[OF xs0] show ?thesis by (simp add: fresh_move_def)
  next
    case True
    then have eq: "Max_start_v2 m' = customMin (customMin xs # corner_limits p m)"
      unfolding m'_def xs_def by (simp add: Calc_junction_start)
    have "0 \<le> customMin (customMin xs # corner_limits p m)"
      using corner_limits_nonneg[OF wm assms(1)] customMin_nonneg[OF xs0] by (intro customMin_nonneg) auto
    moreover have "customMin (customMin xs # corner_limits p m) \<le> customMin xs"
      by (rule customMin_le) simp
    ultimately show ?thesis by (simp only: eq)
  qed
  have le: "customMin xs \<le> x" if "x \<in> set xs" for x
    using that by (rule customMin_le)
  show "0 \<le> Max_start_v2 m'" using A by simp
  show "Max_start_v2 m' \<le> Max_cruise_v2 m" using A le[of "Max_cruise_v2 m"] by (simp add: xs_def straight_limits_def)
  show "Max_start_v2 m' \<le> Max_cruise_v2 p" using A le[of "Max_cruise_v2 p"] by (simp add: xs_def straight_limits_def)
  show "Max_start_v2 m' \<le> Max_start_v2 p + Delta_v2 p"
    using A le[of "Max_start_v2 p + Delta_v2 p"] by (simp add: xs_def straight_limits_def)
  show "Max_start_v2 m' \<le> max 0 (calc p m)" using A le[of "calc p m"] by (simp add: xs_def straight_limits_def)
qed

lemma junction_mcr:
  assumes "wf_move p" "fresh_move m"
  shows "Max_mcr_start_v2 (Calc_junction (Some calc) p m) =
     min (Max_start_v2 (Calc_junction (Some calc) p m)) (Max_mcr_start_v2 p + Mcr_delta_v2 p)"
  using assms
  by (cases rule: Calc_junction_shape[of "Some calc" p m]) (auto simp: fresh_move_def wf_move_def)

lemma junction_joined:
  assumes "wf_move p" "fresh_move m"
  shows "wf_move (Calc_junction (Some calc) p m)" "joined p (Calc_junction (Some calc) p m)"
proof -
  let ?m' = "Calc_junction (Some calc) p m"
  note b = junction_start_bounds[OF assms] and c = junction_mcr[OF assms]
  have same: "Move_d ?m' = Move_d m" "Accel ?m' = Accel m" "Delta_v2 ?m' = Delta_v2 m"
    "Mcr_delta_v2 ?m' = Mcr_delta_v2 m" "Max_cruise_v2 ?m' = Max_cruise_v2 m"
    "Junction_deviation ?m' = Junction_deviation m" "Next_junction_v2 ?m' = Next_junction_v2 m"
    by (cases rule: Calc_junction_shape[of "Some calc" p m]; simp)+
  have mcr: "0 \<le> Max_mcr_start_v2 p + Mcr_delta_v2 p"
    using assms(1) by (simp add: wf_move_def)
  have wm: "wf_move m" using assms(2) by (simp add: fresh_move_def)
  show "wf_move ?m'"
    using wm b(1,2) mcr unfolding wf_move_def same c by simp
  show "joined p ?m'"
    using b(3,4) by (simp add: joined_def c)
qed

end

text \<open>With no extruder the source falls back to the move's own cruise limit.\<close>

lemma Calc_junction_None:
  "Calc_junction None p m = Calc_junction (Some (\<lambda>_ m. Max_cruise_v2 m)) p m"
  by (simp only: Calc_junction_def option.case)

interpretation no_extruder: junction_contract "\<lambda>_ m. Max_cruise_v2 m"
  by unfold_locales (auto simp: wf_move_def)

section \<open>The backward traversal\<close>

text \<open>The squared speed at which a suffix of the queue can be entered and still stop at its
  end, with the full and with the reduced (minimum cruise ratio) acceleration.\<close>

primrec reach_start :: "Move list \<Rightarrow> real" where
  "reach_start [] = 0"
| "reach_start (m # ms) = min (Max_start_v2 m) (reach_start ms + Delta_v2 m)"

primrec reach_mcr :: "Move list \<Rightarrow> real" where
  "reach_mcr [] = 0"
| "reach_mcr (m # ms) = min (Max_mcr_start_v2 m) (reach_mcr ms + Mcr_delta_v2 m)"

definition can_accel :: "Move \<Rightarrow> Move list \<Rightarrow> bool" where
  "can_accel m ms \<longleftrightarrow> Max_mcr_start_v2 m < reach_mcr ms + Mcr_delta_v2 m"

lemma reach_bounds:
  assumes "\<forall>m\<in>set ms. wf_move m"
  shows "0 \<le> reach_mcr ms" "reach_mcr ms \<le> reach_start ms"
proof -
  have "0 \<le> reach_mcr ms \<and> reach_mcr ms \<le> reach_start ms"
    using assms
  proof (induction ms)
    case (Cons m ms)
    then have "wf_move m" "0 \<le> reach_mcr ms \<and> reach_mcr ms \<le> reach_start ms" by auto
    then show ?case
      by (auto simp: wf_move_def intro: min.mono)
  qed simp
  then show "0 \<le> reach_mcr ms" "reach_mcr ms \<le> reach_start ms" by auto
qed

lemma reach_mono:
  assumes "\<forall>m\<in>set ys. wf_move m"
  shows "reach_start xs \<le> reach_start (xs @ ys)" "reach_mcr xs \<le> reach_mcr (xs @ ys)"
  using reach_bounds[OF assms] by (induction xs) (auto intro: min.mono order_trans)

abbreviation fb :: "bool \<Rightarrow> nat \<Rightarrow> nat \<Rightarrow> Move list \<Rightarrow> flush_vars" where
  "fb lazy n i ms \<equiv> flush_backward (flush_init lazy n) i ms"

lemma fb_next [simp]:
  "next_start_v2 (fb lazy n i ms) = reach_start ms"
  "next_mcr_start_v2 (fb lazy n i ms) = reach_mcr ms"
  by (induction ms arbitrary: i) (simp_all add: flush_init_def flush_step_def Let_def)

text \<open>The part of a step that decides on a new peak, for a move that can accelerate.\<close>

definition new_peak_at :: "bool \<Rightarrow> nat \<Rightarrow> nat \<Rightarrow> Move \<Rightarrow> Move list \<Rightarrow> bool" where
  "new_peak_at lazy n i m ms \<longleftrightarrow> can_accel m ms \<and>
     (reach_mcr (m # ms) + Mcr_delta_v2 m > reach_mcr ms \<or>
      pending_cruise_assign (fb lazy n (Suc i) ms) > 0)"

lemma can_accel_iff:
  "can_accel m ms \<longleftrightarrow> reach_mcr (m # ms) < reach_mcr ms + Mcr_delta_v2 m"
  by (auto simp: can_accel_def)

lemma can_accel_reach: "can_accel m ms \<Longrightarrow> reach_mcr (m # ms) = Max_mcr_start_v2 m"
  by (simp add: can_accel_def)

lemma fb_Cons_peak:
  "peak_cruise_v2 (fb lazy n i (m # ms)) =
     (if new_peak_at lazy n i m ms then (reach_mcr (m # ms) + (reach_mcr ms + Mcr_delta_v2 m)) * 0.5
      else peak_cruise_v2 (fb lazy n (Suc i) ms))"
  "pending_cruise_assign (fb lazy n i (m # ms)) =
     (if can_accel m ms then 0 else pending_cruise_assign (fb lazy n (Suc i) ms) + 1)"
  by (auto simp: flush_step_def Let_def new_peak_at_def can_accel_iff
      simp del: reach_mcr.simps(2) simp add: reach_mcr.simps(2)[symmetric])

lemma fb_Cons_count:
  fixes lazy n i m ms
  defines "cutoff \<equiv> new_peak_at lazy n i m ms \<and> update_flush_count (fb lazy n (Suc i) ms) \<and>
                   peak_cruise_v2 (fb lazy n (Suc i) ms) \<noteq> 0"
  shows
  "update_flush_count (fb lazy n i (m # ms)) =
     (\<not> cutoff \<and> update_flush_count (fb lazy n (Suc i) ms))"
  "flush_count (fb lazy n i (m # ms)) =
     (if cutoff then i + (pending_cruise_assign (fb lazy n (Suc i) ms) + 1)
      else flush_count (fb lazy n (Suc i) ms))"
  by (auto simp: flush_step_def Let_def new_peak_at_def can_accel_iff cutoff_def
      simp del: reach_mcr.simps(2) simp add: reach_mcr.simps(2)[symmetric])

lemma fb_Cons_node:
  "junctionInfo (fb lazy n i (m # ms)) =
     \<lparr>node_Move = m, StartV2 = reach_start (m # ms),
      CruiseV2 = (if can_accel m ms then
          min ((reach_start (m # ms) + (reach_start ms + Delta_v2 m)) * 0.5)
            (min (Max_cruise_v2 m) (peak_cruise_v2 (fb lazy n i (m # ms)))) else 0),
      HasCruiseV2 = can_accel m ms, NextStartV2 = reach_start ms\<rparr>
     # junctionInfo (fb lazy n (Suc i) ms)"
  by (simp add: flush_step_def Let_def new_peak_at_def can_accel_iff customMin3
      del: reach_mcr.simps(2) reach_start.simps(2)
      add: reach_mcr.simps(2)[symmetric] reach_start.simps(2)[symmetric])

lemma length_junctionInfo [simp]: "length (junctionInfo (fb lazy n i ms)) = length ms"
proof (induction ms arbitrary: i)
  case (Cons m ms)
  then show ?case by (simp only: fb_Cons_node length_Cons)
qed (simp add: flush_init_def)

declare flush_backward.simps(2) [simp del]

section \<open>The peak bounds the reduced-acceleration profile\<close>

lemma accel_next:
  assumes "chain (m # ms)" and "can_accel m ms"
  shows "reach_mcr ms \<le> reach_mcr (m # ms) + Mcr_delta_v2 m"
proof (cases ms)
  case Nil
  with assms show ?thesis by (auto simp: chain_Cons wf_move_def)
next
  case (Cons k ks)
  with assms(1) have "Max_mcr_start_v2 k \<le> Max_mcr_start_v2 m + Mcr_delta_v2 m"
    by (auto simp: chain_Cons joined_def)
  with Cons can_accel_reach[OF assms(2)] show ?thesis by simp
qed

lemma start_next:
  assumes "chain (m # ms)"
  shows "reach_start ms \<le> reach_start (m # ms) + Delta_v2 m"
    and "reach_start ms \<le> Max_cruise_v2 m"
proof -
  have "wf_move m" using assms by (simp add: chain_Cons)
  moreover have "reach_start ms \<le> Max_start_v2 m + Delta_v2 m \<and> reach_start ms \<le> Max_cruise_v2 m"
  proof (cases ms)
    case Nil
    with \<open>wf_move m\<close> show ?thesis by (auto simp: wf_move_def)
  next
    case (Cons k ks)
    with assms have "joined m k" by (simp add: chain_Cons)
    with Cons show ?thesis by (auto simp: joined_def)
  qed
  ultimately show "reach_start ms \<le> reach_start (m # ms) + Delta_v2 m"
    and "reach_start ms \<le> Max_cruise_v2 m"
    by (auto simp: wf_move_def min_def)
qed

lemma chain_wf: "chain ms \<Longrightarrow> \<forall>m\<in>set ms. wf_move m"
  by (simp add: chain_def)

lemma peak_bound:
  assumes "chain ms"
  shows "pending_cruise_assign (fb lazy n i ms) = 0 \<Longrightarrow>
           reach_mcr ms \<le> peak_cruise_v2 (fb lazy n i ms)"
  using assms
proof (induction ms arbitrary: i)
  case Nil
  then show ?case by (simp add: flush_init_def)
next
  case (Cons m ms)
  from Cons.prems(1) have acc: "can_accel m ms"
    by (auto simp: fb_Cons_peak split: if_splits)
  from Cons.prems(2) have ch: "chain ms" and wf: "wf_move m" by (auto simp: chain_Cons)
  show ?case
  proof (cases "new_peak_at lazy n i m ms")
    case True
    have "reach_mcr (m # ms) \<le> reach_mcr ms + Mcr_delta_v2 m" by simp
    with True show ?thesis by (simp add: fb_Cons_peak(1) del: reach_mcr.simps(2))
  next
    case False
    with acc have "pending_cruise_assign (fb lazy n (Suc i) ms) = 0"
      and le: "reach_mcr (m # ms) + Mcr_delta_v2 m \<le> reach_mcr ms"
      by (auto simp: new_peak_at_def simp del: reach_mcr.simps(2))
    with Cons.IH ch have "reach_mcr ms \<le> peak_cruise_v2 (fb lazy n (Suc i) ms)" by blast
    with le wf False show ?thesis
      by (simp add: fb_Cons_peak(1) wf_move_def del: reach_mcr.simps(2))
  qed
qed

text \<open>The peak in force at a move that can accelerate is positive and bounds what follows.\<close>

lemma peak_accel:
  assumes "chain (m # ms)" and "can_accel m ms"
  shows "reach_mcr ms \<le> peak_cruise_v2 (fb lazy n i (m # ms))"
    and "reach_mcr (m # ms) \<le> peak_cruise_v2 (fb lazy n i (m # ms))"
    and "0 < peak_cruise_v2 (fb lazy n i (m # ms))"
proof -
  have wf: "wf_move m" and ch: "chain ms" using assms(1) by (auto simp: chain_Cons)
  note nn = reach_bounds(1)[OF chain_wf[OF ch]] reach_bounds(1)[OF chain_wf[OF assms(1)]]
  have nx: "reach_mcr ms \<le> reach_mcr (m # ms) + Mcr_delta_v2 m"
    by (rule accel_next[OF assms])
  have le: "reach_mcr (m # ms) \<le> reach_mcr ms + Mcr_delta_v2 m" by simp
  have d: "0 < Mcr_delta_v2 m" using wf by (simp add: wf_move_def)
  have "reach_mcr ms \<le> peak_cruise_v2 (fb lazy n i (m # ms)) \<and>
        reach_mcr (m # ms) \<le> peak_cruise_v2 (fb lazy n i (m # ms)) \<and>
        0 < peak_cruise_v2 (fb lazy n i (m # ms))"
  proof (cases "new_peak_at lazy n i m ms")
    case True
    with nx le nn d show ?thesis
      by (simp add: fb_Cons_peak(1) del: reach_mcr.simps(2))
  next
    case False
    with assms(2) have p0: "pending_cruise_assign (fb lazy n (Suc i) ms) = 0"
      and low: "reach_mcr (m # ms) + Mcr_delta_v2 m \<le> reach_mcr ms"
      by (auto simp: new_peak_at_def simp del: reach_mcr.simps(2))
    with peak_bound[OF ch] have "reach_mcr ms \<le> peak_cruise_v2 (fb lazy n (Suc i) ms)" by blast
    with low nn d False show ?thesis
      by (simp add: fb_Cons_peak(1) del: reach_mcr.simps(2))
  qed
  then show "reach_mcr ms \<le> peak_cruise_v2 (fb lazy n i (m # ms))"
    and "reach_mcr (m # ms) \<le> peak_cruise_v2 (fb lazy n i (m # ms))"
    and "0 < peak_cruise_v2 (fb lazy n i (m # ms))" by auto
qed

text \<open>
  Where the reduced profile, and not the junction itself, limits the entry of a move, its
  predecessor is a full acceleration move and shares its peak.
\<close>

lemma shared_peak:
  assumes "chain (p # m # ms)" and "can_accel m ms"
    and "Max_mcr_start_v2 m < Max_start_v2 m"
  shows "can_accel p (m # ms)"
    and "peak_cruise_v2 (fb lazy n i (p # m # ms)) = peak_cruise_v2 (fb lazy n (Suc i) (m # ms))"
    and "\<not> new_peak_at lazy n i p (m # ms)"
proof -
  have wf: "wf_move p" and j: "joined p m" using assms(1) by (auto simp: chain_Cons)
  with assms(3) have eq: "Max_mcr_start_v2 m = Max_mcr_start_v2 p + Mcr_delta_v2 p"
    by (auto simp: joined_def min_def split: if_splits)
  have r: "reach_mcr (m # ms) = Max_mcr_start_v2 p + Mcr_delta_v2 p"
    using can_accel_reach[OF assms(2)] eq by simp
  show a: "can_accel p (m # ms)"
    using wf by (simp add: can_accel_def r wf_move_def del: reach_mcr.simps(2))
  have "pending_cruise_assign (fb lazy n (Suc i) (m # ms)) = 0"
    by (simp add: fb_Cons_peak(2) assms(2))
  moreover have "\<not> reach_mcr (p # m # ms) + Mcr_delta_v2 p > reach_mcr (m # ms)"
    using can_accel_reach[OF a] r by (simp del: reach_mcr.simps(2))
  ultimately show "\<not> new_peak_at lazy n i p (m # ms)"
    by (simp add: new_peak_at_def del: reach_mcr.simps(2))
  then show "peak_cruise_v2 (fb lazy n i (p # m # ms)) = peak_cruise_v2 (fb lazy n (Suc i) (m # ms))"
    by (simp add: fb_Cons_peak(1) del: reach_mcr.simps(2))
qed

section \<open>Feasible trapezoids\<close>

text \<open>
  What the step generators need of a planned move: speeds and durations are not negative,
  the speed changes at the move's acceleration, the cruise speed respects the limit, and the
  three phases cover exactly the move's distance.
\<close>

definition trapezoid :: "Move \<Rightarrow> bool" where
  "trapezoid m \<longleftrightarrow>
     0 \<le> Start_v m \<and> Start_v m \<le> Cruise_v m \<and> 0 \<le> End_v m \<and> End_v m \<le> Cruise_v m \<and>
     0 < Cruise_v m \<and> 0 \<le> Accel_t m \<and> 0 \<le> Cruise_t m \<and> 0 \<le> Decel_t m \<and>
     Cruise_v m = Start_v m + Accel m * Accel_t m \<and>
     Cruise_v m = End_v m + Accel m * Decel_t m \<and>
     (Start_v m + Cruise_v m) / 2 * Accel_t m + Cruise_v m * Cruise_t m
       + (Cruise_v m + End_v m) / 2 * Decel_t m = Move_d m \<and>
     (Cruise_v m)\<^sup>2 \<le> Max_cruise_v2 m \<and> (Start_v m)\<^sup>2 \<le> Max_start_v2 m"

definition planned_from :: "Move \<Rightarrow> Move \<Rightarrow> bool" where
  "planned_from r m \<longleftrightarrow> (\<exists>s c e. r = Set_junction s c e m)"

lemma ramp_time:
  fixes u w a :: real
  assumes "0 \<le> u" "0 < w" "0 < a"
  shows "w = u + a * ((w\<^sup>2 - u\<^sup>2) * (0.5 / a) / ((u + w) * 0.5))"
    and "(u + w) / 2 * ((w\<^sup>2 - u\<^sup>2) * (0.5 / a) / ((u + w) * 0.5)) = (w\<^sup>2 - u\<^sup>2) * (0.5 / a)"
proof -
  have "w\<^sup>2 - u\<^sup>2 = (w - u) * (u + w)" by (simp add: power2_eq_square algebra_simps)
  moreover have "0 < u + w" using assms by simp
  ultimately have "(w\<^sup>2 - u\<^sup>2) * (0.5 / a) / ((u + w) * 0.5) = (w - u) / a" by simp
  with assms(3) show "w = u + a * ((w\<^sup>2 - u\<^sup>2) * (0.5 / a) / ((u + w) * 0.5))" by simp
  define d where "d = (w\<^sup>2 - u\<^sup>2) * (0.5 / a)"
  from \<open>0 < u + w\<close> have "(u + w) / 2 * (d / ((u + w) * 0.5)) = d"
    by (simp add: field_simps)
  then show "(u + w) / 2 * ((w\<^sup>2 - u\<^sup>2) * (0.5 / a) / ((u + w) * 0.5)) = (w\<^sup>2 - u\<^sup>2) * (0.5 / a)"
    by (simp only: d_def)
qed

lemma Set_junction_trapezoid:
  assumes "0 \<le> s" "s \<le> c" "0 \<le> e" "e \<le> c" "0 < c" "0 < Accel m"
    and "c \<le> Max_cruise_v2 m" and "2 * c - s - e \<le> 2 * Move_d m * Accel m"
    and "s \<le> Max_start_v2 m"
  shows "trapezoid (Set_junction s c e m)"
proof -
  define u w x a where "u = sqrt s" and "w = sqrt c" and "x = sqrt e" and "a = Accel m"
  have sq: "s = u\<^sup>2" "c = w\<^sup>2" "e = x\<^sup>2" using assms by (simp_all add: u_def w_def x_def)
  have o: "0 \<le> u" "u \<le> w" "0 \<le> x" "x \<le> w" "0 < w" "0 < a"
    using assms by (simp_all add: u_def w_def x_def a_def)
  define ta td where "ta = (w\<^sup>2 - u\<^sup>2) * (0.5 / a) / ((u + w) * 0.5)"
    and "td = (w\<^sup>2 - x\<^sup>2) * (0.5 / a) / ((x + w) * 0.5)"
  note ra = ramp_time[OF o(1,5,6), folded ta_def] and rd = ramp_time[OF o(3,5,6), folded td_def]
  have sqle: "u\<^sup>2 \<le> w\<^sup>2" "x\<^sup>2 \<le> w\<^sup>2" using o by (auto intro: power_mono)
  have t: "0 \<le> ta" "0 \<le> td" using o sqle by (auto simp: ta_def td_def)
  define cd where "cd = Move_d m - (w\<^sup>2 - u\<^sup>2) * (0.5 / a) - (w\<^sup>2 - x\<^sup>2) * (0.5 / a)"
  have "((w\<^sup>2 - u\<^sup>2) + (w\<^sup>2 - x\<^sup>2)) * (0.5 / a) \<le> Move_d m"
    using assms(8) o(6) by (simp add: sq[symmetric] a_def field_simps)
  then have cd: "0 \<le> cd" by (simp add: cd_def algebra_simps)
  have eq: "Start_v (Set_junction s c e m) = u" "Cruise_v (Set_junction s c e m) = w"
    "End_v (Set_junction s c e m) = x" "Accel_t (Set_junction s c e m) = ta"
    "Cruise_t (Set_junction s c e m) = cd / w" "Decel_t (Set_junction s c e m) = td"
    "Accel (Set_junction s c e m) = a" "Move_d (Set_junction s c e m) = Move_d m"
    "Max_cruise_v2 (Set_junction s c e m) = Max_cruise_v2 m"
    "Max_start_v2 (Set_junction s c e m) = Max_start_v2 m"
    unfolding Set_junction_def Let_def u_def[symmetric] w_def[symmetric] x_def[symmetric]
      a_def[symmetric] ta_def td_def cd_def sq[symmetric] by (simp_all add: a_def)
  have "(u + w) / 2 * ta + w * (cd / w) + (w + x) / 2 * td = Move_d m"
  proof -
    have "w * (cd / w) = cd" using o(5) by simp
    moreover have "(w + x) / 2 * td = (w\<^sup>2 - x\<^sup>2) * (0.5 / a)"
      using rd(2) by (simp only: add.commute)
    ultimately show ?thesis unfolding ra(2) cd_def by linarith
  qed
  then show ?thesis
    unfolding trapezoid_def eq using o t cd ra(1) rd(1) assms(7,9) sq(1,2) by simp
qed

section \<open>The forward traversal\<close>

text \<open>
  The condition under which a suffix is entered: \<open>prev\<close> is the cruise speed of the move
  before it.
\<close>

definition entry_ok :: "bool \<Rightarrow> nat \<Rightarrow> nat \<Rightarrow> real \<Rightarrow> Move list \<Rightarrow> bool" where
  "entry_ok lazy n i prev ms = (case ms of [] \<Rightarrow> True | m # ms' \<Rightarrow>
     if can_accel m ms'
     then min (reach_start ms) prev = min (reach_start ms) (peak_cruise_v2 (fb lazy n i ms))
     else reach_mcr ms \<le> prev)"

definition cruise_at :: "bool \<Rightarrow> nat \<Rightarrow> nat \<Rightarrow> real \<Rightarrow> Move \<Rightarrow> Move list \<Rightarrow> real" where
  "cruise_at lazy n i prev m ms =
     node_cruise_v2 prev (hd (junctionInfo (fb lazy n i (m # ms))))"

lemma cruise_at_eq:
  "cruise_at lazy n i prev m ms =
     (if can_accel m ms then
        min ((reach_start (m # ms) + (reach_start ms + Delta_v2 m)) * 0.5)
          (min (Max_cruise_v2 m) (peak_cruise_v2 (fb lazy n i (m # ms))))
      else min prev (reach_start (m # ms)))"
  by (simp add: cruise_at_def node_cruise_v2_def fb_Cons_node del: reach_start.simps(2))

lemma reach_start_le_cruise:
  assumes "chain (m # ms)"
  shows "reach_start (m # ms) \<le> Max_cruise_v2 m" "0 \<le> reach_start (m # ms)" "0 \<le> reach_start ms"
    "reach_start (m # ms) \<le> reach_start ms + Delta_v2 m"
    "reach_mcr (m # ms) \<le> reach_start (m # ms)" "reach_mcr ms \<le> reach_start ms"
    "0 \<le> reach_mcr ms"
proof -
  have "wf_move m" "chain ms" using assms by (auto simp: chain_Cons)
  note b = reach_bounds[OF chain_wf[OF assms]] reach_bounds[OF chain_wf[OF \<open>chain ms\<close>]]
  show "reach_start (m # ms) \<le> Max_cruise_v2 m" using \<open>wf_move m\<close> by (auto simp: wf_move_def)
  show "reach_start (m # ms) \<le> reach_start ms + Delta_v2 m" by simp
  show "0 \<le> reach_start (m # ms)" "0 \<le> reach_start ms"
    "reach_mcr (m # ms) \<le> reach_start (m # ms)" "reach_mcr ms \<le> reach_start ms" "0 \<le> reach_mcr ms"
    using b by (auto simp del: reach_start.simps(2) reach_mcr.simps(2))
qed

text \<open>A move that can accelerate: its cruise speed, whatever came before.\<close>

lemma cruise_accel:
  fixes lazy :: bool and n i :: nat and prev :: real
  assumes "chain (m # ms)" and "can_accel m ms"
  defines "c \<equiv> cruise_at lazy n i prev m ms"
  shows "0 < c" "c \<le> Max_cruise_v2 m" "c \<le> peak_cruise_v2 (fb lazy n i (m # ms))"
    "min (reach_start (m # ms)) c = min (reach_start (m # ms)) (peak_cruise_v2 (fb lazy n i (m # ms)))"
    "2 * c \<le> reach_start (m # ms) + (reach_start ms + Delta_v2 m)"
    "reach_mcr ms \<le> c"
    "min (reach_start ms) (peak_cruise_v2 (fb lazy n i (m # ms))) \<le> c"
proof -
  have wf: "0 < Delta_v2 m" "0 < Max_cruise_v2 m"
    using assms(1) by (auto simp: chain_Cons wf_move_def)
  note b = reach_start_le_cruise[OF assms(1)] and pk = peak_accel[OF assms(1,2), of lazy n i]
    and nx = start_next[OF assms(1)]
  define P S T where "P = peak_cruise_v2 (fb lazy n i (m # ms))"
    and "S = reach_start (m # ms)" and "T = reach_start ms"
  have c: "c = min ((S + (T + Delta_v2 m)) * 0.5) (min (Max_cruise_v2 m) P)"
    using assms(2) by (simp add: c_def cruise_at_eq P_def S_def T_def del: reach_start.simps(2))
  note d = b[folded S_def T_def] pk[folded P_def] nx[folded S_def T_def] wf
  show "0 < c" "c \<le> Max_cruise_v2 m" "c \<le> P" "2 * c \<le> S + (T + Delta_v2 m)" "reach_mcr ms \<le> c"
    "min T P \<le> c"
    using d unfolding c by (auto simp: min_def)
  show "min S c = min S P"
    using d unfolding c by (auto simp: min_def)
qed

lemma cruise_coast:
  fixes lazy :: bool and n i :: nat and prev :: real
  assumes "chain (m # ms)" and "\<not> can_accel m ms" and "reach_mcr (m # ms) \<le> prev"
  defines "c \<equiv> cruise_at lazy n i prev m ms"
  shows "0 < c" "c \<le> reach_start (m # ms)" "min (reach_start (m # ms)) c = min (reach_start (m # ms)) prev"
    "reach_mcr (m # ms) \<le> c" "reach_mcr ms < c"
proof -
  have c: "c = min prev (reach_start (m # ms))"
    using assms(2) by (simp add: c_def cruise_at_eq del: reach_start.simps(2))
  have d: "0 < Mcr_delta_v2 m" using assms(1) by (auto simp: chain_Cons wf_move_def)
  have r: "reach_mcr (m # ms) = reach_mcr ms + Mcr_delta_v2 m"
    using assms(2) by (simp add: can_accel_def)
  note b = reach_start_le_cruise[OF assms(1)]
  show "c \<le> reach_start (m # ms)" "min (reach_start (m # ms)) c = min (reach_start (m # ms)) prev"
    unfolding c by (auto simp del: reach_start.simps(2))
  show k: "reach_mcr (m # ms) \<le> c" unfolding c using assms(3) b(5) by simp
  show "0 < c" "reach_mcr ms < c" using k r d b(7) by auto
qed

lemma forward_step:
  fixes lazy :: bool and n i :: nat and prev :: real
  assumes "chain (m # ms)" and "entry_ok lazy n i prev (m # ms)"
  defines "c \<equiv> cruise_at lazy n i prev m ms"
  shows "0 < c" "c \<le> Max_cruise_v2 m"
    "min (reach_start (m # ms)) c = min (reach_start (m # ms)) prev"
    "2 * c - min (reach_start (m # ms)) c - min (reach_start ms) c \<le> Delta_v2 m"
    "reach_mcr ms \<le> c"
proof -
  note b = reach_start_le_cruise[OF assms(1)] and nx = start_next[OF assms(1)]
  have d: "0 < Delta_v2 m" using assms(1) by (auto simp: chain_Cons wf_move_def)
  define S T where "S = reach_start (m # ms)" and "T = reach_start ms"
  have "0 < c \<and> c \<le> Max_cruise_v2 m \<and> min S c = min S prev \<and>
        2 * c - min S c - min T c \<le> Delta_v2 m \<and> reach_mcr ms \<le> c"
  proof (cases "can_accel m ms")
    case True
    note ca = cruise_accel[OF assms(1) True, of lazy n i prev, folded c_def S_def T_def]
    have "min S prev = min S (peak_cruise_v2 (fb lazy n i (m # ms)))"
      using assms(2) True by (simp add: entry_ok_def S_def del: reach_start.simps(2))
    with ca d b[folded S_def T_def] nx[folded S_def T_def] show ?thesis
      by (auto simp: min_def split: if_splits)
  next
    case False
    then have "reach_mcr (m # ms) \<le> prev" using assms(2) by (simp add: entry_ok_def)
    note cc = cruise_coast[OF assms(1) False this, of lazy n i, folded c_def S_def]
    from cc d b[folded S_def T_def] show ?thesis
      by (auto simp: min_def split: if_splits)
  qed
  then show "0 < c" "c \<le> Max_cruise_v2 m"
    "min (reach_start (m # ms)) c = min (reach_start (m # ms)) prev"
    "2 * c - min (reach_start (m # ms)) c - min (reach_start ms) c \<le> Delta_v2 m"
    "reach_mcr ms \<le> c"
    by (auto simp: S_def T_def)
qed

text \<open>The cruise speed of a move meets the entry condition of what follows it.\<close>

lemma forward_entry:
  assumes ch: "chain (p # ms)" and ent: "entry_ok lazy n i prev (p # ms)"
  shows "entry_ok lazy n (Suc i) (cruise_at lazy n i prev p ms) ms"
proof (cases ms)
  case Nil
  then show ?thesis by (simp add: entry_ok_def)
next
  case (Cons m ks)
  define c where "c = cruise_at lazy n i prev p ms"
  note f = forward_step[OF ch ent, folded c_def]
  have chm: "chain (m # ks)" using ch Cons by (simp add: chain_Cons)
  show ?thesis
  proof (cases "can_accel m ks")
    case False
    with f(5) Cons show ?thesis by (simp add: entry_ok_def c_def)
  next
    case True
    define P where "P = peak_cruise_v2 (fb lazy n (Suc i) (m # ks))"
    have "min (reach_start (m # ks)) c = min (reach_start (m # ks)) P"
    proof (cases "Max_mcr_start_v2 m < Max_start_v2 m")
      case shared: True
      note sp = shared_peak(1)[OF ch[unfolded Cons] True shared]
        shared_peak(2)[OF ch[unfolded Cons] True shared, of lazy n i, folded P_def]
      have "can_accel p ms" using sp(1) Cons by simp
      note ca = cruise_accel[OF ch this, of lazy n i prev, folded c_def]
      show ?thesis
        using ca(3,7) sp(2) Cons by (intro min_sandwich) (simp_all add: P_def)
    next
      case False
      with chm have eq: "Max_mcr_start_v2 m = Max_start_v2 m" by (auto simp: chain_Cons wf_move_def)
      have s: "reach_start (m # ks) \<le> reach_mcr (m # ks)"
        using can_accel_reach[OF True] eq by simp
      have "reach_mcr (m # ks) \<le> c" using f(5) Cons by simp
      moreover have "reach_mcr (m # ks) \<le> P" unfolding P_def by (rule peak_accel(2)[OF chm True])
      ultimately show ?thesis using s by (simp del: reach_start.simps(2) reach_mcr.simps(2))
    qed
    with True Cons show ?thesis
      by (simp add: entry_ok_def c_def P_def del: reach_start.simps(2))
  qed
qed

text \<open>The whole forward traversal of the first \<open>k\<close> moves.\<close>

abbreviation same_speed :: "Move \<Rightarrow> Move \<Rightarrow> bool" where
  "same_speed a b \<equiv> End_v a = Start_v b"

lemma Set_junction_speeds [simp]:
  "Start_v (Set_junction s c e m) = sqrt s" "Cruise_v (Set_junction s c e m) = sqrt c"
  "End_v (Set_junction s c e m) = sqrt e"
  by (simp_all add: Set_junction_def Let_def)

lemma flush_forward_Cons:
  assumes "0 < k"
  shows "flush_forward prev (take k (junctionInfo (fb lazy n i (m # ms)))) =
    Set_junction (min (reach_start (m # ms)) (cruise_at lazy n i prev m ms))
       (cruise_at lazy n i prev m ms) (min (reach_start ms) (cruise_at lazy n i prev m ms)) m
    # flush_forward (cruise_at lazy n i prev m ms)
        (take (k - 1) (junctionInfo (fb lazy n (Suc i) ms)))"
  using assms
  by (cases k) (simp_all add: fb_Cons_node cruise_at_def Let_def del: reach_start.simps(2))

lemma forward_plan:
  assumes "chain ms" and "entry_ok lazy n i prev ms" and "0 < k" and "k \<le> length ms"
  defines "rs \<equiv> flush_forward prev (take k (junctionInfo (fb lazy n i ms)))"
  shows "list_all trapezoid rs \<and> adjacent same_speed rs \<and> rs \<noteq> [] \<and>
    Start_v (hd rs) = sqrt (min (reach_start ms) prev) \<and>
    list_all2 planned_from rs (take k ms) \<and>
    (\<exists>c. 0 < c \<and> entry_ok lazy n (i + k) c (drop k ms) \<and>
         End_v (last rs) = sqrt (min (reach_start (drop k ms)) c))"
  unfolding rs_def using assms(1-4)
proof (induction ms arbitrary: i prev k)
  case Nil
  then show ?case by simp
next
  case (Cons m ms)
  define c where "c = cruise_at lazy n i prev m ms"
  note f = forward_step[OF Cons.prems(1,2), folded c_def]
  note en = forward_entry[OF Cons.prems(1,2), folded c_def]
  note b = reach_start_le_cruise[OF Cons.prems(1)]
  define r where "r = Set_junction (min (reach_start (m # ms)) c) c (min (reach_start ms) c) m"
  have wf: "wf_move m" and ch: "chain ms" using Cons.prems(1) by (auto simp: chain_Cons)
  have sl: "reach_start (m # ms) \<le> Max_start_v2 m" by simp
  have tr: "trapezoid r"
    unfolding r_def
    by (rule Set_junction_trapezoid) (use f b wf sl in \<open>auto simp: wf_move_def simp del: reach_start.simps(2)\<close>)
  have pl: "planned_from r m" unfolding planned_from_def r_def by blast
  have sv: "Start_v r = sqrt (min (reach_start (m # ms)) prev)"
    and ev: "End_v r = sqrt (min (reach_start ms) c)"
    using f(3) by (simp_all add: r_def)
  note split = flush_forward_Cons[OF Cons.prems(3), of prev lazy n i m ms, folded c_def, folded r_def]
  show ?case
  proof (cases "k = 1")
    case True
    with tr pl sv ev en f(1) show ?thesis unfolding split by (auto simp del: reach_start.simps(2))
  next
    case False
    with Cons.prems(3,4) have k: "0 < k - 1" "k - 1 \<le> length ms" by auto
    note IH = Cons.IH[OF ch en k]
    have sh: "Suc i + (k - 1) = i + k" "drop (k - 1) ms = drop k (m # ms)"
      "take k (m # ms) = m # take (k - 1) ms"
      using Cons.prems(3) by (simp_all add: drop_Cons' take_Cons')
    from IH tr pl sv ev show ?thesis
      unfolding split sh by (cases "flush_forward c (take (k - 1) (junctionInfo (fb lazy n (Suc i) ms)))")
        (auto simp del: reach_start.simps(2))
  qed
qed

section \<open>Where a lazy flush stops\<close>

text \<open>
  A queue's first move is entered at exactly its own start limit and can still accelerate.
  This holds for a move that starts from rest, and a lazy flush leaves such a queue behind.
\<close>

definition head_ok :: "Move list \<Rightarrow> bool" where
  "head_ok ms = (case ms of [] \<Rightarrow> True
     | m # ms' \<Rightarrow> Max_mcr_start_v2 m = Max_start_v2 m \<and> can_accel m ms')"

lemma head_ok_append:
  assumes "head_ok (m # ms)" and "\<forall>y\<in>set ys. wf_move y"
  shows "head_ok ((m # ms) @ ys)"
  using assms reach_mono(2)[OF assms(2), of ms] by (auto simp: head_ok_def can_accel_def)

lemma head_ok_fresh: "fresh_move m \<Longrightarrow> head_ok [m]"
  by (auto simp: head_ok_def can_accel_def fresh_move_def wf_move_def)

lemma pending_head:
  assumes "chain ms" and "peak_cruise_v2 (fb lazy n i ms) \<noteq> 0"
  defines "j \<equiv> pending_cruise_assign (fb lazy n i ms)"
  shows "\<exists>k ks. drop j ms = k # ks \<and> can_accel k ks \<and>
           (0 < j \<longrightarrow> Max_mcr_start_v2 k = Max_start_v2 k)"
  unfolding j_def using assms(1,2)
proof (induction ms arbitrary: i)
  case Nil
  then show ?case by (simp add: flush_init_def)
next
  case (Cons m ms)
  show ?case
  proof (cases "can_accel m ms")
    case True
    then show ?thesis by (simp add: fb_Cons_peak(2))
  next
    case False
    define j where "j = pending_cruise_assign (fb lazy n (Suc i) ms)"
    have ch: "chain ms" using Cons.prems(1) by (simp add: chain_Cons)
    have "peak_cruise_v2 (fb lazy n (Suc i) ms) \<noteq> 0"
      using Cons.prems(2) False by (simp add: fb_Cons_peak(1) new_peak_at_def)
    from Cons.IH[OF ch this, folded j_def] obtain k ks where
      k: "drop j ms = k # ks" "can_accel k ks" "0 < j \<longrightarrow> Max_mcr_start_v2 k = Max_start_v2 k"
      by (elim exE conjE) (rule that)
    have "Max_mcr_start_v2 k = Max_start_v2 k"
    proof (cases "j = 0")
      case True
      with k Cons.prems(1) have "chain (m # k # ks)" "ms = k # ks" by auto
      with shared_peak(1)[of m k ks] k(2) False have "\<not> Max_mcr_start_v2 k < Max_start_v2 k" by auto
      with \<open>chain (m # k # ks)\<close> show ?thesis by (auto simp: chain_Cons wf_move_def)
    qed (use k(3) in simp)
    with k False show ?thesis by (simp add: fb_Cons_peak(2) j_def)
  qed
qed

lemma lazy_cut:
  assumes "chain ms" and "lazy" and "\<not> update_flush_count (fb lazy n i ms)"
  shows "\<exists>j. flush_count (fb lazy n i ms) = i + j \<and> 0 < j \<and> j < length ms \<and> head_ok (drop j ms)"
  using assms
proof (induction ms arbitrary: i)
  case Nil
  then show ?case by (simp add: flush_init_def)
next
  case (Cons m ms)
  have ch: "chain ms" using Cons.prems(1) by (simp add: chain_Cons)
  let ?s = "fb lazy n (Suc i) ms"
  show ?case
  proof (cases "new_peak_at lazy n i m ms \<and> update_flush_count ?s \<and> peak_cruise_v2 ?s \<noteq> 0")
    case True
    define j where "j = pending_cruise_assign ?s"
    from pending_head[OF ch] True obtain k ks where
      k: "drop j ms = k # ks" "can_accel k ks" "0 < j \<longrightarrow> Max_mcr_start_v2 k = Max_start_v2 k"
      unfolding j_def by blast
    have "Max_mcr_start_v2 k = Max_start_v2 k"
    proof (cases "j = 0")
      case z: True
      with k Cons.prems(1) have ck: "chain (m # k # ks)" "ms = k # ks" by auto
      show ?thesis
      proof (rule ccontr)
        assume "Max_mcr_start_v2 k \<noteq> Max_start_v2 k"
        with ck have "Max_mcr_start_v2 k < Max_start_v2 k" by (auto simp: chain_Cons wf_move_def)
        from shared_peak(3)[OF ck(1) k(2) this] True ck(2) show False by blast
      qed
    qed (use k(3) in simp)
    with k have "head_ok (drop j ms)" by (simp add: head_ok_def)
    moreover have "j < length ms" using k(1) by (metis drop_all leI list.distinct(1))
    ultimately show ?thesis using True
      by (intro exI[of _ "Suc j"]) (simp add: fb_Cons_count j_def)
  next
    case False
    then have "\<not> update_flush_count ?s" using Cons.prems(3) by (simp add: fb_Cons_count)
    from Cons.IH[OF ch Cons.prems(2) this] obtain j where
      "flush_count ?s = Suc i + j" "0 < j" "j < length ms" "head_ok (drop j ms)" by blast
    with False show ?thesis
      by (intro exI[of _ "Suc j"]) (auto simp: fb_Cons_count)
  qed
qed

lemma full_cut:
  "\<not> lazy \<Longrightarrow> \<not> update_flush_count (fb lazy n i ms) \<and> flush_count (fb lazy n i ms) = n"
proof (induction ms arbitrary: i)
  case Nil
  then show ?case by (simp add: flush_init_def)
next
  case (Cons m ms)
  then show ?case by (auto simp: fb_Cons_count)
qed

lemma head_ok_entry:
  assumes "chain (m # ms)" and "head_ok (m # ms)"
  shows "reach_start (m # ms) = Max_start_v2 m"
    and "min (reach_start (m # ms)) (peak_cruise_v2 (fb lazy n i (m # ms))) = Max_start_v2 m"
proof -
  from assms(2) have eq: "Max_mcr_start_v2 m = Max_start_v2 m" and ca: "can_accel m ms"
    by (auto simp: head_ok_def)
  note b = reach_start_le_cruise[OF assms(1)]
  have "Mcr_delta_v2 m \<le> Delta_v2 m" using assms(1) by (simp add: chain_Cons wf_move_def)
  with ca eq b(6) show s: "reach_start (m # ms) = Max_start_v2 m"
    by (simp add: can_accel_def)
  have "Max_start_v2 m \<le> peak_cruise_v2 (fb lazy n i (m # ms))"
    using peak_accel(2)[OF assms(1) ca] can_accel_reach[OF ca] eq by simp
  with s show "min (reach_start (m # ms)) (peak_cruise_v2 (fb lazy n i (m # ms))) = Max_start_v2 m"
    by simp
qed

text \<open>The speed at which a queue is entered: its first move's start limit, or rest.\<close>

definition entry_speed :: "Move list \<Rightarrow> real" where
  "entry_speed ms = (case ms of [] \<Rightarrow> 0 | m # _ \<Rightarrow> sqrt (Max_start_v2 m))"

lemma flush_forward_head:
  assumes "can_accel m ms" and "0 < k"
  shows "flush_forward prev (take k (junctionInfo (fb lazy n i (m # ms)))) =
         flush_forward prev' (take k (junctionInfo (fb lazy n i (m # ms))))"
proof -
  have "cruise_at lazy n i prev m ms = cruise_at lazy n i prev' m ms"
    using assms(1) by (simp add: cruise_at_eq)
  then show ?thesis by (simp only: flush_forward_Cons[OF assms(2)])
qed

lemma prefix_plan:
  fixes lazy :: bool and n :: nat
  assumes "chain ms" and "head_ok ms" and "0 < k" and "k \<le> length ms" and "head_ok (drop k ms)"
  defines "rs \<equiv> flush_forward 0 (take k (junctionInfo (fb lazy n 0 ms)))"
  shows "list_all trapezoid rs" "adjacent same_speed rs" "rs \<noteq> []"
    "Start_v (hd rs) = entry_speed ms" "list_all2 planned_from rs (take k ms)"
    "End_v (last rs) = entry_speed (drop k ms)"
proof -
  obtain m ks where ms: "ms = m # ks" using assms(3,4) by (cases ms) auto
  define P where "P = peak_cruise_v2 (fb lazy n 0 ms)"
  have ca: "can_accel m ks" using assms(2) ms by (simp add: head_ok_def)
  have rs: "rs = flush_forward P (take k (junctionInfo (fb lazy n 0 ms)))"
    unfolding rs_def ms by (rule flush_forward_head[OF ca assms(3)])
  have "entry_ok lazy n 0 P ms" using ca ms by (simp add: entry_ok_def P_def del: reach_start.simps(2))
  note fp = forward_plan[OF assms(1) this assms(3,4), folded rs]
  then obtain c where c: "0 < c" "entry_ok lazy n k c (drop k ms)"
    "End_v (last rs) = sqrt (min (reach_start (drop k ms)) c)" by auto
  show "list_all trapezoid rs" "adjacent same_speed rs" "rs \<noteq> []"
    "list_all2 planned_from rs (take k ms)" using fp by auto
  show "Start_v (hd rs) = entry_speed ms"
    using fp head_ok_entry(2)[OF assms(1,2)[unfolded ms], of lazy n 0]
    by (simp add: ms P_def entry_speed_def del: reach_start.simps(2))
  show "End_v (last rs) = entry_speed (drop k ms)"
  proof (cases "drop k ms")
    case Nil
    with c show ?thesis by (simp add: entry_speed_def)
  next
    case (Cons h hs)
    have chd: "chain (h # hs)" using chain_drop[OF assms(1), of k] Cons by simp
    have "can_accel h hs" using assms(5) Cons by (simp add: head_ok_def)
    with c(2) Cons have "min (reach_start (h # hs)) c =
        min (reach_start (h # hs)) (peak_cruise_v2 (fb lazy n k (h # hs)))"
      by (simp add: entry_ok_def del: reach_start.simps(2))
    with c(3) head_ok_entry(2)[OF chd assms(5)[unfolded Cons], of lazy n k] Cons show ?thesis
      by (simp add: entry_speed_def del: reach_start.simps(2))
  qed
qed

section \<open>A flush as a whole\<close>

definition queue_ok :: "LookAheadQueue \<Rightarrow> bool" where
  "queue_ok lq \<longleftrightarrow> chain (queue lq) \<and> head_ok (queue lq)"

lemma Flush_Some:
  assumes "Flush lazy lq = (Some batch, lq')" and "queue_ok lq"
  obtains k where "0 < k" "k \<le> length (queue lq)" "head_ok (drop k (queue lq))"
    "batch = flush_forward 0 (take k (junctionInfo (fb lazy (length (queue lq)) 0 (queue lq))))"
    "queue lq' = drop k (queue lq)" "\<not> lazy \<longrightarrow> k = length (queue lq)"
    "junction_flush lq' = LOOKAHEAD_FLUSH_TIME"
proof -
  let ?q = "queue lq" and ?n = "length (queue lq)"
  let ?s = "fb lazy ?n 0 ?q"
  define k where "k = flush_count ?s"
  from assms(1) have u: "\<not> update_flush_count ?s" "0 < k"
    and b: "batch = flush_forward 0 (take k (junctionInfo ?s))"
    and q: "queue lq' = (if k < ?n then drop k ?q else [])"
    and t: "junction_flush lq' = LOOKAHEAD_FLUSH_TIME"
    by (auto simp: Flush_def Let_def k_def split: if_splits)
  have "k \<le> ?n \<and> head_ok (drop k ?q) \<and> (\<not> lazy \<longrightarrow> k = ?n)"
  proof (cases lazy)
    case True
    with lazy_cut[of ?q lazy ?n 0] u assms(2) show ?thesis by (auto simp: queue_ok_def k_def)
  next
    case False
    with full_cut[of lazy ?n 0 ?q] show ?thesis by (simp add: k_def head_ok_def)
  qed
  with u b q t that[of k] show ?thesis by (auto split: if_splits)
qed

lemma Flush_None:
  assumes "Flush lazy lq = (None, lq')"
  shows "queue lq' = queue lq"
  using assms by (auto simp: Flush_def Let_def split: if_splits)

lemma list_all2_len: "list_all2 P rs (take k ms) \<Longrightarrow> k \<le> length ms \<Longrightarrow> length rs = k"
  by (auto dest: list_all2_lengthD)

lemma Flush_batch:
  assumes "queue_ok lq" and "Flush lazy lq = (Some batch, lq')"
  shows "list_all trapezoid batch \<and> adjacent same_speed batch \<and> batch \<noteq> [] \<and>
    Start_v (hd batch) = entry_speed (queue lq) \<and>
    End_v (last batch) = entry_speed (queue lq') \<and>
    list_all2 planned_from batch (take (length batch) (queue lq)) \<and>
    queue lq' = drop (length batch) (queue lq)"
proof -
  from assms(2,1) obtain k where k: "0 < k" "k \<le> length (queue lq)" "head_ok (drop k (queue lq))"
    and b: "batch = flush_forward 0 (take k (junctionInfo (fb lazy (length (queue lq)) 0 (queue lq))))"
    and q: "queue lq' = drop k (queue lq)" by (rule Flush_Some)
  have c: "chain (queue lq)" "head_ok (queue lq)" using assms(1) by (auto simp: queue_ok_def)
  note pp = prefix_plan[OF c k, of lazy "length (queue lq)", folded b]
  moreover have "length batch = k" using list_all2_len[OF pp(5) k(2)] .
  ultimately show ?thesis using q by simp
qed

lemma Flush_queue_ok:
  assumes "queue_ok lq" shows "queue_ok (snd (Flush lazy lq))"
proof (cases "fst (Flush lazy lq)")
  case None
  then have "queue (snd (Flush lazy lq)) = queue lq" by (intro Flush_None[of lazy]) (simp add: prod_eq_iff)
  with assms show ?thesis by (simp add: queue_ok_def)
next
  case (Some batch)
  then have "Flush lazy lq = (Some batch, snd (Flush lazy lq))" by (simp add: prod_eq_iff)
  from this assms obtain k where "head_ok (drop k (queue lq))"
    "queue (snd (Flush lazy lq)) = drop k (queue lq)" by (rule Flush_Some)
  with assms show ?thesis by (simp add: queue_ok_def chain_drop)
qed

context junction_contract
begin

lemma Add_move_ok:
  assumes "queue_ok lq" and "fresh_move m"
  shows "queue_ok (snd (Add_move (Some calc) m lq))"
proof (cases "queue lq = []")
  case True
  with assms(2) show ?thesis
    by (simp add: Add_move_def queue_ok_def head_ok_fresh chain_def fresh_move_def)
next
  case False
  define m' where "m' = Calc_junction (Some calc) (last (queue lq)) m"
  have ch: "chain (queue lq)" and h: "head_ok (queue lq)" using assms(1) by (auto simp: queue_ok_def)
  have "wf_move (last (queue lq))" using ch False by (auto simp: chain_def)
  note j = junction_joined[OF this assms(2), folded m'_def]
  have "chain (queue lq @ [m'])" using ch j by (simp add: chain_snoc)
  moreover have "head_ok (queue lq @ [m'])"
    using False h j head_ok_append[of "hd (queue lq)" "tl (queue lq)" "[m']"] by simp
  ultimately show ?thesis using False by (simp add: Add_move_def Let_def m'_def queue_ok_def)
qed

lemma Add_move_entry:
  "entry_speed (queue (snd (Add_move (Some calc) m lq))) =
     (if queue lq = [] then sqrt (Max_start_v2 m) else entry_speed (queue lq))"
  by (cases "queue lq") (auto simp: Add_move_def Let_def entry_speed_def)

end

lemma Add_move_None: "Add_move None m lq = Add_move (Some (\<lambda>_ m. Max_cruise_v2 m)) m lq"
  by (simp add: Add_move_def Calc_junction_None)

section \<open>Runs of the queue\<close>

text \<open>
  A run interleaves additions of new moves, flushes and changes of the flush time in any
  order, with any extruder that satisfies the junction contract; the second component
  collects everything handed to the processor.
\<close>

inductive la_step :: "LookAheadQueue \<times> Move list \<Rightarrow> LookAheadQueue \<times> Move list \<Rightarrow> bool" where
  la_add: "fresh_move m \<Longrightarrow> junction_contract calc \<Longrightarrow>
     la_step (lq, out) (snd (Add_move (Some calc) m lq), out)"
| la_add_nil: "fresh_move m \<Longrightarrow> la_step (lq, out) (snd (Add_move None m lq), out)"
| la_flush: "la_step (lq, out) (snd (Flush lazy lq), out @ (case fst (Flush lazy lq) of None \<Rightarrow> [] | Some b \<Rightarrow> b))"
| la_time: "la_step (lq, out) (Set_flush_time t lq, out)"

inductive la_reachable :: "LookAheadQueue \<times> Move list \<Rightarrow> bool" where
  la_start: "la_reachable (NewMoveQueue, [])"
| la_next: "la_reachable s \<Longrightarrow> la_step s s' \<Longrightarrow> la_reachable s'"

lemma entry_speed_Nil: "entry_speed [] = 0"
  by (simp add: entry_speed_def)

definition la_inv :: "LookAheadQueue \<times> Move list \<Rightarrow> bool" where
  "la_inv = (\<lambda>(lq, out). queue_ok lq \<and> list_all trapezoid out \<and> adjacent same_speed out \<and>
     (out \<noteq> [] \<longrightarrow> Start_v (hd out) = 0 \<and> End_v (last out) = entry_speed (queue lq)) \<and>
     (out = [] \<longrightarrow> entry_speed (queue lq) = 0))"

lemma la_inv_add:
  assumes "la_inv (lq, out)" and "fresh_move m" and "junction_contract calc"
  shows "la_inv (snd (Add_move (Some calc) m lq), out)"
proof -
  have "Max_start_v2 m = 0" using assms(2) by (simp add: fresh_move_def)
  moreover have "queue_ok (snd (Add_move (Some calc) m lq))"
    using assms by (intro junction_contract.Add_move_ok) (auto simp: la_inv_def)
  ultimately show ?thesis
    using assms(1) junction_contract.Add_move_entry[OF assms(3), of m lq]
    by (auto simp: la_inv_def entry_speed_Nil split: if_splits)
qed

lemma la_inv_flush:
  assumes "la_inv (lq, out)"
  shows "la_inv (snd (Flush lazy lq), out @ (case fst (Flush lazy lq) of None \<Rightarrow> [] | Some b \<Rightarrow> b))"
proof (cases "fst (Flush lazy lq)")
  case None
  then have "queue (snd (Flush lazy lq)) = queue lq" by (intro Flush_None[of lazy]) (simp add: prod_eq_iff)
  with None assms show ?thesis by (simp add: la_inv_def queue_ok_def)
next
  case (Some b)
  then have F: "Flush lazy lq = (Some b, snd (Flush lazy lq))" by (simp add: prod_eq_iff)
  have ok: "queue_ok lq" using assms by (simp add: la_inv_def)
  note fp = Flush_batch[OF ok F]
  have "queue_ok (snd (Flush lazy lq))" by (rule Flush_queue_ok[OF ok])
  with fp assms Some show ?thesis
    by (cases "out = []") (auto simp: la_inv_def adjacent_append)
qed

lemma la_step_inv: "la_step s s' \<Longrightarrow> la_inv s \<Longrightarrow> la_inv s'"
proof (induction rule: la_step.induct)
  case (la_add_nil m lq out)
  then show ?case
    unfolding Add_move_None by (intro la_inv_add no_extruder.junction_contract_axioms)
next
  case (la_time lq out t)
  then show ?case by (simp add: la_inv_def queue_ok_def Set_flush_time_def)
qed (auto intro: la_inv_add la_inv_flush)

lemma la_reachable_inv: "la_reachable s \<Longrightarrow> la_inv s"
proof (induction rule: la_reachable.induct)
  case la_start
  show ?case by (simp add: la_inv_def NewMoveQueue_def queue_ok_def head_ok_def entry_speed_def)
qed (blast intro: la_step_inv)

section \<open>Junction geometry\<close>

lemma Calc_junction_straight:
  assumes "Is_kinematic_move m" "Is_kinematic_move p" and "dir_dot p m = 1"
  shows "Max_start_v2 (Calc_junction (Some f) p m) = customMin (straight_limits f p m)"
  using assms by (simp add: Calc_junction_start corner_limits_def half_sin_def customMin_single)

lemma Calc_junction_reversal:
  assumes "Is_kinematic_move m" "Is_kinematic_move p" "wf_move m" "wf_move p"
    and "dir_dot p m = - 1" and "0 \<le> f p m"
  shows "Max_start_v2 (Calc_junction (Some f) p m) = 0"
proof -
  have c: "corner_limits p m = [0, 0, 0, 0]"
    using assms(5) by (simp add: corner_limits_def half_sin_def half_cos_def)
  have "0 \<le> customMin (straight_limits f p m)"
    using assms by (intro customMin_nonneg straight_limits_nonneg)
  with c show ?thesis using assms(1,2) by (simp add: Calc_junction_start customMin.simps(2))
qed

section \<open>Batch timing\<close>

definition move_duration :: "Move \<Rightarrow> real" where
  "move_duration m = Accel_t m + Cruise_t m + Decel_t m"

fun event_time :: "batch_event \<Rightarrow> real" where
  "event_time (QueueKinematicMove t m) = t"
| "event_time (QueueExtruderMove t m) = t"
| "event_time (TimingCallback cb t) = t"

lemma QueueMoveBatch_end: "snd (QueueMoveBatch t ms) = t + sum_list (map move_duration ms)"
  by (induction ms arbitrary: t) (simp_all add: Let_def move_duration_def)

lemma trapezoid_time: "trapezoid m \<Longrightarrow> 0 \<le> move_duration m"
  by (simp add: trapezoid_def move_duration_def)

lemma sum_move_time: "list_all trapezoid ms \<Longrightarrow> 0 \<le> sum_list (map move_duration ms)"
  by (intro sum_list_nonneg) (auto simp: list_all_iff trapezoid_time)

lemma QueueMoveBatch_range:
  assumes "list_all trapezoid ms" and "e \<in> set (fst (QueueMoveBatch t ms))"
  shows "t \<le> event_time e \<and> event_time e \<le> snd (QueueMoveBatch t ms)"
  using assms
proof (induction ms arbitrary: t)
  case (Cons m ms)
  let ?t = "t + (Accel_t m + Cruise_t m + Decel_t m)"
  have t: "0 \<le> Accel_t m + Cruise_t m + Decel_t m"
    using Cons.prems(1) trapezoid_time[of m] by (simp add: move_duration_def)
  have s: "?t \<le> snd (QueueMoveBatch ?t ms)"
    using Cons.prems(1) sum_move_time by (simp add: QueueMoveBatch_end)
  show ?case
  proof (cases "e \<in> set (fst (QueueMoveBatch ?t ms))")
    case True
    with Cons.IH[OF _ True] Cons.prems(1) t show ?thesis by (simp add: Let_def)
  next
    case False
    with Cons.prems(2) t s show ?thesis by (auto simp: Let_def split: if_splits)
  qed
qed simp

lemma QueueMoveBatch_sorted:
  "list_all trapezoid ms \<Longrightarrow> sorted (map event_time (fst (QueueMoveBatch t ms)))"
proof (induction ms arbitrary: t)
  case (Cons m ms)
  let ?t = "t + (Accel_t m + Cruise_t m + Decel_t m)"
  have t: "0 \<le> Accel_t m + Cruise_t m + Decel_t m"
    using Cons.prems trapezoid_time[of m] by (simp add: move_duration_def)
  have r: "sorted (map event_time (fst (QueueMoveBatch ?t ms)))" using Cons by simp
  have l: "\<forall>e\<in>set (fst (QueueMoveBatch ?t ms)). ?t \<le> event_time e"
    using QueueMoveBatch_range[of ms _ ?t] Cons.prems by auto
  have c: "sorted (map event_time (map (\<lambda>cb. TimingCallback cb ?t) (Timing_callbacks m)))"
    by (simp add: comp_def map_replicate_const)
  from t r l c show ?case
    by (auto simp: Let_def sorted_append)
qed simp

fun is_kinematic_event :: "batch_event \<Rightarrow> bool" where
  "is_kinematic_event (QueueKinematicMove t m) = True"
| "is_kinematic_event (QueueExtruderMove t m) = False"
| "is_kinematic_event (TimingCallback cb t) = False"

lemma filter_callbacks [simp]:
  "filter is_kinematic_event (map (\<lambda>cb. TimingCallback cb t) cbs) = []"
  by (induction cbs) auto

lemma QueueMoveBatch_kinematic:
  "filter is_kinematic_event (fst (QueueMoveBatch t ms)) =
     concat (map (\<lambda>i. if Is_kinematic_move (ms ! i)
       then [QueueKinematicMove (t + sum_list (map move_duration (take i ms))) (ms ! i)] else [])
       [0..<length ms])"
proof (induction ms arbitrary: t)
  case (Cons m ms)
  have u: "[0..<length (m # ms)] = 0 # map Suc [0..<length ms]"
    by (simp add: map_Suc_upt upt_conv_Cons del: upt_Suc)
  show ?case
    unfolding u by (simp add: Let_def Cons.IH comp_def move_duration_def add.assoc cong: if_cong)
qed simp

lemma length_flush_forward [simp]: "length (flush_forward v nodes) = length nodes"
  by (induction nodes arbitrary: v) (simp_all add: Let_def)

lemma Flush_full:
  assumes "queue lq \<noteq> []"
  shows "\<exists>batch. Flush False lq = (Some batch, Reset lq) \<and> length batch = length (queue lq)"
  using assms full_cut[of False "length (queue lq)" 0 "queue lq"]
  by (auto simp: Flush_def Let_def Reset_def)

lemma NewMove_direction:
  assumes "NewMove c sp ep speed = Inr m" and "Is_kinematic_move m"
  shows "dir_dot m m = 1" "\<And>i. i < 4 \<Longrightarrow> Axes_r m ! i * Move_d m = ep ! i - sp ! i"
proof -
  define a b d where "a = ep ! 0 - sp ! 0" and "b = ep ! 1 - sp ! 1" and "d = ep ! 2 - sp ! 2"
  define D where "D = sqrt (a * a + b * b + d * d)"
  have D: "Move_d m = D" "Axes_r m = map (\<lambda>x. x * (1 / D)) [a, b, d, ep ! 3 - sp ! 3]"
    and nz: "\<not> D < 0.000000001"
    using assms by (auto simp: NewMove_def Let_def a_def b_def d_def D_def split: if_splits)
  have "(0::real) < 0.000000001" by simp
  with nz have pos: "0 < D" by (simp add: not_less)
  have sq: "a * a + b * b + d * d = D * D" by (simp add: D_def)
  have "dir_dot m m = (a * a + b * b + d * d) / (D * D)"
    by (simp add: dir_dot_def D divide_simps)
  with sq pos show "dir_dot m m = 1" by simp
  show "Axes_r m ! i * Move_d m = ep ! i - sp ! i" if "i < 4" for i
  proof -
    from that consider "i = 0" | "i = 1" | "i = 2" | "i = 3" by linarith
    then show ?thesis using pos by cases (simp_all add: D a_def b_def d_def)
  qed
qed

section \<open>Properties\<close>

definition unit_config :: MoveConfig where
  "unit_config = \<lparr>Max_accel = 1, cfg_Junction_deviation = 0, Max_velocity = 1,
                  Max_accel_to_decel = 1\<rparr>"

definition unit_move :: Move where
  "unit_move = \<lparr>Start_pos = [0, 0, 0, 0], End_pos = [1, 0, 0, 0], Accel = 1,
     Junction_deviation = 0, Timing_callbacks = [], Is_kinematic_move = True,
     Axes_d = [1, 0, 0, 0], Move_d = 1, Axes_r = [1, 0, 0, 0], Min_move_t = 1,
     Max_start_v2 = 0, Max_cruise_v2 = 1, Delta_v2 = 2, Next_junction_v2 = 999999999.9,
     Max_mcr_start_v2 = 0, Mcr_delta_v2 = 2, Max_smoothed_v2 = 0, Smooth_delta_v2 = 2,
     Start_v = 0, Cruise_v = 0, End_v = 0, Accel_t = 0, Cruise_t = 0, Decel_t = 0\<rparr>"

lemma unit_move_new: "NewMove unit_config [0, 0, 0, 0] [1, 0, 0, 0] 1 = Inr unit_move"
  by (simp add: NewMove_def Let_def unit_config_def unit_move_def)

lemma unit_move_fresh: "fresh_move unit_move"
  by (simp add: fresh_move_def wf_move_def unit_move_def)

lemma unit_queue_ok: "queue_ok (NewMoveQueue\<lparr>queue := [unit_move]\<rparr>)"
  using unit_move_fresh
  by (simp add: queue_ok_def head_ok_fresh chain_def fresh_move_def)

lemma unit_flush:
  "Flush False (NewMoveQueue\<lparr>queue := [unit_move]\<rparr>) =
     (Some [Set_junction 0 1 0 unit_move], NewMoveQueue)"
  by (simp add: Flush_def Let_def flush_init_def flush_backward.simps(2) flush_step_def customMin3
      node_cruise_v2_def NewMoveQueue_def unit_move_def)

lemma unit_trapezoid: "trapezoid (Set_junction 0 1 0 unit_move)"
  by (simp add: trapezoid_def Set_junction_def unit_move_def)

text \<open>
  C1. Whatever the order in which new moves are added and flushes (lazy or complete) happen,
  the sequence of all moves handed to the processor is a feasible motion: it starts at rest,
  every move is a trapezoid within its junction, speed and acceleration limits that covers its exact
  distance, every move starts at the speed at which its predecessor ended, and the last one
  ends at the speed at which the first queued move is entered, which is rest when nothing is
  queued.
\<close>

theorem reachable_motion_continuous:
  assumes "la_reachable (lq, out)"
  shows "list_all trapezoid out \<and> adjacent same_speed out \<and>
    (out \<noteq> [] \<longrightarrow> Start_v (hd out) = 0 \<and> End_v (last out) = entry_speed (queue lq)) \<and>
    (out \<noteq> [] \<longrightarrow> queue lq = [] \<longrightarrow> End_v (last out) = 0)"
  using la_reachable_inv[OF assms] by (auto simp: la_inv_def entry_speed_Nil)

theorem reachable_motion_continuous_witness:
  "la_reachable (NewMoveQueue, [Set_junction 0 1 0 unit_move]) \<and>
   End_v (last [Set_junction 0 1 0 unit_move]) = 0"
proof -
  have "la_reachable (snd (Add_move None unit_move NewMoveQueue), [])"
    by (intro la_next[OF la_start] la_add_nil unit_move_fresh)
  then have a: "la_reachable (NewMoveQueue\<lparr>queue := [unit_move]\<rparr>, [])"
    by (simp add: Add_move_def NewMoveQueue_def)
  have r: "la_reachable (NewMoveQueue, [Set_junction 0 1 0 unit_move])"
    using la_next[OF a la_flush[of _ _ False]] by (simp add: unit_flush)
  from reachable_motion_continuous[OF r] r show ?thesis by (simp add: NewMoveQueue_def)
qed

text \<open>
  C2. Every batch a flush hands to the processor is a feasible, continuous plan: each move is
  a trapezoid within its limits that covers its exact distance, each move ends at the speed
  the next one starts with, the batch starts at the speed its first move is entered with, and
  it ends at the entry speed of the first move left in the queue (at rest when none is left).
  The planned moves are the first moves of the queue, in order, with only their speeds and
  times set, and the rest of the queue is kept unchanged.
\<close>

theorem Flush_plan_feasible:
  assumes "queue_ok lq" and "Flush lazy lq = (Some batch, lq')"
  shows "list_all trapezoid batch \<and> adjacent same_speed batch \<and> batch \<noteq> [] \<and>
    Start_v (hd batch) = entry_speed (queue lq) \<and>
    End_v (last batch) = entry_speed (queue lq') \<and>
    list_all2 planned_from batch (take (length batch) (queue lq)) \<and>
    queue lq' = drop (length batch) (queue lq) \<and> queue_ok lq'"
  using Flush_batch[OF assms] Flush_queue_ok[OF assms(1), of lazy] assms(2) by simp

theorem Flush_plan_feasible_witness:
  "list_all trapezoid [Set_junction 0 1 0 unit_move] \<and> queue_ok NewMoveQueue"
  using Flush_plan_feasible[OF unit_queue_ok unit_flush] by simp

text \<open>
  C3. A move built from a valid configuration satisfies the planner's precondition (it is
  well formed and starts from rest), and it stays so when a kinematics or an extruder limits
  its speed and acceleration; a kinematic move's direction is a unit vector, and the
  direction times the distance gives back the displacement of every axis.
\<close>

theorem NewMove_plannable:
  assumes "wf_config c" and "0 < speed" and "0 < v" and "0 < a"
    and "NewMove c sp ep speed = Inr m" and "Move_d m \<noteq> 0"
  shows "fresh_move m \<and> fresh_move (Limit_speed v a m) \<and>
    fresh_move (Limit_next_junction_speed v m) \<and>
    (Is_kinematic_move m \<longrightarrow> dir_dot m m = 1 \<and>
       (\<forall>i<4. Axes_r m ! i * Move_d m = ep ! i - sp ! i))"
  using NewMove_fresh[OF assms(1,2,5,6)] Limit_speed_fresh[OF _ assms(3,4)]
    Limit_next_junction_fresh NewMove_direction[OF assms(5)] by blast

theorem NewMove_plannable_witness:
  "fresh_move unit_move \<and> dir_dot unit_move unit_move = 1"
  using NewMove_plannable[OF _ _ _ _ unit_move_new, of 1 1]
  by (simp add: wf_config_def unit_config_def unit_move_def)



text \<open>
  C5. Handing a feasible batch to the trapezoid queue takes exactly the sum of the moves'
  times, issues all effects in chronological order between the start and the end time, and
  queues each kinematic move at the time at which its predecessors have ended.
\<close>

theorem QueueMoveBatch_timing:
  assumes "list_all trapezoid ms"
  shows "snd (QueueMoveBatch t ms) = t + sum_list (map move_duration ms) \<and>
    sorted (map event_time (fst (QueueMoveBatch t ms))) \<and>
    (\<forall>e\<in>set (fst (QueueMoveBatch t ms)). t \<le> event_time e \<and>
       event_time e \<le> snd (QueueMoveBatch t ms)) \<and>
    filter is_kinematic_event (fst (QueueMoveBatch t ms)) =
      concat (map (\<lambda>i. if Is_kinematic_move (ms ! i)
        then [QueueKinematicMove (t + sum_list (map move_duration (take i ms))) (ms ! i)] else [])
        [0..<length ms])"
  using QueueMoveBatch_end QueueMoveBatch_sorted[OF assms] QueueMoveBatch_range[OF assms]
    QueueMoveBatch_kinematic by blast

theorem QueueMoveBatch_timing_witness:
  "snd (QueueMoveBatch 5 [Set_junction 0 1 0 unit_move]) = 7"
  using QueueMoveBatch_timing[of "[Set_junction 0 1 0 unit_move]" 5] unit_trapezoid
  by (simp add: move_duration_def Set_junction_def unit_move_def)

text \<open>
  C6. The junction speed is the smallest of the straight-line and the corner limits; two
  moves in the same direction are limited by the straight-line limits alone, and a reversal
  forces a stop.
\<close>

theorem Calc_junction_geometry:
  assumes "Is_kinematic_move m" "Is_kinematic_move p" "wf_move m" "wf_move p" "0 \<le> f p m"
  shows "Max_start_v2 (Calc_junction (Some f) p m) =
           Min (set (customMin (straight_limits f p m) # corner_limits p m)) \<and>
    (dir_dot p m = 1 \<longrightarrow>
       Max_start_v2 (Calc_junction (Some f) p m) = Min (set (straight_limits f p m))) \<and>
    (dir_dot p m = - 1 \<longrightarrow> Max_start_v2 (Calc_junction (Some f) p m) = 0)"
  using assms Calc_junction_straight[OF assms(1,2)] Calc_junction_reversal[where f = f, OF assms(1-4) _ assms(5)]
  by (simp add: Calc_junction_start customMin_eq_Min straight_limits_def)

theorem Calc_junction_geometry_witness:
  "Max_start_v2 (Calc_junction (Some (\<lambda>_ m. Max_cruise_v2 m)) unit_move unit_move) = 1"
  using Calc_junction_geometry[of unit_move unit_move "\<lambda>_ m. Max_cruise_v2 m"]
  by (simp add: unit_move_def wf_move_def dir_dot_def straight_limits_def)

end
