(* ===== verification/Extrusion.thy ===== *)
theory Extrusion
  imports LookAhead
begin

text \<open>
  Extruders and single-stepper moves: \<^verbatim>\<open>extrusion.go\<close>, \<^verbatim>\<open>extruder_runtime.go\<close>,
  \<^verbatim>\<open>extruder_command_runtime.go\<close>, \<^verbatim>\<open>force_move.go\<close> and \<^verbatim>\<open>manual_stepper_core.go\<close> of
  \<^verbatim>\<open>internal/pkg/motion\<close>.  Both extruders of the source implement the planner's junction
  contract, so the planner's results hold with either of them.

  The trapezoid queue is C code; the calls it receives are recorded as events.  A nil
  function field is \<open>None\<close>.
\<close>

datatype trapq_event =
    TrapqAppend (ta_print_time: real) (ta_accel_t: real) (ta_cruise_t: real) (ta_decel_t: real)
      (ta_start_pos: "real list") (ta_axes_r: "real list")
      (ta_start_v: real) (ta_cruise_v: real) (ta_accel: real)
  | TrapqFinalize real real

datatype status_value = SvFloat real | SvBool bool | SvString string | SvFloats "real list" | SvStrings "string list"

type_synonym status = "string \<rightharpoonup> status_value"

section \<open>Limits and planned extrusions\<close>

record ExtrusionLimits =
  CanExtrude :: bool
  NozzleDiameter :: real
  FilamentArea :: real
  MaxExtrudeRatio :: real
  MaxEVelocity :: real
  MaxEAccel :: real
  MaxEDistance :: real
  InstantCornerV :: real

record ExtrusionMove =
  em_Accel :: real
  em_StartV :: real
  em_CruiseV :: real
  em_AccelT :: real
  em_CruiseT :: real
  em_DecelT :: real
  em_StartPosition :: real
  CanPressureAdvance :: real

text \<open>The errors carry the numbers their messages print.\<close>

datatype extrude_error =
    ExtrudeBelowMinimumTemp
  | ExtrudeOnlyMoveTooLong real real
  | MoveExceedsMaximumExtrusion real real
  | ExtrudeWhenNoExtruderPresent "string \<times> real list"

text \<open>
  In the extrude-only branch the source divides by \<open>\<bar>axisR\<bar>\<close>.  For a ratio of zero Go's
  quotient is \<open>+Inf\<close>, so \<open>Limit_speed\<close> then lowers nothing and only recomputes the derived
  fields; the model calls it with bounds that are not below the move's own.
\<close>

definition CheckExtrusionMove :: "Move \<Rightarrow> ExtrusionLimits \<Rightarrow> extrude_error + Move" where
  "CheckExtrusionMove move limits =
     (let axisR = Axes_r move ! 3 in
      if \<not> CanExtrude limits then Inl ExtrudeBelowMinimumTemp
      else if (Axes_d move ! 0 = 0 \<and> Axes_d move ! 1 = 0) \<or> axisR < 0 then
        if \<bar>Axes_d move ! 3\<bar> > MaxEDistance limits
        then Inl (ExtrudeOnlyMoveTooLong (Axes_d move ! 3) (MaxEDistance limits))
        else if axisR = 0 then Inr (Limit_speed (1 + Max_cruise_v2 move) (Accel move) move)
        else let invExtrudeR = 1 / \<bar>axisR\<bar>
             in Inr (Limit_speed (MaxEVelocity limits * invExtrudeR)
                       (MaxEAccel limits * invExtrudeR) move)
      else if axisR > MaxExtrudeRatio limits then
        if Axes_d move ! 3 \<le> NozzleDiameter limits * MaxExtrudeRatio limits then Inr move
        else Inl (MoveExceedsMaximumExtrusion (axisR * FilamentArea limits)
                    (MaxExtrudeRatio limits * FilamentArea limits))
      else Inr move)"

definition CalcExtrusionJunction :: "Move \<Rightarrow> Move \<Rightarrow> real \<Rightarrow> real" where
  "CalcExtrusionJunction prevMove move instantCornerV =
     (let diffR = Axes_r move ! 3 - Axes_r prevMove ! 3
      in if diffR \<noteq> 0 then (instantCornerV / \<bar>diffR\<bar>)\<^sup>2 else Max_cruise_v2 move)"

definition BuildExtrusionMove :: "Move \<Rightarrow> ExtrusionMove" where
  "BuildExtrusionMove move =
     (let axisR = Axes_r move ! 3 in
      \<lparr>em_Accel = Accel move * axisR,
       em_StartV = Start_v move * axisR,
       em_CruiseV = Cruise_v move * axisR,
       em_AccelT = Accel_t move,
       em_CruiseT = Cruise_t move,
       em_DecelT = Decel_t move,
       em_StartPosition = Start_pos move ! 3,
       CanPressureAdvance =
         (if axisR > 0 \<and> (Axes_d move ! 0 \<noteq> 0 \<or> Axes_d move ! 1 \<noteq> 0) then 1 else 0)\<rparr>)"

definition NoExtruderMoveError :: "Move \<Rightarrow> extrude_error" where
  "NoExtruderMoveError move =
     ExtrudeWhenNoExtruderPresent (Move_error ''Extrude when no extruder present'' move)"

definition DefaultExtrusionJunction :: "Move \<Rightarrow> real" where
  "DefaultExtrusionJunction move = Max_cruise_v2 move"

section \<open>The extruder runtimes\<close>

record LegacyExtruderRuntime =
  ex_Name :: string
  Last_position :: real
  Nozzle_diameter :: real
  Filament_area :: real
  Max_extrude_ratio :: real
  Max_e_velocity :: real
  Max_e_accel :: real
  Max_e_dist :: real
  Instant_corner_v :: real
  has_Trapq_append :: bool
  has_Trapq_finalize_moves :: bool
  Can_extrude :: "bool option"
  Heater_status :: "(real \<Rightarrow> (string \<rightharpoonup> real)) option"
  Heater_stats :: "(real \<Rightarrow> bool \<times> string) option"
  Stepper_status :: "(real \<Rightarrow> (string \<rightharpoonup> real)) option"
  Find_stepper_past_position :: "(real \<Rightarrow> real) option"

definition canExtrude :: "LegacyExtruderRuntime \<Rightarrow> bool" where
  "canExtrude ex = (case Can_extrude ex of None \<Rightarrow> False | Some b \<Rightarrow> b)"

definition legacy_Update_move_time :: "real \<Rightarrow> real \<Rightarrow> LegacyExtruderRuntime \<Rightarrow> trapq_event list" where
  "legacy_Update_move_time flush_time clear_history_time ex =
     (if has_Trapq_finalize_moves ex then [TrapqFinalize flush_time clear_history_time] else [])"

definition legacy_Get_status :: "real \<Rightarrow> LegacyExtruderRuntime \<Rightarrow> status" where
  "legacy_Get_status eventtime ex =
     (let s0 = (case Heater_status ex of None \<Rightarrow> Map.empty
                | Some h \<Rightarrow> (\<lambda>k. map_option SvFloat (h eventtime k)));
          s1 = s0(''can_extrude'' \<mapsto> SvBool (canExtrude ex),
                  ''Nozzle_diameter'' \<mapsto> SvFloat (Nozzle_diameter ex))
      in case Stepper_status ex of None \<Rightarrow> s1
         | Some h \<Rightarrow> s1 ++ (\<lambda>k. map_option SvFloat (h eventtime k)))"

definition legacy_Stats :: "real \<Rightarrow> LegacyExtruderRuntime \<Rightarrow> bool \<times> string" where
  "legacy_Stats eventtime ex = (case Heater_stats ex of None \<Rightarrow> (False, '''') | Some h \<Rightarrow> h eventtime)"

definition legacy_limits :: "LegacyExtruderRuntime \<Rightarrow> ExtrusionLimits" where
  "legacy_limits ex = \<lparr>CanExtrude = canExtrude ex, NozzleDiameter = Nozzle_diameter ex,
     FilamentArea = Filament_area ex, MaxExtrudeRatio = Max_extrude_ratio ex,
     MaxEVelocity = Max_e_velocity ex, MaxEAccel = Max_e_accel ex,
     MaxEDistance = Max_e_dist ex, InstantCornerV = Instant_corner_v ex\<rparr>"

definition legacy_Check_move :: "Move \<Rightarrow> LegacyExtruderRuntime \<Rightarrow> extrude_error + Move" where
  "legacy_Check_move move ex = CheckExtrusionMove move (legacy_limits ex)"

definition legacy_Calc_junction :: "LegacyExtruderRuntime \<Rightarrow> Move \<Rightarrow> Move \<Rightarrow> real" where
  "legacy_Calc_junction ex prev_move move = CalcExtrusionJunction prev_move move (Instant_corner_v ex)"

definition legacy_Move :: "real \<Rightarrow> Move \<Rightarrow> LegacyExtruderRuntime \<Rightarrow> LegacyExtruderRuntime \<times> trapq_event list" where
  "legacy_Move print_time move ex =
     (let planned = BuildExtrusionMove move in
      (ex\<lparr>Last_position := End_pos move ! 3\<rparr>,
       if has_Trapq_append ex then
         [TrapqAppend print_time (em_AccelT planned) (em_CruiseT planned) (em_DecelT planned)
            [em_StartPosition planned, 0, 0] [1, CanPressureAdvance planned, 0]
            (em_StartV planned) (em_CruiseV planned) (em_Accel planned)]
       else []))"

definition legacy_Find_past_position :: "real \<Rightarrow> LegacyExtruderRuntime \<Rightarrow> real" where
  "legacy_Find_past_position print_time ex =
     (case Find_stepper_past_position ex of None \<Rightarrow> 0 | Some f \<Rightarrow> f print_time)"

text \<open>The implementations of the extruder interface, and its methods.\<close>

datatype Extruder = DummyExtruder | LegacyExtruder LegacyExtruderRuntime

primrec Extruder_Check_move :: "Move \<Rightarrow> Extruder \<Rightarrow> extrude_error + Move" where
  "Extruder_Check_move move DummyExtruder = Inl (NoExtruderMoveError move)"
| "Extruder_Check_move move (LegacyExtruder ex) = legacy_Check_move move ex"

primrec Extruder_Calc_junction :: "Extruder \<Rightarrow> Move \<Rightarrow> Move \<Rightarrow> real" where
  "Extruder_Calc_junction DummyExtruder = (\<lambda>prev_move move. DefaultExtrusionJunction move)"
| "Extruder_Calc_junction (LegacyExtruder ex) = legacy_Calc_junction ex"

primrec Extruder_Move :: "real \<Rightarrow> Move \<Rightarrow> Extruder \<Rightarrow> Extruder \<times> trapq_event list" where
  "Extruder_Move print_time move DummyExtruder = (DummyExtruder, [])"
| "Extruder_Move print_time move (LegacyExtruder ex) =
     (let r = legacy_Move print_time move ex in (LegacyExtruder (fst r), snd r))"

primrec Extruder_Update_move_time :: "real \<Rightarrow> real \<Rightarrow> Extruder \<Rightarrow> trapq_event list" where
  "Extruder_Update_move_time flush_time clear_history_time DummyExtruder = []"
| "Extruder_Update_move_time flush_time clear_history_time (LegacyExtruder ex) =
     legacy_Update_move_time flush_time clear_history_time ex"

primrec Extruder_Get_name :: "Extruder \<Rightarrow> string" where
  "Extruder_Get_name DummyExtruder = ''''"
| "Extruder_Get_name (LegacyExtruder ex) = ex_Name ex"

primrec Extruder_Find_past_position :: "real \<Rightarrow> Extruder \<Rightarrow> real" where
  "Extruder_Find_past_position print_time DummyExtruder = 0"
| "Extruder_Find_past_position print_time (LegacyExtruder ex) = legacy_Find_past_position print_time ex"

section \<open>Extruder commands\<close>

record PressureAdvanceScanPlan =
  PreviousDelay :: real
  NextDelay :: real
  AppliedSmoothTime :: real

definition BuildPressureAdvanceScanPlan ::
  "real option \<Rightarrow> real \<Rightarrow> real option \<Rightarrow> real \<Rightarrow> PressureAdvanceScanPlan" where
  "BuildPressureAdvanceScanPlan current currentSmoothTime nxt requestedSmoothTime =
     (let previousSmoothTime = (if current = None then 0 else currentSmoothTime);
          appliedSmoothTime = (if nxt = None then 0 else requestedSmoothTime)
      in \<lparr>PreviousDelay = previousSmoothTime * 0.5, NextDelay = appliedSmoothTime * 0.5,
          AppliedSmoothTime = appliedSmoothTime\<rparr>)"

definition ResolveExtruderRotationDistanceUpdate :: "real \<Rightarrow> nat \<Rightarrow> real \<times> nat" where
  "ResolveExtruderRotationDistanceUpdate distance origInvertDir =
     (if distance < 0 then (- distance, if origInvertDir = 0 then 1 else 0)
      else (distance, origInvertDir))"

definition DisplayExtruderRotationDistance :: "real \<Rightarrow> nat \<Rightarrow> nat \<Rightarrow> real" where
  "DisplayExtruderRotationDistance rotationDistance invertDir origInvertDir =
     (if invertDir \<noteq> origInvertDir then - rotationDistance else rotationDistance)"

text \<open>
  The temperature commands pick a target: \<open>lookup\<close> is the printer's object table.  A missing
  extruder is ignored when its heater is to be switched off and panics otherwise.
\<close>

definition ResolveLegacyExtruderTemperatureTarget ::
  "'e \<Rightarrow> (int \<Rightarrow> 'e option) \<Rightarrow> int \<Rightarrow> real \<Rightarrow> 'e option result" where
  "ResolveLegacyExtruderTemperatureTarget active lookup index temp =
     (if index = 0 then Inr (Some active)
      else case lookup index of
        None \<Rightarrow> if temp \<le> 0 then Inr None else Inl (GoPanic ''Extruder not configured'')
      | Some e \<Rightarrow> Inr (Some e))"

definition HandleLegacyExtruderTemperatureCommand ::
  "'e \<Rightarrow> (int \<Rightarrow> 'e option) \<Rightarrow> real \<Rightarrow> int \<Rightarrow> bool \<Rightarrow> ('e \<times> real \<times> bool) option result" where
  "HandleLegacyExtruderTemperatureCommand active lookup temp index wait =
     bindR (ResolveLegacyExtruderTemperatureTarget active lookup index temp)
       (\<lambda>target. Inr (map_option (\<lambda>e. (e, temp, wait)) target))"

section \<open>Moves of a single stepper\<close>

text \<open>Returns the direction, the acceleration time, the cruise time and the cruise speed.\<close>

definition CalcMoveTime :: "real \<Rightarrow> real \<Rightarrow> real option \<Rightarrow> real \<times> real \<times> real \<times> real" where
  "CalcMoveTime dist0 speed0 accel =
     (let axisR = (if dist0 < 0 then -1 else 1);
          dist = (if dist0 < 0 then - dist0 else dist0)
      in case accel of
        None \<Rightarrow> (axisR, 0, dist / speed0, speed0)
      | Some accelValue \<Rightarrow>
          if dist = 0 then (axisR, 0, dist / speed0, speed0)
          else if accelValue \<le> 0 then (axisR, 0, dist / speed0, speed0)
          else let maxCruiseV2 = dist * accelValue;
                   speed = (if maxCruiseV2 < speed0\<^sup>2 then sqrt maxCruiseV2 else speed0);
                   accelT = speed / accelValue;
                   accelDecelD = accelT * speed;
                   cruiseT = (dist - accelDecelD) / speed
               in (axisR, accelT, cruiseT, speed))"

type_synonym ManualStepperCore = real

definition manual_SyncPrintTime :: "real \<Rightarrow> ManualStepperCore \<Rightarrow> real \<times> ManualStepperCore" where
  "manual_SyncPrintTime printTime nextCmdTime =
     (if nextCmdTime > printTime then (nextCmdTime - printTime, nextCmdTime) else (0, printTime))"

definition manual_QueueMove :: "real \<Rightarrow> real \<Rightarrow> real \<Rightarrow> real \<Rightarrow> ManualStepperCore \<Rightarrow>
    trapq_event list \<times> ManualStepperCore" where
  "manual_QueueMove currentPos movePos speed accel nextCmdTime =
     (case CalcMoveTime (movePos - currentPos) speed (Some accel) of (axisR, accelT, cruiseT, cruiseV) \<Rightarrow>
        ([TrapqAppend nextCmdTime accelT cruiseT accelT [currentPos, 0, 0] [axisR, 0, 0]
            0 cruiseV accel],
         nextCmdTime + (accelT + cruiseT + accelT)))"

definition manual_FinalizeMoves :: "ManualStepperCore \<Rightarrow> trapq_event list" where
  "manual_FinalizeMoves nextCmdTime = [TrapqFinalize (nextCmdTime + 99999.9) (nextCmdTime + 99999.9)]"

definition manual_Dwell :: "real \<Rightarrow> ManualStepperCore \<Rightarrow> ManualStepperCore" where
  "manual_Dwell delay nextCmdTime = (if delay \<le> 0 then nextCmdTime else nextCmdTime + delay)"

section \<open>Both extruders fulfil the junction contract\<close>

lemma CalcExtrusionJunction_nonneg: "wf_move m \<Longrightarrow> 0 \<le> CalcExtrusionJunction p m v"
  by (auto simp: CalcExtrusionJunction_def Let_def wf_move_def)

interpretation extruder: junction_contract "Extruder_Calc_junction ex" for ex
proof
  fix p m assume "wf_move p" "wf_move m"
  then show "0 \<le> Extruder_Calc_junction ex p m"
    by (cases ex) (auto simp: DefaultExtrusionJunction_def legacy_Calc_junction_def
        CalcExtrusionJunction_nonneg wf_move_def)
qed

lemma junction_speed_jump:
  assumes "0 \<le> v" and "diff \<noteq> 0" and "0 \<le> s" and "s \<le> (v / \<bar>diff\<bar>)\<^sup>2"
  shows "\<bar>diff\<bar> * sqrt s \<le> v"
proof -
  have "sqrt s \<le> v / \<bar>diff\<bar>"
    using assms by (intro real_le_lsqrt) simp_all
  then show ?thesis using assms(2) by (simp add: pos_le_divide_eq mult.commute)
qed

lemma legacy_junction_jump:
  assumes "wf_move p" "fresh_move m" and "0 \<le> Instant_corner_v ex"
  defines "m' \<equiv> Calc_junction (Some (Extruder_Calc_junction (LegacyExtruder ex))) p m"
  shows "\<bar>Axes_r m ! 3 - Axes_r p ! 3\<bar> * sqrt (Max_start_v2 m') \<le> Instant_corner_v ex"
proof (cases "Axes_r m ! 3 - Axes_r p ! 3 = 0")
  case True
  then show ?thesis using assms(3) by simp
next
  case False
  note b = extruder.junction_start_bounds[OF assms(1,2), of "LegacyExtruder ex", folded m'_def]
  have e: "Extruder_Calc_junction (LegacyExtruder ex) p m =
      (Instant_corner_v ex / \<bar>Axes_r m ! 3 - Axes_r p ! 3\<bar>)\<^sup>2"
    using False by (simp add: legacy_Calc_junction_def CalcExtrusionJunction_def)
  from b(5) have "Max_start_v2 m' \<le> (Instant_corner_v ex / \<bar>Axes_r m ! 3 - Axes_r p ! 3\<bar>)\<^sup>2"
    unfolding e by simp
  with False b(1) assms(3) show ?thesis by (intro junction_speed_jump)
qed

section \<open>Planned extrusions\<close>

definition extruded :: "ExtrusionMove \<Rightarrow> real \<Rightarrow> real" where
  "extruded em endV = (em_StartV em + em_CruiseV em) / 2 * em_AccelT em + em_CruiseV em * em_CruiseT em
     + (em_CruiseV em + endV) / 2 * em_DecelT em"

lemma BuildExtrusionMove_distance:
  assumes "trapezoid m"
  shows "extruded (BuildExtrusionMove m) (End_v m * Axes_r m ! 3) = Axes_r m ! 3 * Move_d m"
proof -
  have "Axes_r m ! 3 * Move_d m = Axes_r m ! 3 * ((Start_v m + Cruise_v m) / 2 * Accel_t m
      + Cruise_v m * Cruise_t m + (Cruise_v m + End_v m) / 2 * Decel_t m)"
    using assms unfolding trapezoid_def by metis
  then show ?thesis
    by (simp add: extruded_def BuildExtrusionMove_def Let_def algebra_simps)
qed

lemma BuildExtrusionMove_ramp:
  assumes "trapezoid m"
  shows "em_CruiseV (BuildExtrusionMove m) =
    em_StartV (BuildExtrusionMove m) + em_Accel (BuildExtrusionMove m) * em_AccelT (BuildExtrusionMove m)"
  using assms by (simp add: trapezoid_def BuildExtrusionMove_def Let_def algebra_simps)

section \<open>Accepted extrusions\<close>

definition extrude_only :: "Move \<Rightarrow> bool" where
  "extrude_only m \<longleftrightarrow> (Axes_d m ! 0 = 0 \<and> Axes_d m ! 1 = 0) \<or> Axes_r m ! 3 < 0"

lemma CheckExtrusionMove_only:
  assumes "CheckExtrusionMove m lims = Inr m'" and "extrude_only m" and "Axes_r m ! 3 \<noteq> 0"
  shows "m' = Limit_speed (MaxEVelocity lims / \<bar>Axes_r m ! 3\<bar>) (MaxEAccel lims / \<bar>Axes_r m ! 3\<bar>) m"
    "\<bar>Axes_d m ! 3\<bar> \<le> MaxEDistance lims" "CanExtrude lims"
  using assms by (auto simp: CheckExtrusionMove_def Let_def extrude_only_def split: if_splits)

lemma CheckExtrusionMove_printing:
  assumes "CheckExtrusionMove m lims = Inr m'" and "\<not> extrude_only m"
  shows "m' = m" "CanExtrude lims" "Axes_r m ! 3 \<le> MaxExtrudeRatio lims \<or>
     Axes_d m ! 3 \<le> NozzleDiameter lims * MaxExtrudeRatio lims"
  using assms by (auto simp: CheckExtrusionMove_def Let_def extrude_only_def split: if_splits)

lemma limited_speed:
  fixes r :: real
  assumes "0 \<le> v" and "r \<noteq> 0" and "0 \<le> c"
  shows "sqrt (min c (v / \<bar>r\<bar> * (v / \<bar>r\<bar>))) * \<bar>r\<bar> \<le> v"
proof -
  have "sqrt (min c (v / \<bar>r\<bar> * (v / \<bar>r\<bar>))) \<le> sqrt (v / \<bar>r\<bar> * (v / \<bar>r\<bar>))" by simp
  also have "\<dots> = v / \<bar>r\<bar>" unfolding real_sqrt_abs2 using assms by simp
  finally show ?thesis using assms(2) by (simp add: pos_le_divide_eq)
qed

lemma CheckExtrusionMove_fresh:
  assumes "CheckExtrusionMove m lims = Inr m'" and "fresh_move m"
    and "0 < MaxEVelocity lims" and "0 < MaxEAccel lims"
  shows "fresh_move m'"
proof (cases "extrude_only m \<and> Axes_r m ! 3 \<noteq> 0")
  case True
  with CheckExtrusionMove_only(1)[OF assms(1)] assms(2-) show ?thesis
    by (simp add: Limit_speed_fresh)
next
  case False
  have "0 < Accel m" "0 < Max_cruise_v2 m" using assms(2) by (auto simp: fresh_move_def wf_move_def)
  then have "fresh_move (Limit_speed (1 + Max_cruise_v2 m) (Accel m) m)"
    using assms(2) by (intro Limit_speed_fresh) auto
  with False assms(1,2) show ?thesis
    by (auto simp: CheckExtrusionMove_def Let_def extrude_only_def split: if_splits)
qed

section \<open>Times of single-stepper moves\<close>

lemma CalcMoveTime_spec:
  assumes "0 < speed" and "CalcMoveTime D speed accel = (axisR, accelT, cruiseT, cruiseV)"
  shows "axisR * \<bar>D\<bar> = D" "0 \<le> accelT" "0 \<le> cruiseT" "0 < cruiseV" "cruiseV \<le> speed"
    "cruiseV * (accelT + cruiseT) = \<bar>D\<bar>"
    "accel = Some a \<Longrightarrow> 0 < a \<Longrightarrow> D \<noteq> 0 \<Longrightarrow> cruiseV = a * accelT"
proof -
  let ?d = "\<bar>D\<bar>"
  have ax: "axisR = (if D < 0 then - 1 else 1)" and d: "(if D < 0 then - D else D) = ?d"
    using assms(2) by (auto simp: CalcMoveTime_def Let_def split: option.splits if_splits)
  show "axisR * ?d = D" by (simp add: ax)
  have "0 \<le> accelT \<and> 0 \<le> cruiseT \<and> 0 < cruiseV \<and> cruiseV \<le> speed \<and>
    cruiseV * (accelT + cruiseT) = ?d \<and>
    (accel = Some a \<longrightarrow> 0 < a \<longrightarrow> D \<noteq> 0 \<longrightarrow> cruiseV = a * accelT)"
  proof (cases "\<exists>b. accel = Some b \<and> 0 < b \<and> D \<noteq> 0")
    case False
    with assms have "accelT = 0" "cruiseT = ?d / speed" "cruiseV = speed"
      by (auto simp: CalcMoveTime_def Let_def split: option.splits if_splits)
    with False assms(1) show ?thesis by auto
  next
    case True
    then obtain b where b: "accel = Some b" "0 < b" "D \<noteq> 0" by blast
    define v where "v = (if ?d * b < speed\<^sup>2 then sqrt (?d * b) else speed)"
    have eqs: "cruiseV = v" "accelT = v / b" "cruiseT = (?d - v / b * v) / v"
      using assms(2) b unfolding CalcMoveTime_def d v_def by (auto simp: Let_def)
    have v: "0 < v" "v\<^sup>2 \<le> ?d * b" using b assms(1) by (auto simp: v_def)
    have vs: "v \<le> speed"
      using assms(1) b by (auto simp: v_def intro!: real_le_lsqrt)
    have "v / b * v \<le> ?d" using v b(2) by (simp add: power2_eq_square divide_le_eq)
    with v b vs show ?thesis by (auto simp: eqs divide_simps algebra_simps)
  qed
  then show "0 \<le> accelT" "0 \<le> cruiseT" "0 < cruiseV" "cruiseV \<le> speed"
    "cruiseV * (accelT + cruiseT) = ?d"
    "accel = Some a \<Longrightarrow> 0 < a \<Longrightarrow> D \<noteq> 0 \<Longrightarrow> cruiseV = a * accelT" by auto
qed

lemma planned_start_limit:
  assumes "planned_from r m" and "trapezoid r"
  shows "Start_v r \<le> sqrt (Max_start_v2 m)" "0 \<le> Start_v r"
proof -
  have "Max_start_v2 r = Max_start_v2 m"
    using assms(1) by (auto simp: planned_from_def Set_junction_def Let_def)
  with assms(2) show "Start_v r \<le> sqrt (Max_start_v2 m)" "0 \<le> Start_v r"
    by (auto simp: trapezoid_def intro: real_le_rsqrt)
qed

section \<open>Properties\<close>

definition demo_extruder :: LegacyExtruderRuntime where
  "demo_extruder = \<lparr>ex_Name = ''extruder'', Last_position = 0, Nozzle_diameter = 0.4,
     Filament_area = 2, Max_extrude_ratio = 0.32, Max_e_velocity = 10, Max_e_accel = 100,
     Max_e_dist = 50, Instant_corner_v = 1, has_Trapq_append = True,
     has_Trapq_finalize_moves = True, Can_extrude = Some True, Heater_status = None,
     Heater_stats = None, Stepper_status = None, Find_stepper_past_position = None\<rparr>"

text \<open>
  C7. With the printer's extruder, the step in the filament speed at a junction stays within
  the configured instantaneous corner velocity: for the start-speed limit the junction gets,
  and so for the start speed of every feasible plan of the move.
\<close>

theorem extruder_corner_velocity:
  assumes "wf_move p" "fresh_move m" and "0 \<le> Instant_corner_v ex"
    and "m' = Calc_junction (Some (Extruder_Calc_junction (LegacyExtruder ex))) p m"
  shows "\<bar>Axes_r m ! 3 - Axes_r p ! 3\<bar> * sqrt (Max_start_v2 m') \<le> Instant_corner_v ex \<and>
    (\<forall>r. planned_from r m' \<and> trapezoid r \<longrightarrow>
       \<bar>Start_v r * Axes_r m ! 3 - Start_v r * Axes_r p ! 3\<bar> \<le> Instant_corner_v ex)"
proof (intro conjI allI impI)
  note j = legacy_junction_jump[OF assms(1-3), folded assms(4)]
  show "\<bar>Axes_r m ! 3 - Axes_r p ! 3\<bar> * sqrt (Max_start_v2 m') \<le> Instant_corner_v ex" by (rule j)
  fix r assume r: "planned_from r m' \<and> trapezoid r"
  note s = planned_start_limit[OF conjunct1[OF r] conjunct2[OF r]]
  have "\<bar>Start_v r * Axes_r m ! 3 - Start_v r * Axes_r p ! 3\<bar>
      = \<bar>Axes_r m ! 3 - Axes_r p ! 3\<bar> * Start_v r"
    using s(2) by (simp add: abs_mult flip: right_diff_distrib)
  also have "\<dots> \<le> \<bar>Axes_r m ! 3 - Axes_r p ! 3\<bar> * sqrt (Max_start_v2 m')"
    using s(1) by (intro mult_left_mono) auto
  finally show "\<bar>Start_v r * Axes_r m ! 3 - Start_v r * Axes_r p ! 3\<bar> \<le> Instant_corner_v ex"
    using j by simp
qed

theorem extruder_corner_velocity_witness:
  "2 * sqrt (Max_start_v2 (Calc_junction (Some (Extruder_Calc_junction (LegacyExtruder demo_extruder)))
     unit_move (unit_move\<lparr>Axes_r := [1, 0, 0, 2]\<rparr>))) \<le> 1"
  using extruder_corner_velocity[of unit_move "unit_move\<lparr>Axes_r := [1, 0, 0, 2]\<rparr>" demo_extruder]
  by (simp add: fresh_move_def wf_move_def unit_move_def demo_extruder_def)



text \<open>
  C9. The extrusion queued for a feasible move is synchronous with it and covers exactly the
  filament distance of the move: the filament speed changes at the scaled acceleration, and
  the area under the filament speed is the extrusion ratio times the move's distance.
\<close>

theorem extruder_move_exact:
  assumes "trapezoid m" and "has_Trapq_append ex"
  shows "\<exists>e. snd (Extruder_Move t m (LegacyExtruder ex)) = [e] \<and> ta_print_time e = t \<and>
    ta_accel_t e = Accel_t m \<and> ta_cruise_t e = Cruise_t m \<and> ta_decel_t e = Decel_t m \<and>
    ta_cruise_v e = ta_start_v e + ta_accel e * ta_accel_t e \<and>
    (ta_start_v e + ta_cruise_v e) / 2 * ta_accel_t e + ta_cruise_v e * ta_cruise_t e +
      (ta_cruise_v e + End_v m * Axes_r m ! 3) / 2 * ta_decel_t e = Axes_r m ! 3 * Move_d m \<and>
    (\<exists>ex'. fst (Extruder_Move t m (LegacyExtruder ex)) = LegacyExtruder ex' \<and>
       Last_position ex' = End_pos m ! 3)"
  using BuildExtrusionMove_distance[OF assms(1)] BuildExtrusionMove_ramp[OF assms(1)] assms(2)
  by (auto simp: legacy_Move_def Let_def extruded_def) (simp_all add: BuildExtrusionMove_def Let_def)

theorem extruder_move_exact_witness:
  "\<exists>e. snd (Extruder_Move 3 (Set_junction 0 1 0 unit_move) (LegacyExtruder demo_extruder)) = [e] \<and>
     ta_print_time e = 3"
  using extruder_move_exact[of "Set_junction 0 1 0 unit_move" demo_extruder 3] unit_trapezoid
  by (auto simp: demo_extruder_def)

text \<open>
  The timing of a single-stepper move is exact for every distance, positive speed and
  optional acceleration: direction times length is the distance, no time is negative, the
  cruise speed does not exceed the requested one and is reached at the given acceleration,
  and accelerating, cruising and decelerating covers the length.  Queueing the move on a
  manual stepper advances its command time by exactly the duration.
\<close>

theorem CalcMoveTime_exact:
  assumes "0 < speed" and "CalcMoveTime d speed accel = (axisR, accelT, cruiseT, cruiseV)"
  shows "axisR * \<bar>d\<bar> = d \<and> 0 \<le> accelT \<and> 0 \<le> cruiseT \<and> 0 < cruiseV \<and> cruiseV \<le> speed \<and>
    cruiseV / 2 * accelT + cruiseV * cruiseT + cruiseV / 2 * accelT = \<bar>d\<bar> \<and>
    (\<forall>a. accel = Some a \<and> 0 < a \<and> d \<noteq> 0 \<longrightarrow> cruiseV = a * accelT) \<and>
    (\<forall>a pos t. accel = Some a \<longrightarrow>
       snd (manual_QueueMove pos (pos + d) speed a t) = t + (accelT + cruiseT + accelT))"
proof -
  note c = CalcMoveTime_spec[OF assms]
  have "cruiseV / 2 * accelT + cruiseV * cruiseT + cruiseV / 2 * accelT
      = cruiseV * (accelT + cruiseT)" by (simp add: algebra_simps)
  then show ?thesis using c assms(2) by (auto simp: manual_QueueMove_def)
qed

theorem CalcMoveTime_exact_witness:
  "CalcMoveTime (- 8) 2 (Some 1) = (- 1, 2, 2, 2) \<and> 2 / 2 * 2 + 2 * 2 + 2 / 2 * 2 = \<bar>- 8 :: real\<bar>"
proof -
  have c: "CalcMoveTime (- 8) 2 (Some 1) = (- 1, 2, 2, 2)"
    by (simp add: CalcMoveTime_def)
  from CalcMoveTime_exact[OF _ c] c show ?thesis by simp
qed

lemma rotation_distance_roundtrip:
  "(case ResolveExtruderRotationDistanceUpdate d orig of (r, invertDir) \<Rightarrow>
     0 \<le> r \<and> DisplayExtruderRotationDistance r invertDir orig = d)"
  by (simp add: ResolveExtruderRotationDistanceUpdate_def DisplayExtruderRotationDistance_def)

end
