(* ===== verification/Kinematics.thy ===== *)
theory Kinematics
  imports Extrusion "HOL-Library.Multiset"
begin

text \<open>
  Kinematics: \<^verbatim>\<open>internal/pkg/motion/kinematics\<close> (cartesian with an optional dual carriage,
  corexy and none), the rail plan of \<^verbatim>\<open>rail_config.go\<close>, the limit tests of
  \<^verbatim>\<open>common/utils/maths\<close> and the corexy stepper positions of \<^verbatim>\<open>chelper/kin_corexy.c\<close>.

  A rail is an object with identity; the effects on rails, the toolhead and the homing state
  are recorded as events in the order in which the source causes them.
\<close>

definition Check_above_limit :: "real \<Rightarrow> real \<Rightarrow> bool" where
  "Check_above_limit a b \<longleftrightarrow> a > b \<and> \<bar>a - b\<bar> > 0.0000001"

definition Check_below_limit :: "real \<Rightarrow> real \<Rightarrow> bool" where
  "Check_below_limit a b \<longleftrightarrow> a < b \<and> \<bar>b - a\<bar> > 0.0000001"

section \<open>Rails\<close>

record RailHomingInfo =
  hi_Speed :: real
  hi_PositionEndstop :: real
  hi_RetractSpeed :: real
  hi_RetractDist :: real
  hi_PositiveDir :: bool
  hi_SecondHomingSpeed :: real

record Rail =
  rail_id :: nat
  rail_name :: string
  rail_range :: "real \<times> real"
  rail_steppers :: "string list"
  rail_has_endstop :: bool
  rail_homing_info :: RailHomingInfo

record RailConfigPlan =
  PositionMin :: real
  PositionMax :: real
  HomingPositiveDir :: bool

definition BuildRailConfigPlan :: "real \<Rightarrow> bool \<Rightarrow> real \<Rightarrow> real \<Rightarrow> bool \<Rightarrow> bool \<Rightarrow> RailConfigPlan result" where
  "BuildRailConfigPlan positionEndstop needPositionMinMax positionMin0 positionMax0
     hasHomingPositiveDir homingPositiveDir =
     (let positionMin = (if needPositionMinMax then positionMin0 else 0);
          positionMax = (if needPositionMinMax then positionMax0 else positionEndstop)
      in if positionEndstop < positionMin \<or> positionEndstop > positionMax
         then Inl (GoPanic ''position_endstop must be between position_min and position_max'')
         else if \<not> hasHomingPositiveDir then
           let axisLen = positionMax - positionMin in
           if positionEndstop \<le> positionMin + axisLen / 4
           then Inr \<lparr>PositionMin = positionMin, PositionMax = positionMax, HomingPositiveDir = False\<rparr>
           else if positionEndstop \<ge> positionMax - axisLen / 4
           then Inr \<lparr>PositionMin = positionMin, PositionMax = positionMax, HomingPositiveDir = True\<rparr>
           else Inl (GoPanic ''unable to infer homing_positive_dir'')
         else if (homingPositiveDir \<and> positionEndstop = positionMin) \<or>
                 (\<not> homingPositiveDir \<and> positionEndstop = positionMax)
         then Inl (GoPanic ''invalid homing_positive_dir / position_endstop'')
         else Inr \<lparr>PositionMin = positionMin, PositionMax = positionMax,
                   HomingPositiveDir = homingPositiveDir\<rparr>)"

datatype kin_event =
    RailSetPosition nat "real list"
  | RailSetTrapq nat bool
  | FlushStepGeneration
  | ToolheadSetPosition "real list" "nat list"
  | HomeRails nat "real option list" "real option list"

type_synonym move_error = "string \<times> real list"

text \<open>The loop over the axes of both \<open>CheckEndstops\<close>; the first offending axis decides.\<close>

fun endstops_loop :: "(real \<times> real) list \<Rightarrow> Move \<Rightarrow> nat list \<Rightarrow> move_error option" where
  "endstops_loop limits move [] = None"
| "endstops_loop limits move (i # is) =
     (if Axes_d move ! i \<noteq> 0 \<and> (Check_below_limit (End_pos move ! i) (fst (limits ! i)) \<or>
                                Check_above_limit (End_pos move ! i) (snd (limits ! i)))
      then (if fst (limits ! i) > snd (limits ! i)
            then Some (Move_error ''Must home axis first'' move)
            else Some (Move_error ''Move out of range'' move))
      else endstops_loop limits move is)"

definition unhomed_limits :: "(real \<times> real) list" where
  "unhomed_limits = [(1, - 1), (1, - 1), (1, - 1)]"

definition homed_axes :: "(real \<times> real) list \<Rightarrow> string" where
  "homed_axes limits =
     concat (map (\<lambda>(i, axis). if fst (limits ! i) \<le> snd (limits ! i) then axis else [])
       [(0, ''x''), (1, ''y''), (2, ''z'')])"

text \<open>The forced start and the target position of a homing move along one axis.\<close>

definition homing_positions :: "nat \<Rightarrow> Rail \<Rightarrow> real option list \<times> real option list" where
  "homing_positions axis rail =
     (let positionMin = fst (rail_range rail); positionMax = snd (rail_range rail);
          hi = rail_homing_info rail;
          homepos = (replicate 4 None)[axis := Some (hi_PositionEndstop hi)];
          forcepos = homepos[axis := Some (if hi_PositiveDir hi
             then hi_PositionEndstop hi - 1.5 * (hi_PositionEndstop hi - positionMin)
             else hi_PositionEndstop hi + 1.5 * (positionMax - hi_PositionEndstop hi))]
      in (forcepos, homepos))"

section \<open>Cartesian\<close>

record CartesianKinematics =
  dualCarriageAxis :: "nat option"
  dualCarriageRails :: "Rail list"
  cart_rails :: "Rail list"
  cart_maxZVelocity :: real
  cart_maxZAccel :: real
  cart_limits :: "(real \<times> real) list"
  cart_axesMin :: "real list"
  cart_axesMax :: "real list"

text \<open>
  The constructor: the axis names are indexed by rail, so more than three rails panic.
\<close>

definition NewCartesian :: "Rail list \<Rightarrow> real \<Rightarrow> real \<Rightarrow> (nat \<times> Rail list) option \<Rightarrow>
    CartesianKinematics result" where
  "NewCartesian rails maxZVelocity maxZAccel dual =
     (if length rails > 3 then Inl IndexOutOfRange
      else Inr \<lparr>dualCarriageAxis = map_option fst dual,
                dualCarriageRails = (case dual of None \<Rightarrow> [] | Some d \<Rightarrow> snd d),
                cart_rails = rails, cart_maxZVelocity = maxZVelocity, cart_maxZAccel = maxZAccel,
                cart_limits = unhomed_limits,
                cart_axesMin = map (fst \<circ> rail_range) rails @ replicate (4 - length rails) 0,
                cart_axesMax = map (snd \<circ> rail_range) rails @ replicate (4 - length rails) 0\<rparr>)"

definition cart_GetSteppers :: "CartesianKinematics \<Rightarrow> string list" where
  "cart_GetSteppers k =
     (let rails = (case dualCarriageAxis k of
          Some axis \<Rightarrow> if length (dualCarriageRails k) = 2
            then take axis (cart_rails k) @ dualCarriageRails k @ drop (axis + 1) (cart_rails k)
            else cart_rails k
        | None \<Rightarrow> cart_rails k)
      in concat (map rail_steppers rails))"

text \<open>A missing key of a Go map reads as zero.\<close>

definition cart_CalcPosition :: "(string \<rightharpoonup> real) \<Rightarrow> CartesianKinematics \<Rightarrow> real list" where
  "cart_CalcPosition stepperPositions k =
     map (\<lambda>rail. case stepperPositions (rail_name rail) of None \<Rightarrow> 0 | Some p \<Rightarrow> p) (cart_rails k)"

definition set_limits :: "Rail list \<Rightarrow> nat list \<Rightarrow> (real \<times> real) list \<Rightarrow> (real \<times> real) list" where
  "set_limits rails homingAxes limits =
     map (\<lambda>i. if i < length rails \<and> i \<in> set homingAxes then rail_range (rails ! i) else limits ! i)
       [0..<length limits]"

definition cart_SetPosition :: "real list \<Rightarrow> nat list \<Rightarrow> CartesianKinematics \<Rightarrow>
    CartesianKinematics \<times> kin_event list" where
  "cart_SetPosition newpos homingAxes k =
     (k\<lparr>cart_limits := set_limits (cart_rails k) homingAxes (cart_limits k)\<rparr>,
      map (\<lambda>rail. RailSetPosition (rail_id rail) newpos) (cart_rails k))"

definition cart_NoteZNotHomed :: "CartesianKinematics \<Rightarrow> CartesianKinematics" where
  "cart_NoteZNotHomed k = k\<lparr>cart_limits := (cart_limits k)[2 := (1, - 1)]\<rparr>"

definition HomeAxis :: "nat \<Rightarrow> Rail \<Rightarrow> kin_event list" where
  "HomeAxis axis rail =
     (case homing_positions axis rail of (forcepos, homepos) \<Rightarrow>
        [HomeRails (rail_id rail) forcepos homepos])"

text \<open>
  The toolhead's position and the carriage's commanded position come from outside; \<open>pos\<close> and
  \<open>commanded\<close> are what the two calls return.
\<close>

definition ActivateCarriage :: "nat \<Rightarrow> real list \<Rightarrow> (nat \<Rightarrow> real) \<Rightarrow> CartesianKinematics \<Rightarrow>
    CartesianKinematics \<times> kin_event list" where
  "ActivateCarriage carriage pos commanded k =
     (case dualCarriageAxis k of
        Some axis \<Rightarrow>
          if length (dualCarriageRails k) \<noteq> 2 then (k, []) else
          let dcRail = dualCarriageRails k ! carriage;
              lims = cart_limits k
          in (k\<lparr>cart_rails := (cart_rails k)[axis := dcRail],
               cart_limits := (if fst (lims ! axis) \<le> snd (lims ! axis)
                               then lims[axis := rail_range dcRail] else lims)\<rparr>,
              [FlushStepGeneration,
               RailSetTrapq (rail_id (cart_rails k ! axis)) False,
               RailSetTrapq (rail_id dcRail) True,
               ToolheadSetPosition (pos[axis := commanded (rail_id dcRail)]) []])
      | None \<Rightarrow> (k, []))"

text \<open>
  Homing: the dual axis homes both carriages and reactivates the active one.  The homing
  state is the caller's: \<open>home\<close> is what a homing request does to the kinematics (it sets
  positions through the toolhead), and \<open>pos\<close> and \<open>commanded\<close> are the toolhead's and the
  carriages' positions after a history of events.
\<close>

record homing_env =
  env_home :: "kin_event \<Rightarrow> CartesianKinematics \<Rightarrow> CartesianKinematics"
  env_pos :: "kin_event list \<Rightarrow> real list"
  env_commanded :: "kin_event list \<Rightarrow> nat \<Rightarrow> real"

definition env_HomeAxis :: "homing_env \<Rightarrow> nat \<Rightarrow> Rail \<Rightarrow> CartesianKinematics \<times> kin_event list \<Rightarrow>
    CartesianKinematics \<times> kin_event list" where
  "env_HomeAxis env axis rail s =
     (fold (env_home env) (HomeAxis axis rail) (fst s), snd s @ HomeAxis axis rail)"

definition env_Activate :: "homing_env \<Rightarrow> nat \<Rightarrow> CartesianKinematics \<times> kin_event list \<Rightarrow>
    CartesianKinematics \<times> kin_event list" where
  "env_Activate env carriage s =
     (let r = ActivateCarriage carriage (env_pos env (snd s)) (env_commanded env (snd s)) (fst s)
      in (fst r, snd s @ snd r))"

definition cart_home_axis :: "homing_env \<Rightarrow> nat \<Rightarrow> CartesianKinematics \<times> kin_event list \<Rightarrow>
    CartesianKinematics \<times> kin_event list" where
  "cart_home_axis env axis s =
     (if dualCarriageAxis (fst s) = Some axis \<and> length (dualCarriageRails (fst s)) = 2 then
        let dc1 = dualCarriageRails (fst s) ! 0;
            dc2 = dualCarriageRails (fst s) ! 1;
            activeCarriage = (if rail_id (cart_rails (fst s) ! axis) = rail_id dc2 then 1 else 0);
            s1 = env_Activate env 0 s;
            s2 = env_HomeAxis env axis dc1 s1;
            s3 = env_Activate env 1 s2;
            s4 = env_HomeAxis env axis dc2 s3
        in env_Activate env activeCarriage s4
      else env_HomeAxis env axis (cart_rails (fst s) ! axis) s)"

definition cart_Home :: "homing_env \<Rightarrow> nat list \<Rightarrow> CartesianKinematics \<Rightarrow>
    CartesianKinematics \<times> kin_event list" where
  "cart_Home env axes k = fold (cart_home_axis env) axes (k, [])"

definition cart_MotorOff :: "CartesianKinematics \<Rightarrow> CartesianKinematics" where
  "cart_MotorOff k = k\<lparr>cart_limits := unhomed_limits\<rparr>"

definition cart_CheckEndstops :: "Move \<Rightarrow> CartesianKinematics \<Rightarrow> move_error option" where
  "cart_CheckEndstops move k = endstops_loop (cart_limits k) move [0, 1, 2]"

definition cart_CheckMove :: "Move \<Rightarrow> CartesianKinematics \<Rightarrow> move_error + Move" where
  "cart_CheckMove move k =
     (let lims = cart_limits k;
          xy = (if Check_below_limit (End_pos move ! 0) (fst (lims ! 0)) \<or>
                   Check_above_limit (End_pos move ! 0) (snd (lims ! 0)) \<or>
                   Check_below_limit (End_pos move ! 1) (fst (lims ! 1)) \<or>
                   Check_above_limit (End_pos move ! 1) (snd (lims ! 1))
                then cart_CheckEndstops move k else None)
      in case xy of Some e \<Rightarrow> Inl e
         | None \<Rightarrow>
           if Axes_d move ! 2 = 0 then Inr move
           else case cart_CheckEndstops move k of Some e \<Rightarrow> Inl e
             | None \<Rightarrow>
               let zRatio = Move_d move / \<bar>Axes_d move ! 2\<bar>
               in Inr (Limit_speed (cart_maxZVelocity k * zRatio) (cart_maxZAccel k * zRatio) move))"

definition cart_Status :: "CartesianKinematics \<Rightarrow> status" where
  "cart_Status k = [''homed_axes'' \<mapsto> SvString (homed_axes (cart_limits k)),
     ''axis_minimum'' \<mapsto> SvFloats (cart_axesMin k), ''axis_maximum'' \<mapsto> SvFloats (cart_axesMax k)]"

section \<open>CoreXY\<close>

record CoreXYKinematics =
  cxy_rails :: "Rail list"
  cxy_maxZVelocity :: real
  cxy_maxZAccel :: real
  cxy_limits :: "(real \<times> real) list"
  cxy_axesMin :: "real list"
  cxy_axesMax :: "real list"

text \<open>
  The constructor also couples the endstops of the first two rails with each other's
  steppers; the second component lists these couplings (rail of the endstop, stepper).
\<close>

definition NewCoreXY :: "Rail list \<Rightarrow> real \<Rightarrow> real \<Rightarrow> (CoreXYKinematics \<times> (nat \<times> string) list) result" where
  "NewCoreXY rails maxZVelocity maxZAccel =
     (if length rails > 3 then Inl IndexOutOfRange
      else Inr (\<lparr>cxy_rails = rails, cxy_maxZVelocity = maxZVelocity, cxy_maxZAccel = maxZAccel,
                 cxy_limits = unhomed_limits,
                 cxy_axesMin = map (fst \<circ> rail_range) rails @ replicate (4 - length rails) 0,
                 cxy_axesMax = map (snd \<circ> rail_range) rails @ replicate (4 - length rails) 0\<rparr>,
                if length rails \<ge> 2
                then (if rail_has_endstop (rails ! 0)
                      then map (Pair (rail_id (rails ! 0))) (rail_steppers (rails ! 1)) else []) @
                     (if rail_has_endstop (rails ! 1)
                      then map (Pair (rail_id (rails ! 1))) (rail_steppers (rails ! 0)) else [])
                else []))"

definition cxy_GetSteppers :: "CoreXYKinematics \<Rightarrow> string list" where
  "cxy_GetSteppers k = concat (map rail_steppers (cxy_rails k))"

definition cxy_CalcPosition :: "(string \<rightharpoonup> real) \<Rightarrow> CoreXYKinematics \<Rightarrow> real list result" where
  "cxy_CalcPosition stepperPositions k =
     (let pos = map (\<lambda>rail. case stepperPositions (rail_name rail) of None \<Rightarrow> 0 | Some p \<Rightarrow> p)
                  (cxy_rails k)
      in if length pos < 3 then Inl IndexOutOfRange
         else Inr [0.5 * (pos ! 0 + pos ! 1), 0.5 * (pos ! 0 - pos ! 1), pos ! 2])"

definition cxy_SetPosition :: "real list \<Rightarrow> nat list \<Rightarrow> CoreXYKinematics \<Rightarrow>
    CoreXYKinematics \<times> kin_event list" where
  "cxy_SetPosition newpos homingAxes k =
     (k\<lparr>cxy_limits := set_limits (cxy_rails k) homingAxes (cxy_limits k)\<rparr>,
      map (\<lambda>rail. RailSetPosition (rail_id rail) newpos) (cxy_rails k))"

definition cxy_NoteZNotHomed :: "CoreXYKinematics \<Rightarrow> CoreXYKinematics" where
  "cxy_NoteZNotHomed k = k\<lparr>cxy_limits := (cxy_limits k)[2 := (1, - 1)]\<rparr>"

fun first_index :: "nat \<Rightarrow> nat list \<Rightarrow> nat \<Rightarrow> nat option" where
  "first_index axis [] i = None"
| "first_index axis (a # as) i = (if a = axis then Some i else first_index axis as (Suc i))"

text \<open>Y is homed before X when both are requested in the order X, Y.\<close>

definition cxy_home_order :: "nat list \<Rightarrow> nat list" where
  "cxy_home_order axes =
     (if length axes > 1 then
        case (first_index 0 axes 0, first_index 1 axes 0) of
          (Some xIndex, Some yIndex) \<Rightarrow>
            if xIndex < yIndex then axes[xIndex := axes ! yIndex, yIndex := axes ! xIndex] else axes
        | _ \<Rightarrow> axes
      else axes)"

definition cxy_Home :: "nat list \<Rightarrow> CoreXYKinematics \<Rightarrow> kin_event list" where
  "cxy_Home axes k =
     map (\<lambda>axis. case homing_positions axis (cxy_rails k ! axis) of (forcepos, homepos) \<Rightarrow>
        HomeRails (rail_id (cxy_rails k ! axis)) forcepos homepos) (cxy_home_order axes)"

definition cxy_MotorOff :: "CoreXYKinematics \<Rightarrow> CoreXYKinematics" where
  "cxy_MotorOff k = k\<lparr>cxy_limits := unhomed_limits\<rparr>"

definition cxy_CheckEndstops :: "Move \<Rightarrow> CoreXYKinematics \<Rightarrow> move_error option" where
  "cxy_CheckEndstops move k = endstops_loop (cxy_limits k) move [0, 1, 2]"

definition cxy_CheckMove :: "Move \<Rightarrow> CoreXYKinematics \<Rightarrow> move_error + Move" where
  "cxy_CheckMove move k =
     (let lims = cxy_limits k;
          xy = (if Check_below_limit (End_pos move ! 0) (fst (lims ! 0)) \<or>
                   Check_above_limit (End_pos move ! 0) (snd (lims ! 0)) \<or>
                   Check_below_limit (End_pos move ! 1) (fst (lims ! 1)) \<or>
                   Check_above_limit (End_pos move ! 1) (snd (lims ! 1))
                then cxy_CheckEndstops move k else None)
      in case xy of Some e \<Rightarrow> Inl e
         | None \<Rightarrow>
           if Axes_d move ! 2 = 0 then Inr move
           else case cxy_CheckEndstops move k of Some e \<Rightarrow> Inl e
             | None \<Rightarrow>
               let zRatio = Move_d move / \<bar>Axes_d move ! 2\<bar>
               in Inr (Limit_speed (cxy_maxZVelocity k * zRatio) (cxy_maxZAccel k * zRatio) move))"

definition cxy_Status :: "CoreXYKinematics \<Rightarrow> status" where
  "cxy_Status k = [''homed_axes'' \<mapsto> SvString (homed_axes (cxy_limits k)),
     ''axis_minimum'' \<mapsto> SvFloats (cxy_axesMin k), ''axis_maximum'' \<mapsto> SvFloats (cxy_axesMax k)]"

definition GetAxisRange :: "nat \<Rightarrow> CoreXYKinematics \<Rightarrow> real \<times> real" where
  "GetAxisRange axis k = rail_range (cxy_rails k ! axis)"

text \<open>The positions the corexy stepper kinematics give to the two belts for a coordinate.\<close>

definition corexy_stepper_plus_calc_position :: "real \<Rightarrow> real \<Rightarrow> real" where
  "corexy_stepper_plus_calc_position x y = x + y"

definition corexy_stepper_minus_calc_position :: "real \<Rightarrow> real \<Rightarrow> real" where
  "corexy_stepper_minus_calc_position x y = x - y"

section \<open>No kinematics\<close>

text \<open>The axis ranges are strings; the other operations do nothing.\<close>

definition NewNone :: "string list option \<Rightarrow> string list" where
  "NewNone axesMinMax =
     (case axesMinMax of None \<Rightarrow> [''0.'', ''0.'', ''0.'', ''0.''] | Some a \<Rightarrow> a)"

definition none_Status :: "string list \<Rightarrow> status" where
  "none_Status axesMinMax = [''homed_axes'' \<mapsto> SvString [],
     ''axis_minimum'' \<mapsto> SvStrings axesMinMax, ''axis_maximum'' \<mapsto> SvStrings axesMinMax]"

section \<open>Axis names\<close>

text \<open>Only ASCII letters fold to the three names.\<close>

definition AxisIndex :: "string \<Rightarrow> int" where
  "AxisIndex axis = (if axis = ''x'' \<or> axis = ''X'' then 0
     else if axis = ''y'' \<or> axis = ''Y'' then 1
     else if axis = ''z'' \<or> axis = ''Z'' then 2 else - 1)"

fun unique_axes :: "string list \<Rightarrow> int list \<Rightarrow> int list" where
  "unique_axes [] out = out"
| "unique_axes (axis # axes) out =
     (let idx = AxisIndex axis in
      if idx < 0 then unique_axes axes out
      else if idx \<in> set out then unique_axes axes out
      else unique_axes axes (out @ [idx]))"

definition UniqueAxisIndexes :: "string list \<Rightarrow> int list" where
  "UniqueAxisIndexes axes = unique_axes axes []"

section \<open>The kinematics of a printer\<close>

datatype Kinematics_impl =
    Cartesian CartesianKinematics
  | CoreXY CoreXYKinematics
  | NoneKinematics "string list"

primrec Kin_Check_move :: "Move \<Rightarrow> Kinematics_impl \<Rightarrow> move_error + Move" where
  "Kin_Check_move move (Cartesian k) = cart_CheckMove move k"
| "Kin_Check_move move (CoreXY k) = cxy_CheckMove move k"
| "Kin_Check_move move (NoneKinematics a) = Inr move"

primrec Kin_Set_position :: "real list \<Rightarrow> nat list \<Rightarrow> Kinematics_impl \<Rightarrow> Kinematics_impl \<times> kin_event list" where
  "Kin_Set_position newpos axes (Cartesian k) =
     (let r = cart_SetPosition newpos axes k in (Cartesian (fst r), snd r))"
| "Kin_Set_position newpos axes (CoreXY k) =
     (let r = cxy_SetPosition newpos axes k in (CoreXY (fst r), snd r))"
| "Kin_Set_position newpos axes (NoneKinematics a) = (NoneKinematics a, [])"

primrec Kin_Note_z_not_homed :: "Kinematics_impl \<Rightarrow> Kinematics_impl" where
  "Kin_Note_z_not_homed (Cartesian k) = Cartesian (cart_NoteZNotHomed k)"
| "Kin_Note_z_not_homed (CoreXY k) = CoreXY (cxy_NoteZNotHomed k)"
| "Kin_Note_z_not_homed (NoneKinematics a) = NoneKinematics a"

primrec Kin_Get_status :: "Kinematics_impl \<Rightarrow> status" where
  "Kin_Get_status (Cartesian k) = cart_Status k"
| "Kin_Get_status (CoreXY k) = cxy_Status k"
| "Kin_Get_status (NoneKinematics a) = none_Status a"

section \<open>What a move check guarantees\<close>

lemma not_below: "\<not> Check_below_limit a b \<longleftrightarrow> b - 0.0000001 \<le> a"
  by (auto simp: Check_below_limit_def)

lemma not_above: "\<not> Check_above_limit a b \<longleftrightarrow> a \<le> b + 0.0000001"
  by (auto simp: Check_above_limit_def)

definition in_limits :: "(real \<times> real) list \<Rightarrow> real list \<Rightarrow> nat \<Rightarrow> bool" where
  "in_limits limits pos i \<longleftrightarrow> fst (limits ! i) - 0.0000001 \<le> pos ! i \<and> pos ! i \<le> snd (limits ! i) + 0.0000001"

lemma out_of_limits:
  "Check_below_limit (pos ! i) (fst (limits ! i)) \<or> Check_above_limit (pos ! i) (snd (limits ! i))
     \<longleftrightarrow> \<not> in_limits limits pos i"
  using not_below not_above by (auto simp: in_limits_def)

lemma endstops_loop_None:
  "endstops_loop limits m is = None \<longleftrightarrow>
     (\<forall>i\<in>set is. Axes_d m ! i \<noteq> 0 \<longrightarrow> in_limits limits (End_pos m) i)"
  by (induction limits m "is" rule: endstops_loop.induct) (auto simp: out_of_limits)

text \<open>The guard of both \<open>CheckMove\<close> on the horizontal axes.\<close>

lemma xy_guard:
  "Check_below_limit (pos ! 0) (fst (limits ! 0)) \<or> Check_above_limit (pos ! 0) (snd (limits ! 0)) \<or>
   Check_below_limit (pos ! 1) (fst (limits ! 1)) \<or> Check_above_limit (pos ! 1) (snd (limits ! 1))
     \<longleftrightarrow> \<not> (in_limits limits pos 0 \<and> in_limits limits pos 1)"
  using out_of_limits[of pos 0 limits] out_of_limits[of pos 1 limits] by blast

text \<open>
  The contract of a kinematics with axis limits and a separate limit on the vertical axis:
  exactly the moves that end inside the limits on every axis they move are accepted, and an
  accepted move that moves vertically is slowed down in proportion.
\<close>

locale move_checker =
  fixes check :: "'k \<Rightarrow> Move \<Rightarrow> move_error + Move"
    and limits :: "'k \<Rightarrow> (real \<times> real) list"
    and maxZVelocity maxZAccel :: "'k \<Rightarrow> real"
  assumes check_accepts: "(\<exists>m'. check k m = Inr m') \<longleftrightarrow>
      (\<forall>i<3. Axes_d m ! i \<noteq> 0 \<longrightarrow> in_limits (limits k) (End_pos m) i)"
    and check_result: "check k m = Inr m' \<Longrightarrow>
      m' = (if Axes_d m ! 2 = 0 then m
            else Limit_speed (maxZVelocity k * (Move_d m / \<bar>Axes_d m ! 2\<bar>))
                   (maxZAccel k * (Move_d m / \<bar>Axes_d m ! 2\<bar>)) m)"
begin

lemma accepted_in_limits:
  "check k m = Inr m' \<Longrightarrow> i < 3 \<Longrightarrow> Axes_d m ! i \<noteq> 0 \<Longrightarrow> in_limits (limits k) (End_pos m) i"
  using check_accepts by blast

lemma accepted_homed:
  assumes "check k m = Inr m'" "i < 3" "Axes_d m ! i \<noteq> 0"
  shows "limits k ! i \<noteq> (1, - 1)"
  using accepted_in_limits[OF assms] by (auto simp: in_limits_def)

lemma accepted_fresh:
  assumes "check k m = Inr m'" "fresh_move m" "0 < maxZVelocity k" "0 < maxZAccel k"
  shows "fresh_move m'"
proof (cases "Axes_d m ! 2 = 0")
  case False
  have "0 < Move_d m" using assms(2) by (simp add: fresh_move_def wf_move_def)
  with False assms show ?thesis
    unfolding check_result[OF assms(1)] by (auto intro!: Limit_speed_fresh)
qed (use check_result[OF assms(1)] assms(2) in simp)

lemma accepted_z_speed:
  assumes "check k m = Inr m'" "0 < Move_d m" "0 \<le> Max_cruise_v2 m" "0 \<le> maxZVelocity k" "0 \<le> maxZAccel k"
  shows "sqrt (Max_cruise_v2 m') * (\<bar>Axes_d m ! 2\<bar> / Move_d m) \<le> maxZVelocity k"
    "Accel m' * (\<bar>Axes_d m ! 2\<bar> / Move_d m) \<le> maxZAccel k"
proof -
  show "sqrt (Max_cruise_v2 m') * (\<bar>Axes_d m ! 2\<bar> / Move_d m) \<le> maxZVelocity k"
  proof (cases "Axes_d m ! 2 = 0")
    case False
    let ?r = "Axes_d m ! 2 / Move_d m"
    have r: "?r \<noteq> 0" "\<bar>Axes_d m ! 2\<bar> / Move_d m = \<bar>?r\<bar>"
      "maxZVelocity k * (Move_d m / \<bar>Axes_d m ! 2\<bar>) = maxZVelocity k / \<bar>?r\<bar>"
      using False assms(2) by (auto simp: abs_divide)
    have "Max_cruise_v2 m' = min (Max_cruise_v2 m) (maxZVelocity k / \<bar>?r\<bar> * (maxZVelocity k / \<bar>?r\<bar>))"
      unfolding check_result[OF assms(1)] using False r(3) by simp
    then show ?thesis unfolding r(2) using limited_speed[OF assms(4) r(1) assms(3)] by simp
  qed (use assms in simp)
  show "Accel m' * (\<bar>Axes_d m ! 2\<bar> / Move_d m) \<le> maxZAccel k"
  proof (cases "Axes_d m ! 2 = 0")
    case False
    have "Accel m' \<le> maxZAccel k * (Move_d m / \<bar>Axes_d m ! 2\<bar>)"
      unfolding check_result[OF assms(1)] using False by simp
    then show ?thesis using False assms(2) by (simp add: field_simps)
  qed (use assms in simp)
qed

end

lemma less3: "(\<forall>i<3. P i) \<longleftrightarrow> P 0 \<and> P 1 \<and> P (2::nat)"
  by (auto simp: less_Suc_eq numeral_3_eq_3 numeral_2_eq_2)

lemma endstops3:
  "endstops_loop limits m [0, 1, 2] = None \<longleftrightarrow>
     (\<forall>i<3. Axes_d m ! i \<noteq> 0 \<longrightarrow> in_limits limits (End_pos m) i)"
  unfolding endstops_loop_None less3 by simp

lemma check_body:
  fixes m m2 :: Move and L :: "(real \<times> real) list"
  defines "r \<equiv> case (if \<not> (in_limits L (End_pos m) 0 \<and> in_limits L (End_pos m) 1)
          then endstops_loop L m [0, 1, 2] else None) of Some e \<Rightarrow> Inl e
     | None \<Rightarrow> if Axes_d m ! 2 = 0 then Inr m
               else case endstops_loop L m [0, 1, 2] of Some e \<Rightarrow> Inl e | None \<Rightarrow> Inr m2"
  shows "(\<exists>m'. r = Inr m') \<longleftrightarrow> (\<forall>i<3. Axes_d m ! i \<noteq> 0 \<longrightarrow> in_limits L (End_pos m) i)"
    and "r = Inr m' \<Longrightarrow> m' = (if Axes_d m ! 2 = 0 then m else m2)"
proof -
  have "endstops_loop L m [0, 1, 2] = None"
    if "in_limits L (End_pos m) 0 \<and> in_limits L (End_pos m) 1" "Axes_d m ! 2 = 0"
    using that unfolding endstops3 less3 by simp
  then show "(\<exists>m'. r = Inr m') \<longleftrightarrow> (\<forall>i<3. Axes_d m ! i \<noteq> 0 \<longrightarrow> in_limits L (End_pos m) i)"
    "r = Inr m' \<Longrightarrow> m' = (if Axes_d m ! 2 = 0 then m else m2)"
    unfolding endstops3[symmetric] r_def by (auto split: option.splits if_splits simp del: endstops_loop.simps)
qed

lemmas cart_check_unfold = cart_CheckMove_def cart_CheckEndstops_def Let_def xy_guard
lemmas cxy_check_unfold = cxy_CheckMove_def cxy_CheckEndstops_def Let_def xy_guard

interpretation cart: move_checker "\<lambda>k m. cart_CheckMove m k" cart_limits cart_maxZVelocity cart_maxZAccel
  by unfold_locales (unfold cart_check_unfold, rule check_body(1), erule check_body(2))

interpretation cxy: move_checker "\<lambda>k m. cxy_CheckMove m k" cxy_limits cxy_maxZVelocity cxy_maxZAccel
  by unfold_locales (unfold cxy_check_unfold, rule check_body(1), erule check_body(2))

section \<open>The homing state\<close>

primrec kin_rails :: "Kinematics_impl \<Rightarrow> Rail list" where
  "kin_rails (Cartesian k) = cart_rails k"
| "kin_rails (CoreXY k) = cxy_rails k"
| "kin_rails (NoneKinematics a) = []"

primrec kin_limits :: "Kinematics_impl \<Rightarrow> (real \<times> real) list" where
  "kin_limits (Cartesian k) = cart_limits k"
| "kin_limits (CoreXY k) = cxy_limits k"
| "kin_limits (NoneKinematics a) = []"

primrec kin_dual :: "Kinematics_impl \<Rightarrow> Rail list" where
  "kin_dual (Cartesian k) = dualCarriageRails k"
| "kin_dual (CoreXY k) = []"
| "kin_dual (NoneKinematics a) = []"

definition wf_rails :: "Rail list \<Rightarrow> bool" where
  "wf_rails rails \<longleftrightarrow> length rails = 3 \<and> (\<forall>r\<in>set rails. fst (rail_range r) \<le> snd (rail_range r))"

text \<open>Every axis is either marked as not homed or has the range of the rail that drives it.\<close>

definition limits_ok :: "Rail list \<Rightarrow> (real \<times> real) list \<Rightarrow> bool" where
  "limits_ok rails limits \<longleftrightarrow> length limits = 3 \<and>
     (\<forall>i<3. limits ! i = (1, - 1) \<or> limits ! i = rail_range (rails ! i))"

definition kin_inv :: "Kinematics_impl \<Rightarrow> bool" where
  "kin_inv kin \<longleftrightarrow> wf_rails (kin_rails kin) \<and> limits_ok (kin_rails kin) (kin_limits kin) \<and>
     (\<forall>r\<in>set (kin_dual kin). fst (rail_range r) \<le> snd (rail_range r))"

inductive kin_step :: "Kinematics_impl \<Rightarrow> Kinematics_impl \<Rightarrow> bool" where
  step_set_position: "kin_step kin (fst (Kin_Set_position newpos axes kin))"
| step_z_not_homed: "kin_step kin (Kin_Note_z_not_homed kin)"
| step_motor_off: "kin_step (Cartesian k) (Cartesian (cart_MotorOff k))"
| step_motor_off_cxy: "kin_step (CoreXY c) (CoreXY (cxy_MotorOff c))"
| step_carriage: "carriage < 2 \<Longrightarrow>
     kin_step (Cartesian k) (Cartesian (fst (ActivateCarriage carriage pos commanded k)))"

inductive kin_start :: "Kinematics_impl \<Rightarrow> bool" where
  start_cart: "NewCartesian rails vz az dual = Inr k \<Longrightarrow> wf_rails rails \<Longrightarrow>
     (\<forall>d. dual = Some d \<longrightarrow> (\<forall>r\<in>set (snd d). fst (rail_range r) \<le> snd (rail_range r))) \<Longrightarrow>
     kin_start (Cartesian k)"
| start_cxy: "NewCoreXY rails vz az = Inr (c, couplings) \<Longrightarrow> wf_rails rails \<Longrightarrow> kin_start (CoreXY c)"

inductive kin_reachable :: "Kinematics_impl \<Rightarrow> bool" where
  reach_init: "kin_start kin \<Longrightarrow> kin_reachable kin"
| reach_step: "kin_reachable kin \<Longrightarrow> kin_step kin kin' \<Longrightarrow> kin_reachable kin'"

lemma unhomed_nth: "i < 3 \<Longrightarrow> unhomed_limits ! i = (1, - 1)"
  by (auto simp: unhomed_limits_def less_Suc_eq numeral_3_eq_3)

lemma limits_ok_unhomed: "limits_ok rails unhomed_limits"
  by (simp add: limits_ok_def unhomed_nth) (simp add: unhomed_limits_def)

lemma limits_ok_set:
  assumes "limits_ok rails limits"
  shows "limits_ok rails (set_limits rails axes limits)"
  using assms by (auto simp: limits_ok_def set_limits_def)

lemma limits_ok_z: "limits_ok rails limits \<Longrightarrow> limits_ok rails (limits[2 := (1, - 1)])"
  by (auto simp: limits_ok_def nth_list_update)

lemma limits_ok_carriage:
  assumes "limits_ok rails limits" and "wf_rails rails"
  shows "limits_ok (rails[axis := r])
     (if fst (limits ! axis) \<le> snd (limits ! axis) then limits[axis := rail_range r] else limits)"
proof (cases "axis < 3")
  case True
  with assms have "limits ! axis = (1, - 1) \<or> limits ! axis = rail_range (rails ! axis)"
    and "fst (rail_range (rails ! axis)) \<le> snd (rail_range (rails ! axis))"
    by (auto simp: limits_ok_def wf_rails_def)
  then have "fst (limits ! axis) \<le> snd (limits ! axis) \<or> limits ! axis = (1, - 1)" by auto
  with assms True show ?thesis
    by (auto simp: limits_ok_def wf_rails_def nth_list_update)
next
  case False
  with assms show ?thesis by (auto simp: limits_ok_def wf_rails_def list_update_beyond)
qed

lemma wf_rails_update: "wf_rails rails \<Longrightarrow> fst (rail_range r) \<le> snd (rail_range r) \<Longrightarrow> wf_rails (rails[i := r])"
  by (auto simp: wf_rails_def dest!: set_update_subset_insert[THEN subsetD])

lemma carriage_inv:
  assumes "kin_inv (Cartesian k)" and "carriage < 2"
  shows "kin_inv (Cartesian (fst (ActivateCarriage carriage pos commanded k)))"
proof (cases "\<exists>axis. dualCarriageAxis k = Some axis \<and> length (dualCarriageRails k) = 2")
  case True
  then obtain axis where a: "dualCarriageAxis k = Some axis" "length (dualCarriageRails k) = 2" by blast
  have r: "fst (rail_range (dualCarriageRails k ! carriage)) \<le> snd (rail_range (dualCarriageRails k ! carriage))"
    using assms a by (simp add: kin_inv_def)
  from assms(1) a show ?thesis
    by (simp add: ActivateCarriage_def Let_def kin_inv_def limits_ok_carriage wf_rails_update[OF _ r])
next
  case False
  then have "ActivateCarriage carriage pos commanded k = (k, [])"
    by (auto simp: ActivateCarriage_def split: option.splits)
  with assms show ?thesis by simp
qed

lemma kin_step_inv: "kin_step kin kin' \<Longrightarrow> kin_inv kin \<Longrightarrow> kin_inv kin'"
proof (induction rule: kin_step.induct)
  case (step_set_position kin newpos axes)
  then show ?case
    by (cases kin) (auto simp: kin_inv_def cart_SetPosition_def cxy_SetPosition_def Let_def limits_ok_set)
next
  case (step_z_not_homed kin)
  then show ?case
    by (cases kin) (auto simp: kin_inv_def cart_NoteZNotHomed_def cxy_NoteZNotHomed_def limits_ok_z)
next
  case (step_carriage carriage k pos commanded)
  then show ?case by (intro carriage_inv)
qed (auto simp: kin_inv_def cart_MotorOff_def cxy_MotorOff_def limits_ok_unhomed)

lemma kin_start_inv: "kin_start kin \<Longrightarrow> kin_inv kin"
  by (induction rule: kin_start.induct)
    (auto simp: kin_inv_def NewCartesian_def NewCoreXY_def limits_ok_unhomed wf_rails_def split: option.splits)

lemma kin_reachable_inv: "kin_reachable kin \<Longrightarrow> kin_inv kin"
  by (induction rule: kin_reachable.induct) (blast intro: kin_start_inv kin_step_inv)+

text \<open>A homing run keeps the invariant if the homing requests do.\<close>

lemma cart_Home_inv:
  assumes "\<And>e k. kin_inv (Cartesian k) \<Longrightarrow> kin_inv (Cartesian (env_home env e k))"
    and "kin_inv (Cartesian k)"
  shows "kin_inv (Cartesian (fst (cart_Home env axes k)))"
proof -
  have act: "kin_inv (Cartesian (fst (env_Activate env c s)))" if "kin_inv (Cartesian (fst s))" "c < 2" for c s
    using that carriage_inv[of "fst s" c] by (auto simp: env_Activate_def Let_def)
  have hom: "kin_inv (Cartesian (fst (env_HomeAxis env a r s)))" if "kin_inv (Cartesian (fst s))" for a r s
    using that assms(1) by (auto simp: env_HomeAxis_def HomeAxis_def split: prod.splits)
  have one: "kin_inv (Cartesian (fst (cart_home_axis env a s)))" if "kin_inv (Cartesian (fst s))" for a s
    using that by (auto simp: cart_home_axis_def Let_def intro!: act hom)
  have "kin_inv (Cartesian (fst (fold (cart_home_axis env) axes s)))" if "kin_inv (Cartesian (fst s))" for s
    using that by (induction axes arbitrary: s) (simp_all add: one)
  with assms(2) show ?thesis by (simp add: cart_Home_def)
qed

lemma kin_accepted_in_limits:
  assumes "Kin_Check_move m kin = Inr m'" and "kin_limits kin \<noteq> []" "i < 3" "Axes_d m ! i \<noteq> 0"
  shows "in_limits (kin_limits kin) (End_pos m) i \<and> kin_limits kin ! i \<noteq> (1, - 1)"
  using assms cart.accepted_in_limits cart.accepted_homed cxy.accepted_in_limits cxy.accepted_homed
  by (cases kin) auto

section \<open>CoreXY belts\<close>

lemma cxy_CalcPosition_belts:
  assumes "cxy_rails k = [ra, rb, rc]" and "pos (rail_name ra) = Some (corexy_stepper_plus_calc_position x y)"
    "pos (rail_name rb) = Some (corexy_stepper_minus_calc_position x y)" "pos (rail_name rc) = Some z"
  shows "cxy_CalcPosition pos k = Inr [x, y, z]"
  using assms by (simp add: cxy_CalcPosition_def Let_def corexy_stepper_plus_calc_position_def
      corexy_stepper_minus_calc_position_def)

section \<open>Homing moves\<close>

lemma BuildRailConfigPlan_ok:
  assumes "BuildRailConfigPlan e need mn mx has dir = Inr plan"
  shows "PositionMin plan \<le> e \<and> e \<le> PositionMax plan"
    "PositionMin plan < PositionMax plan \<Longrightarrow>
       (if HomingPositiveDir plan then PositionMin plan < e else e < PositionMax plan)"
    "has \<Longrightarrow> HomingPositiveDir plan = dir"
  using assms by (auto simp: BuildRailConfigPlan_def Let_def field_simps split: if_splits)

lemma homing_positions_nth:
  assumes "axis < 4"
  shows "snd (homing_positions axis rail) ! axis = Some (hi_PositionEndstop (rail_homing_info rail))"
    "fst (homing_positions axis rail) ! axis = Some (if hi_PositiveDir (rail_homing_info rail)
        then hi_PositionEndstop (rail_homing_info rail)
             - 1.5 * (hi_PositionEndstop (rail_homing_info rail) - fst (rail_range rail))
        else hi_PositionEndstop (rail_homing_info rail)
             + 1.5 * (snd (rail_range rail) - hi_PositionEndstop (rail_homing_info rail)))"
    "j \<noteq> axis \<Longrightarrow> j < 4 \<Longrightarrow> fst (homing_positions axis rail) ! j = None"
  using assms by (simp_all add: homing_positions_def Let_def)

section \<open>The homing order of a corexy printer\<close>

lemma first_index_spec:
  "first_index a xs n = Some i \<Longrightarrow> n \<le> i \<and> i - n < length xs \<and> xs ! (i - n) = a"
  by (induction a xs n rule: first_index.induct) (auto split: if_splits simp: nth_Cons' Suc_diff_Suc)

lemma cxy_home_order_mset: "mset (cxy_home_order axes) = mset axes"
proof (cases "length axes > 1 \<and> (\<exists>i j. first_index 0 axes 0 = Some i \<and> first_index 1 axes 0 = Some j \<and> i < j)")
  case True
  then obtain i j where "first_index 0 axes 0 = Some i" "first_index 1 axes 0 = Some j" "i < j" by blast
  with True first_index_spec[of 0 axes 0 i] first_index_spec[of 1 axes 0 j] show ?thesis
    using mset_swap[of j axes i] by (simp add: cxy_home_order_def)
next
  case False
  then show ?thesis by (auto simp: cxy_home_order_def split: option.splits)
qed

section \<open>Axis names\<close>

lemma unique_axes_distinct: "distinct out \<Longrightarrow> distinct (unique_axes axes out)"
  by (induction axes out rule: unique_axes.induct) (auto simp: Let_def)

lemma unique_axes_set:
  "set (unique_axes axes out) = set out \<union> {i \<in> AxisIndex ` set axes. 0 \<le> i}"
  by (induction axes out rule: unique_axes.induct) (auto simp: Let_def)

section \<open>Properties\<close>

definition demo_rail :: "nat \<Rightarrow> string \<Rightarrow> Rail" where
  "demo_rail i nm = \<lparr>rail_id = i, rail_name = nm, rail_range = (0, 200), rail_steppers = [nm],
     rail_has_endstop = True,
     rail_homing_info = \<lparr>hi_Speed = 5, hi_PositionEndstop = 0, hi_RetractSpeed = 5,
       hi_RetractDist = 5, hi_PositiveDir = False, hi_SecondHomingSpeed = 2\<rparr>\<rparr>"

definition demo_rails :: "Rail list" where
  "demo_rails = [demo_rail 0 ''stepper_x'', demo_rail 1 ''stepper_y'', demo_rail 2 ''stepper_z'']"

definition demo_corexy :: CoreXYKinematics where
  "demo_corexy = \<lparr>cxy_rails = demo_rails, cxy_maxZVelocity = 5, cxy_maxZAccel = 100,
     cxy_limits = [(0, 200), (0, 200), (0, 200)], cxy_axesMin = [0, 0, 0, 0],
     cxy_axesMax = [200, 200, 200, 0]\<rparr>"

lemma demo_corexy_reachable: "kin_reachable (CoreXY demo_corexy)"
proof -
  let ?c = "demo_corexy\<lparr>cxy_limits := unhomed_limits\<rparr>"
  have "kin_start (CoreXY ?c)"
    by (rule start_cxy[of demo_rails 5 100])
      (simp_all add: NewCoreXY_def demo_rails_def demo_rail_def demo_corexy_def wf_rails_def)
  from reach_step[OF reach_init[OF this] step_set_position]
  have "kin_reachable (fst (Kin_Set_position [0, 0, 0, 0] [0, 1, 2] (CoreXY ?c)))" .
  moreover have "fst (Kin_Set_position [0, 0, 0, 0] [0, 1, 2] (CoreXY ?c)) = CoreXY demo_corexy"
    by (simp add: cxy_SetPosition_def set_limits_def demo_corexy_def unhomed_limits_def demo_rails_def
        demo_rail_def)
  ultimately show ?thesis by simp
qed

text \<open>
  C11. In every state a cartesian or corexy kinematics reaches by setting positions, losing
  the homed state and switching carriages, an accepted move never leaves the physical range
  of the rail that drives an axis it moves (up to the tolerance of the test, a tenth of a
  micrometre), and never moves an axis that is not homed.
\<close>

theorem accepted_move_in_range:
  assumes "kin_reachable kin" and "Kin_Check_move m kin = Inr m'" and "i < 3" and "Axes_d m ! i \<noteq> 0"
  shows "kin_limits kin ! i = rail_range (kin_rails kin ! i) \<and>
    fst (rail_range (kin_rails kin ! i)) - 0.0000001 \<le> End_pos m ! i \<and>
    End_pos m ! i \<le> snd (rail_range (kin_rails kin ! i)) + 0.0000001"
proof -
  note inv = kin_reachable_inv[OF assms(1)]
  have "kin_limits kin \<noteq> []" using inv by (auto simp: kin_inv_def limits_ok_def)
  note acc = kin_accepted_in_limits[OF assms(2) this assms(3,4)]
  have "kin_limits kin ! i = rail_range (kin_rails kin ! i)"
    using inv acc assms(3) by (auto simp: kin_inv_def limits_ok_def)
  with acc show ?thesis by (auto simp: in_limits_def)
qed

theorem accepted_move_in_range_witness:
  "Kin_Check_move unit_move (CoreXY demo_corexy) = Inr unit_move \<and>
   End_pos unit_move ! 0 \<le> snd (rail_range (kin_rails (CoreXY demo_corexy) ! 0)) + 0.0000001"
proof -
  have c: "Kin_Check_move unit_move (CoreXY demo_corexy) = Inr unit_move"
    by (simp add: cxy_CheckMove_def unit_move_def demo_corexy_def Check_below_limit_def
        Check_above_limit_def)
  from accepted_move_in_range[OF demo_corexy_reachable c, of 0] c show ?thesis
    by (simp add: unit_move_def)
qed

text \<open>
  C12. The move check is complete and limits the vertical motion: a cartesian or corexy
  kinematics accepts exactly the moves that end inside its current limits on every axis they
  move, and the accepted move, still plannable, never exceeds the maximum vertical speed and
  acceleration.
\<close>

theorem CheckMove_exact:
  assumes "fresh_move m" and "0 < cart_maxZVelocity k" "0 < cart_maxZAccel k"
    and "0 < cxy_maxZVelocity c" "0 < cxy_maxZAccel c"
  shows "((\<exists>m'. cart_CheckMove m k = Inr m') \<longleftrightarrow>
        (\<forall>i<3. Axes_d m ! i \<noteq> 0 \<longrightarrow> in_limits (cart_limits k) (End_pos m) i)) \<and>
    ((\<exists>m'. cxy_CheckMove m c = Inr m') \<longleftrightarrow>
        (\<forall>i<3. Axes_d m ! i \<noteq> 0 \<longrightarrow> in_limits (cxy_limits c) (End_pos m) i)) \<and>
    (\<forall>m'. cart_CheckMove m k = Inr m' \<longrightarrow> fresh_move m' \<and>
        sqrt (Max_cruise_v2 m') * (\<bar>Axes_d m ! 2\<bar> / Move_d m) \<le> cart_maxZVelocity k \<and>
        Accel m' * (\<bar>Axes_d m ! 2\<bar> / Move_d m) \<le> cart_maxZAccel k) \<and>
    (\<forall>m'. cxy_CheckMove m c = Inr m' \<longrightarrow> fresh_move m' \<and>
        sqrt (Max_cruise_v2 m') * (\<bar>Axes_d m ! 2\<bar> / Move_d m) \<le> cxy_maxZVelocity c \<and>
        Accel m' * (\<bar>Axes_d m ! 2\<bar> / Move_d m) \<le> cxy_maxZAccel c)"
proof -
  have m: "0 < Move_d m" "0 \<le> Max_cruise_v2 m" using assms(1) by (auto simp: fresh_move_def wf_move_def)
  show ?thesis
    using assms m cart.check_accepts cxy.check_accepts
      cart.accepted_fresh[of m k] cxy.accepted_fresh[of m c]
      cart.accepted_z_speed[of m k] cxy.accepted_z_speed[of m c]
    by (auto simp: less_imp_le)
qed

theorem CheckMove_exact_witness:
  "\<exists>m'. cxy_CheckMove unit_move demo_corexy = Inr m'"
  using CheckMove_exact[of unit_move "\<lparr>dualCarriageAxis = None, dualCarriageRails = [],
      cart_rails = demo_rails, cart_maxZVelocity = 5, cart_maxZAccel = 100,
      cart_limits = unhomed_limits, cart_axesMin = [], cart_axesMax = []\<rparr>" demo_corexy]
  by (simp add: less3 fresh_move_def wf_move_def unit_move_def demo_corexy_def in_limits_def)

text \<open>
  C13. The corexy position computation inverts the belt kinematics: from the two belt
  positions of the stepper kinematics and the position of the vertical rail it recovers the
  toolhead coordinate.
\<close>

theorem corexy_roundtrip:
  assumes "cxy_rails k = [ra, rb, rc]" and "pos (rail_name ra) = Some (corexy_stepper_plus_calc_position x y)"
    "pos (rail_name rb) = Some (corexy_stepper_minus_calc_position x y)" "pos (rail_name rc) = Some z"
  shows "cxy_CalcPosition pos k = Inr [x, y, z]"
  by (rule cxy_CalcPosition_belts[OF assms])

theorem corexy_roundtrip_witness:
  "cxy_CalcPosition [''stepper_x'' \<mapsto> 7, ''stepper_y'' \<mapsto> 3, ''stepper_z'' \<mapsto> 1] demo_corexy
     = Inr [5, 2, 1]"
  using corexy_roundtrip[of demo_corexy "demo_rail 0 ''stepper_x''" "demo_rail 1 ''stepper_y''"
      "demo_rail 2 ''stepper_z''" "[''stepper_x'' \<mapsto> 7, ''stepper_y'' \<mapsto> 3, ''stepper_z'' \<mapsto> 1]" 5 2 1]
  by (simp add: demo_corexy_def demo_rails_def demo_rail_def corexy_stepper_plus_calc_position_def
      corexy_stepper_minus_calc_position_def)



end
