(* ===== verification/Trapq.thy ===== *)
theory Trapq
  imports Extrusion
begin

text \<open>
  The trapezoid motion queue \<^verbatim>\<open>chelper/trapq.c\<close>, from which the step generators read
  positions.  The doubly linked list between the two sentinels is a list; the head sentinel
  never changes (all its fields are zero), so only the fields of the tail sentinel that the
  code updates are part of the state.  The history list has the latest move first.
\<close>

record coord =
  cx :: real
  cy :: real
  cz :: real

record tmove =
  print_time :: real
  move_t :: real
  start_v :: real
  half_accel :: real
  start_pos :: coord
  axes_r :: coord

record trapq =
  moves :: "tmove list"
  tail_print_time :: real
  tail_start_pos :: coord
  history :: "tmove list"

record pull_move =
  Print_time :: real
  Move_t :: real
  pm_Start_v :: real
  pm_Accel :: real
  Start_xyz :: coord
  R_xyz :: coord

definition NEVER_TIME :: real where
  "NEVER_TIME = 9999999999999999.9"

definition MAX_NULL_MOVE :: real where
  "MAX_NULL_MOVE = 1.0"

definition coord0 :: coord where
  "coord0 = \<lparr>cx = 0, cy = 0, cz = 0\<rparr>"

definition move_alloc :: tmove where
  "move_alloc = \<lparr>print_time = 0, move_t = 0, start_v = 0, half_accel = 0, start_pos = coord0,
     axes_r = coord0\<rparr>"

definition move_get_distance :: "tmove \<Rightarrow> real \<Rightarrow> real" where
  "move_get_distance m move_time = (start_v m + half_accel m * move_time) * move_time"

definition move_get_coord :: "tmove \<Rightarrow> real \<Rightarrow> coord" where
  "move_get_coord m move_time =
     (let move_dist = move_get_distance m move_time in
      \<lparr>cx = cx (start_pos m) + cx (axes_r m) * move_dist,
       cy = cy (start_pos m) + cy (axes_r m) * move_dist,
       cz = cz (start_pos m) + cz (axes_r m) * move_dist\<rparr>)"

definition trapq_alloc :: trapq where
  "trapq_alloc = \<lparr>moves = [], tail_print_time = NEVER_TIME, tail_start_pos = coord0, history = []\<rparr>"

definition trapq_check_sentinels :: "trapq \<Rightarrow> trapq" where
  "trapq_check_sentinels tq =
     (if tail_print_time tq \<noteq> 0 then tq
      else if moves tq = [] then tq\<lparr>tail_print_time := NEVER_TIME\<rparr>
      else let m = last (moves tq) in
           tq\<lparr>tail_print_time := print_time m + move_t m,
              tail_start_pos := move_get_coord m (move_t m)\<rparr>)"

definition trapq_add_move :: "tmove \<Rightarrow> trapq \<Rightarrow> trapq" where
  "trapq_add_move m tq =
     (let prev = (if moves tq = [] then move_alloc else last (moves tq));
          nulls = (if print_time prev + move_t prev < print_time m then
             let pt = (if print_time prev = 0 \<and> print_time m > MAX_NULL_MOVE
                       then print_time m - MAX_NULL_MOVE
                       else print_time prev + move_t prev)
             in [move_alloc\<lparr>start_pos := start_pos m, print_time := pt,
                            move_t := print_time m - pt\<rparr>]
           else [])
      in tq\<lparr>moves := moves tq @ nulls @ [m], tail_print_time := 0\<rparr>)"

definition trapq_append :: "real \<Rightarrow> real \<Rightarrow> real \<Rightarrow> real \<Rightarrow> coord \<Rightarrow> coord \<Rightarrow> real \<Rightarrow> real \<Rightarrow> real \<Rightarrow>
    trapq \<Rightarrow> trapq" where
  "trapq_append pt accel_t cruise_t decel_t pos0 r sv cruise_v accel tq0 =
     (let m1 = \<lparr>print_time = pt, move_t = accel_t, start_v = sv, half_accel = 0.5 * accel,
                start_pos = pos0, axes_r = r\<rparr>;
          (tq1, pt1, pos1) = (if accel_t \<noteq> 0
             then (trapq_add_move m1 tq0, pt + accel_t, move_get_coord m1 accel_t)
             else (tq0, pt, pos0));
          m2 = \<lparr>print_time = pt1, move_t = cruise_t, start_v = cruise_v, half_accel = 0,
                start_pos = pos1, axes_r = r\<rparr>;
          (tq2, pt2, pos2) = (if cruise_t \<noteq> 0
             then (trapq_add_move m2 tq1, pt1 + cruise_t, move_get_coord m2 cruise_t)
             else (tq1, pt1, pos1));
          m3 = \<lparr>print_time = pt2, move_t = decel_t, start_v = cruise_v, half_accel = - 0.5 * accel,
                start_pos = pos2, axes_r = r\<rparr>
      in if decel_t \<noteq> 0 then trapq_add_move m3 tq2 else tq2)"

text \<open>The first loop of \<open>trapq_finalize_moves\<close>: it returns the rest of the moves and the history.\<close>

fun expire_moves :: "real \<Rightarrow> tmove list \<Rightarrow> tmove list \<Rightarrow> tmove list \<times> tmove list" where
  "expire_moves t [] hist = ([], hist)"
| "expire_moves t (m # ms) hist =
     (if print_time m + move_t m > t then (m # ms, hist)
      else expire_moves t ms (if start_v m \<noteq> 0 \<or> half_accel m \<noteq> 0 then m # hist else hist))"

text \<open>The second loop drops old moves from the end, but never the latest one.\<close>

fun expire_history :: "real \<Rightarrow> tmove list \<Rightarrow> tmove list" where
  "expire_history t [] = []"
| "expire_history t (latest # older) =
     latest # rev (dropWhile (\<lambda>m. \<not> print_time m + move_t m > t) (rev older))"

definition trapq_finalize_moves :: "real \<Rightarrow> real \<Rightarrow> trapq \<Rightarrow> trapq" where
  "trapq_finalize_moves t clear_history_time tq =
     (case expire_moves t (moves tq) (history tq) of (ms, hist) \<Rightarrow>
        tq\<lparr>moves := ms, tail_print_time := (if ms = [] then NEVER_TIME else tail_print_time tq),
           history := expire_history clear_history_time hist\<rparr>)"

fun prune_history :: "real \<Rightarrow> tmove list \<Rightarrow> tmove list" where
  "prune_history t [] = []"
| "prune_history t (m # ms) =
     (if print_time m < t then
        (if print_time m + move_t m > t then m\<lparr>move_t := t - print_time m\<rparr> else m) # ms
      else prune_history t ms)"

definition trapq_set_position :: "real \<Rightarrow> coord \<Rightarrow> trapq \<Rightarrow> trapq" where
  "trapq_set_position t pos tq =
     (let tq1 = trapq_finalize_moves NEVER_TIME 0 tq
      in tq1\<lparr>history := move_alloc\<lparr>print_time := t, start_pos := pos\<rparr> # prune_history t (history tq1)\<rparr>)"

fun extract_loop :: "nat \<Rightarrow> real \<Rightarrow> real \<Rightarrow> nat \<Rightarrow> tmove list \<Rightarrow> pull_move list" where
  "extract_loop mx start_time end_time res [] = []"
| "extract_loop mx start_time end_time res (m # ms) =
     (if start_time \<ge> print_time m + move_t m \<or> res \<ge> mx then []
      else if end_time \<le> print_time m then extract_loop mx start_time end_time res ms
      else \<lparr>Print_time = print_time m, Move_t = move_t m, pm_Start_v = start_v m,
             pm_Accel = 2 * half_accel m, Start_xyz = start_pos m, R_xyz = axes_r m\<rparr>
           # extract_loop mx start_time end_time (Suc res) ms)"

definition trapq_extract_old :: "nat \<Rightarrow> real \<Rightarrow> real \<Rightarrow> trapq \<Rightarrow> pull_move list" where
  "trapq_extract_old mx start_time end_time tq = extract_loop mx start_time end_time 0 (history tq)"

section \<open>Feeding batches\<close>

definition xyz :: "real list \<Rightarrow> coord" where
  "xyz p = \<lparr>cx = p ! 0, cy = p ! 1, cz = p ! 2\<rparr>"

text \<open>The toolhead's sink: how a batch's kinematic moves reach the queue.\<close>

fun feed_event :: "batch_event \<Rightarrow> trapq \<Rightarrow> trapq" where
  "feed_event (QueueKinematicMove t m) tq =
     trapq_append t (Accel_t m) (Cruise_t m) (Decel_t m) (xyz (Start_pos m)) (xyz (Axes_r m))
       (Start_v m) (Cruise_v m) (Accel m) tq"
| "feed_event (QueueExtruderMove t m) tq = tq"
| "feed_event (TimingCallback cb t) tq = tq"

section \<open>Continuity of the queued motion\<close>

definition seg_end_v :: "tmove \<Rightarrow> real" where
  "seg_end_v s = start_v s + 2 * half_accel s * move_t s"

text \<open>Two segments fit: in time, in position and in speed.\<close>

definition seg_joined :: "tmove \<Rightarrow> tmove \<Rightarrow> bool" where
  "seg_joined a b \<longleftrightarrow> print_time a + move_t a = print_time b \<and>
     move_get_coord a (move_t a) = start_pos b \<and> seg_end_v a = start_v b"

text \<open>
  The queue's motion is continuous, and continues at time \<open>t\<close> from \<open>pos\<close> with speed \<open>v\<close>
  (from rest if the last segment ended earlier).
\<close>

definition tq_at :: "trapq \<Rightarrow> real \<Rightarrow> coord \<Rightarrow> real \<Rightarrow> bool" where
  "tq_at tq t pos v \<longleftrightarrow> adjacent seg_joined (moves tq) \<and>
     (if moves tq = [] then v = 0
      else 0 < print_time (last (moves tq)) \<and>
           print_time (last (moves tq)) + move_t (last (moves tq)) \<le> t \<and>
           move_get_coord (last (moves tq)) (move_t (last (moves tq))) = pos \<and>
           seg_end_v (last (moves tq)) = v \<and>
           (print_time (last (moves tq)) + move_t (last (moves tq)) < t \<longrightarrow> v = 0))"

lemma move_get_coord_0 [simp]: "move_get_coord s 0 = start_pos s"
  by (simp add: move_get_coord_def move_get_distance_def)

lemma null_coord [simp]:
  "move_get_coord (move_alloc\<lparr>start_pos := p, print_time := a, move_t := b\<rparr>) t = p"
  by (simp add: move_get_coord_def move_get_distance_def move_alloc_def coord0_def)

lemma null_speed [simp]:
  "seg_end_v (move_alloc\<lparr>start_pos := p, print_time := a, move_t := b\<rparr>) = 0"
  "start_v (move_alloc\<lparr>start_pos := p, print_time := a, move_t := b\<rparr>) = 0"
  by (simp_all add: seg_end_v_def move_alloc_def)

lemma add_move_at:
  assumes "tq_at tq (print_time s) (start_pos s) (start_v s)" and "0 < print_time s"
  shows "tq_at (trapq_add_move s tq) (print_time s + move_t s) (move_get_coord s (move_t s)) (seg_end_v s)"
proof (cases "moves tq = []")
  case True
  with assms show ?thesis
    by (auto simp: tq_at_def trapq_add_move_def Let_def seg_joined_def move_alloc_def coord0_def
        move_get_coord_def move_get_distance_def seg_end_v_def)
next
  case False
  define p where "p = last (moves tq)"
  have p: "0 < print_time p" "print_time p + move_t p \<le> print_time s"
    "move_get_coord p (move_t p) = start_pos s" "seg_end_v p = start_v s"
    "print_time p + move_t p < print_time s \<Longrightarrow> start_v s = 0"
    using assms(1) False by (auto simp: tq_at_def p_def)
  have adj: "adjacent seg_joined (moves tq)" using assms(1) by (simp add: tq_at_def)
  show ?thesis
  proof (cases "print_time p + move_t p < print_time s")
    case True
    define n where "n = move_alloc\<lparr>start_pos := start_pos s, print_time := print_time p + move_t p,
        move_t := print_time s - (print_time p + move_t p)\<rparr>"
    have "seg_joined p n" "seg_joined n s" using p(3-5) True
      by (auto simp: seg_joined_def n_def)
    then have "adjacent seg_joined (moves tq @ [n, s])"
      using adj False by (auto simp: adjacent_append p_def)
    moreover have "moves (trapq_add_move s tq) = moves tq @ [n, s]"
      using False True p(1) by (simp add: trapq_add_move_def Let_def n_def flip: p_def)
    ultimately show ?thesis using assms(2) by (simp add: tq_at_def)
  next
    case no_gap: False
    then have "seg_joined p s" using p by (simp add: seg_joined_def)
    moreover have "moves (trapq_add_move s tq) = moves tq @ [s]"
      using False no_gap by (simp add: trapq_add_move_def Let_def flip: p_def)
    ultimately show ?thesis using assms(2) adj False by (simp add: tq_at_def p_def)
  qed
qed

definition add_part :: "tmove \<Rightarrow> trapq \<Rightarrow> trapq" where
  "add_part s tq = (if move_t s \<noteq> 0 then trapq_add_move s tq else tq)"

lemma add_part_at:
  assumes "tq_at tq (print_time s) (start_pos s) (start_v s)" and "0 < print_time s"
  shows "tq_at (add_part s tq) (print_time s + move_t s) (move_get_coord s (move_t s)) (seg_end_v s)"
  using add_move_at[OF assms] assms(1) by (auto simp: add_part_def seg_end_v_def)

lemma trapq_append_parts:
  defines "s1 \<equiv> \<lambda>pt ta pos r sv a. \<lparr>print_time = pt, move_t = ta, start_v = sv, half_accel = 0.5 * a,
      start_pos = pos, axes_r = r\<rparr>"
    and "s2 \<equiv> \<lambda>pt tc pos r cv. \<lparr>print_time = pt, move_t = tc, start_v = cv, half_accel = 0,
      start_pos = pos, axes_r = r\<rparr>"
  shows "trapq_append pt ta tc td pos r sv cv a tq =
    (let m1 = s1 pt ta pos r sv a; p1 = move_get_coord m1 ta;
         m2 = s2 (pt + ta) tc p1 r cv; p2 = move_get_coord m2 tc
     in add_part (s1 (pt + ta + tc) td p2 r cv (- a)) (add_part m2 (add_part m1 tq)))"
  by (cases "ta = 0"; cases "tc = 0"; cases "td = 0")
    (simp_all add: trapq_append_def Let_def add_part_def s1_def s2_def)

text \<open>Where a move ends, seen from its start, direction and length.\<close>

definition advance :: "coord \<Rightarrow> coord \<Rightarrow> real \<Rightarrow> coord" where
  "advance p r d = \<lparr>cx = cx p + cx r * d, cy = cy p + cy r * d, cz = cz p + cz r * d\<rparr>"

lemma move_get_coord_advance: "move_get_coord s t = advance (start_pos s) (axes_r s) (move_get_distance s t)"
  by (simp add: move_get_coord_def advance_def Let_def)

lemma advance_advance [simp]: "advance (advance p r d) r e = advance p r (d + e)"
  by (simp add: advance_def algebra_simps)

lemma append_at:
  assumes "tq_at tq t pos (Start_v m)" and "trapezoid m" and "0 < t"
  shows "tq_at (trapq_append t (Accel_t m) (Cruise_t m) (Decel_t m) pos r (Start_v m) (Cruise_v m)
           (Accel m) tq) (t + move_duration m) (advance pos r (Move_d m)) (End_v m)"
proof -
  define m1 where "m1 = \<lparr>print_time = t, move_t = Accel_t m, start_v = Start_v m,
      half_accel = 0.5 * Accel m, start_pos = pos, axes_r = r\<rparr>"
  define p1 where "p1 = move_get_coord m1 (Accel_t m)"
  define m2 where "m2 = \<lparr>print_time = t + Accel_t m, move_t = Cruise_t m, start_v = Cruise_v m,
      half_accel = 0, start_pos = p1, axes_r = r\<rparr>"
  define p2 where "p2 = move_get_coord m2 (Cruise_t m)"
  define m3 where "m3 = \<lparr>print_time = t + Accel_t m + Cruise_t m, move_t = Decel_t m,
      start_v = Cruise_v m, half_accel = 0.5 * (- Accel m), start_pos = p2, axes_r = r\<rparr>"
  have T: "0 \<le> Accel_t m" "0 \<le> Cruise_t m" "Cruise_v m = Start_v m + Accel m * Accel_t m"
    "Cruise_v m = End_v m + Accel m * Decel_t m"
    "(Start_v m + Cruise_v m) / 2 * Accel_t m + Cruise_v m * Cruise_t m
       + (Cruise_v m + End_v m) / 2 * Decel_t m = Move_d m"
    using assms(2) by (auto simp: trapezoid_def)
  have sp: "seg_end_v m1 = Cruise_v m" "seg_end_v m2 = Cruise_v m" "seg_end_v m3 = End_v m"
    using T(3,4) by (simp_all add: seg_end_v_def m1_def m2_def m3_def)
  have a1: "tq_at (add_part m1 tq) (t + Accel_t m) p1 (Cruise_v m)"
    using add_part_at[of tq m1] assms sp(1) by (simp add: m1_def p1_def)
  have a2: "tq_at (add_part m2 (add_part m1 tq)) (t + Accel_t m + Cruise_t m) p2 (Cruise_v m)"
    using add_part_at[of _ m2] a1 sp(2) assms(3) T(1) by (simp add: m2_def p2_def)
  have a3: "tq_at (add_part m3 (add_part m2 (add_part m1 tq)))
      (t + Accel_t m + Cruise_t m + Decel_t m) (move_get_coord m3 (Decel_t m)) (End_v m)"
    using add_part_at[of _ m3] a2 sp(3) assms(3) T(1,2) by (simp add: m3_def)
  have d1: "move_get_distance m1 (Accel_t m) = (Start_v m + Cruise_v m) / 2 * Accel_t m"
    unfolding T(3) by (simp add: move_get_distance_def m1_def algebra_simps)
  have d2: "move_get_distance m2 (Cruise_t m) = Cruise_v m * Cruise_t m"
    by (simp add: move_get_distance_def m2_def)
  have d3: "move_get_distance m3 (Decel_t m) = (Cruise_v m + End_v m) / 2 * Decel_t m"
    by (simp add: move_get_distance_def m3_def T(4) algebra_simps)
  have p1: "p1 = advance pos r ((Start_v m + Cruise_v m) / 2 * Accel_t m)"
    unfolding p1_def move_get_coord_advance d1 by (simp add: m1_def)
  have p2: "p2 = advance p1 r (Cruise_v m * Cruise_t m)"
    unfolding p2_def move_get_coord_advance d2 by (simp add: m2_def)
  have "move_get_coord m3 (Decel_t m) = advance p2 r ((Cruise_v m + End_v m) / 2 * Decel_t m)"
    unfolding move_get_coord_advance d3 by (simp add: m3_def)
  also have "\<dots> = advance pos r (Move_d m)" unfolding p2 p1 advance_advance T(5) by simp
  finally have "move_get_coord m3 (Decel_t m) = advance pos r (Move_d m)" .
  moreover have "t + Accel_t m + Cruise_t m + Decel_t m = t + move_duration m"
    by (simp add: move_duration_def)
  ultimately show ?thesis
    using a3 unfolding trapq_append_parts Let_def m1_def[symmetric]
    unfolding p1_def[symmetric] unfolding m2_def[symmetric] unfolding p2_def[symmetric]
    unfolding m3_def[symmetric] by (simp only:)
qed

section \<open>Batches\<close>

text \<open>
  The geometry of a move: a kinematic one ends where its direction and length lead, an
  extrude-only one stays where it is.
\<close>

definition move_geometry :: "Move \<Rightarrow> bool" where
  "move_geometry m \<longleftrightarrow>
     (if Is_kinematic_move m then xyz (End_pos m) = advance (xyz (Start_pos m)) (xyz (Axes_r m)) (Move_d m)
      else xyz (End_pos m) = xyz (Start_pos m))"

definition follows :: "Move \<Rightarrow> Move \<Rightarrow> bool" where
  "follows a b \<longleftrightarrow> End_v a = Start_v b \<and> xyz (End_pos a) = xyz (Start_pos b)"

definition standing :: "Move \<Rightarrow> bool" where
  "standing m \<longleftrightarrow> (\<not> Is_kinematic_move m \<longrightarrow> Start_v m = 0 \<and> End_v m = 0)"

lemma NewMove_geometry:
  assumes "NewMove c sp ep speed = Inr m"
  shows "move_geometry m"
proof (cases "Is_kinematic_move m")
  case True
  have "End_pos m = ep" "Start_pos m = sp"
    using assms True by (auto simp: NewMove_def Let_def split: if_splits)
  with True NewMove_direction(2)[OF assms True, of 0] NewMove_direction(2)[OF assms True, of 1]
    NewMove_direction(2)[OF assms True, of 2]
  show ?thesis by (simp add: move_geometry_def advance_def xyz_def)
next
  case False
  with assms show ?thesis
    by (auto simp: NewMove_def Let_def move_geometry_def xyz_def split: if_splits)
qed

lemma planned_geometry:
  "planned_from r m \<Longrightarrow> move_geometry r = move_geometry m"
  "move_geometry (Limit_speed v a m) = move_geometry m"
  "move_geometry (Limit_next_junction_speed v m) = move_geometry m"
  by (auto simp: planned_from_def Set_junction_def Limit_next_junction_speed_def move_geometry_def Let_def)

lemma Calc_junction_geometry_kept: "move_geometry (Calc_junction e p m) = move_geometry m"
  by (cases rule: Calc_junction_shape[of e p m]) (auto simp: move_geometry_def)

lemma feed_callbacks: "fold feed_event (map (\<lambda>cb. TimingCallback cb t) cbs) tq = tq"
  by (induction cbs) auto

lemma feed_move:
  assumes "tq_at tq t (xyz (Start_pos m)) (Start_v m)" and "trapezoid m" and "0 < t"
    and "move_geometry m" and "standing m"
  shows "tq_at (if Is_kinematic_move m then feed_event (QueueKinematicMove t m) tq else tq)
     (t + move_duration m) (xyz (End_pos m)) (End_v m)"
proof (cases "Is_kinematic_move m")
  case True
  with append_at[OF assms(1-3)] assms(4) show ?thesis by (simp add: move_geometry_def)
next
  case False
  with assms(4,5) have "xyz (End_pos m) = xyz (Start_pos m)" "Start_v m = 0" "End_v m = 0"
    by (auto simp: move_geometry_def standing_def)
  with False assms(1) trapezoid_time[OF assms(2)] show ?thesis by (auto simp: tq_at_def)
qed

lemma feed_batch:
  assumes "list_all trapezoid ms" and "list_all move_geometry ms" and "list_all standing ms"
    and "adjacent follows ms" and "ms \<noteq> []" and "0 < t"
    and "tq_at tq t (xyz (Start_pos (hd ms))) (Start_v (hd ms))"
  shows "tq_at (fold feed_event (fst (QueueMoveBatch t ms)) tq) (snd (QueueMoveBatch t ms))
     (xyz (End_pos (last ms))) (End_v (last ms))"
  using assms
proof (induction ms arbitrary: t tq)
  case (Cons m ms)
  let ?t = "t + (Accel_t m + Cruise_t m + Decel_t m)"
  define tq' where "tq' = (if Is_kinematic_move m then feed_event (QueueKinematicMove t m) tq else tq)"
  have at: "tq_at tq' ?t (xyz (End_pos m)) (End_v m)"
    using feed_move[of tq t m] Cons.prems by (simp add: tq'_def move_duration_def)
  have fold: "fold feed_event (fst (QueueMoveBatch t (m # ms))) tq
      = fold feed_event (fst (QueueMoveBatch ?t ms)) tq'"
    by (simp add: Let_def feed_callbacks tq'_def)
  show ?case
  proof (cases ms)
    case Nil
    with at show ?thesis unfolding fold by (simp add: Let_def)
  next
    case ns: (Cons n ns)
    have "tq_at tq' ?t (xyz (Start_pos n)) (Start_v n)"
      using at Cons.prems(4) ns by (simp add: follows_def)
    moreover have "0 < ?t"
      using Cons.prems(1,6) trapezoid_time[of m] by (simp add: move_duration_def)
    ultimately have "tq_at (fold feed_event (fst (QueueMoveBatch ?t ms)) tq') (snd (QueueMoveBatch ?t ms))
        (xyz (End_pos (last ms))) (End_v (last ms))"
      using Cons.prems ns by (intro Cons.IH) (auto dest: adjacent_tl)
    then show ?thesis unfolding fold using ns by (simp add: Let_def)
  qed
qed simp

section \<open>Expiry\<close>

definition seg_end :: "tmove \<Rightarrow> real" where
  "seg_end s = print_time s + move_t s"

lemma expire_moves_spec:
  "expire_moves t ms hist =
     (dropWhile (\<lambda>m. seg_end m \<le> t) ms,
      rev (filter (\<lambda>m. start_v m \<noteq> 0 \<or> half_accel m \<noteq> 0) (takeWhile (\<lambda>m. seg_end m \<le> t) ms)) @ hist)"
  by (induction t ms hist rule: expire_moves.induct) (auto simp: seg_end_def)

lemma adjacent_end_mono:
  assumes "adjacent seg_joined ms" and "\<forall>m\<in>set ms. 0 \<le> move_t m"
  shows "sorted (map seg_end ms)"
  using assms
proof (induction ms)
  case (Cons m ms)
  then show ?case
    by (cases ms) (auto simp: seg_joined_def seg_end_def simp del: sorted_simps simp add: sorted2)
qed simp

lemma dropWhile_sorted:
  "sorted (map f xs) \<Longrightarrow> dropWhile (\<lambda>x. f x \<le> t) xs = filter (\<lambda>x. t < (f x :: real)) xs"
proof (induction xs)
  case (Cons x xs)
  then have "filter (\<lambda>x. t < f x) xs = xs" if "t < f x"
    using that by (force simp: filter_id_conv)
  with Cons show ?case by (cases "f x \<le> t") auto
qed simp

lemma in_dropWhile: "x \<in> set xs \<Longrightarrow> \<not> P x \<Longrightarrow> x \<in> set (dropWhile P xs)"
  by (induction xs) auto

lemma expire_history_keeps:
  "x \<in> set hist \<Longrightarrow> t < seg_end x \<Longrightarrow> x \<in> set (expire_history t hist)"
  by (cases hist) (auto simp: seg_end_def intro: in_dropWhile)

lemma expire_history_subset: "set (expire_history t hist) \<subseteq> set hist"
  by (cases hist) (auto dest: set_dropWhileD)

definition pull_of :: "tmove \<Rightarrow> pull_move" where
  "pull_of m = \<lparr>Print_time = print_time m, Move_t = move_t m, pm_Start_v = start_v m,
     pm_Accel = 2 * half_accel m, Start_xyz = start_pos m, R_xyz = axes_r m\<rparr>"

lemma extract_loop_spec:
  assumes "sorted_wrt (\<lambda>a b. seg_end b \<le> seg_end a) ms"
  shows "extract_loop mx s e res ms =
    map pull_of (take (mx - res) (filter (\<lambda>m. s < seg_end m \<and> print_time m < e) ms))"
  using assms
proof (induction mx s e res ms rule: extract_loop.induct)
  case (2 mx s e res m ms)
  show ?case
  proof (cases "s < seg_end m \<and> res < mx")
    case True
    then have "mx - res = Suc (mx - Suc res)" by (auto simp: Suc_diff_Suc)
    with 2 True show ?thesis by (auto simp: seg_end_def pull_of_def)
  next
    case False
    moreover have "filter (\<lambda>m. s < seg_end m \<and> print_time m < e) (m # ms) = []" if "\<not> s < seg_end m"
      using that 2(3) by (fastforce simp: filter_empty_conv)
    ultimately show ?thesis by (auto simp: seg_end_def)
  qed
qed simp

section \<open>Properties\<close>

text \<open>
  C15. Feeding a planned batch to the motion queue yields a continuous motion: if the moves
  are feasible trapezoids that follow each other in position and speed, and extrude-only
  moves are entered and left at rest, then after the batch all consecutive segments of the
  queue fit in time, position and speed, gaps are filled by standing still, and the motion
  ends at the batch's end time exactly at the last move's end position and end speed.
\<close>

theorem batch_motion_continuous:
  assumes "list_all trapezoid ms" and "list_all move_geometry ms" and "list_all standing ms"
    and "adjacent follows ms" and "ms \<noteq> []" and "0 < t"
    and "tq_at tq t (xyz (Start_pos (hd ms))) (Start_v (hd ms))"
  shows "adjacent seg_joined (moves (fold feed_event (fst (QueueMoveBatch t ms)) tq)) \<and>
    tq_at (fold feed_event (fst (QueueMoveBatch t ms)) tq) (snd (QueueMoveBatch t ms))
      (xyz (End_pos (last ms))) (End_v (last ms))"
  using feed_batch[OF assms] by (simp add: tq_at_def)

theorem batch_motion_continuous_witness:
  "adjacent seg_joined (moves (fold feed_event
     (fst (QueueMoveBatch 3 [Set_junction 0 1 0 unit_move])) trapq_alloc))"
  using batch_motion_continuous[of "[Set_junction 0 1 0 unit_move]" 3 trapq_alloc] unit_trapezoid
  by (simp add: tq_at_def trapq_alloc_def move_geometry_def standing_def xyz_def advance_def
      Set_junction_def unit_move_def)

text \<open>
  C16. Expiring moves loses nothing that is still needed: exactly the segments that end after
  the given time stay queued, every expired segment that moved and ended after the clear time
  is kept in the history, and the history gets nothing else.
\<close>

theorem trapq_finalize_moves_safe:
  assumes "adjacent seg_joined (moves tq)" and "\<forall>m\<in>set (moves tq). 0 \<le> move_t m"
  shows "moves (trapq_finalize_moves t clear tq) = filter (\<lambda>m. t < seg_end m) (moves tq) \<and>
    (\<forall>m\<in>set (moves tq). seg_end m \<le> t \<and> clear < seg_end m \<and> (start_v m \<noteq> 0 \<or> half_accel m \<noteq> 0)
       \<longrightarrow> m \<in> set (history (trapq_finalize_moves t clear tq))) \<and>
    (\<forall>m\<in>set (history tq). clear < seg_end m \<longrightarrow> m \<in> set (history (trapq_finalize_moves t clear tq))) \<and>
    set (history (trapq_finalize_moves t clear tq)) \<subseteq>
      set (history tq) \<union> {m \<in> set (moves tq). seg_end m \<le> t}"
proof -
  note s = adjacent_end_mono[OF assms]
  have tw: "x \<in> set (takeWhile (\<lambda>m. seg_end m \<le> t) (moves tq))"
    if "x \<in> set (moves tq)" "seg_end x \<le> t" for x
  proof -
    have "x \<in> set (takeWhile (\<lambda>m. seg_end m \<le> t) (moves tq) @ dropWhile (\<lambda>m. seg_end m \<le> t) (moves tq))"
      using that by simp
    then show ?thesis using that(2) unfolding dropWhile_sorted[OF s] by auto
  qed
  show ?thesis
    using tw expire_history_subset
    by (auto simp: trapq_finalize_moves_def expire_moves_spec dropWhile_sorted[OF s]
        intro!: expire_history_keeps dest!: expire_history_subset[THEN subsetD] set_takeWhileD)
qed

theorem trapq_finalize_moves_safe_witness:
  "moves (trapq_finalize_moves 4 0 (trapq_append 1 1 1 1 coord0 \<lparr>cx = 1, cy = 0, cz = 0\<rparr> 0 1 1 trapq_alloc))
     = []"
proof -
  define tq where "tq = trapq_append 1 1 1 1 coord0 \<lparr>cx = 1, cy = 0, cz = 0\<rparr> 0 1 1 trapq_alloc"
  have ms: "moves tq = [move_alloc\<lparr>print_time := 0, move_t := 1\<rparr>,
      \<lparr>print_time = 1, move_t = 1, start_v = 0, half_accel = 1 / 2, start_pos = coord0,
       axes_r = \<lparr>cx = 1, cy = 0, cz = 0\<rparr>\<rparr>,
      \<lparr>print_time = 2, move_t = 1, start_v = 1, half_accel = 0, start_pos = \<lparr>cx = 1 / 2, cy = 0, cz = 0\<rparr>,
       axes_r = \<lparr>cx = 1, cy = 0, cz = 0\<rparr>\<rparr>,
      \<lparr>print_time = 3, move_t = 1, start_v = 1, half_accel = - (1 / 2), start_pos = \<lparr>cx = 3 / 2, cy = 0, cz = 0\<rparr>,
       axes_r = \<lparr>cx = 1, cy = 0, cz = 0\<rparr>\<rparr>]"
    by (simp add: tq_def trapq_append_def trapq_add_move_def trapq_alloc_def move_alloc_def
        MAX_NULL_MOVE_def move_get_coord_def move_get_distance_def coord0_def)
  have "adjacent seg_joined (moves tq)"
    unfolding ms by (simp add: seg_joined_def seg_end_v_def move_alloc_def move_get_coord_def
        move_get_distance_def coord0_def)
  from trapq_finalize_moves_safe[OF this, of 4 0] show ?thesis
    unfolding tq_def[symmetric] ms by (simp add: ms seg_end_def move_alloc_def)
qed

text \<open>
  C17. Reading the history returns, latest first and at most the requested number, exactly
  the moves whose time span overlaps the requested one.
\<close>

theorem trapq_extract_old_exact:
  assumes "sorted_wrt (\<lambda>a b. seg_end b \<le> seg_end a) (history tq)"
  shows "trapq_extract_old mx s e tq =
    map pull_of (take mx (filter (\<lambda>m. s < seg_end m \<and> print_time m < e) (history tq)))"
  using extract_loop_spec[OF assms] by (simp add: trapq_extract_old_def)

theorem trapq_extract_old_exact_witness:
  "trapq_extract_old 5 0 10 (trapq_alloc\<lparr>history := [move_alloc\<lparr>print_time := 3\<rparr>]\<rparr>)
     = [pull_of (move_alloc\<lparr>print_time := 3\<rparr>)]"
  using trapq_extract_old_exact[of "trapq_alloc\<lparr>history := [move_alloc\<lparr>print_time := 3\<rparr>]\<rparr>" 5 0 10]
  by (simp add: seg_end_def move_alloc_def)

end
