(* ===== verification/ToolheadTiming.thy ===== *)
theory ToolheadTiming
  imports Extrusion
begin

text \<open>
  The toolhead's bookkeeping of time and limits: \<^verbatim>\<open>toolhead_runtime.go\<close>, \<^verbatim>\<open>toolhead_flush.go\<close>,
  \<^verbatim>\<open>toolhead_pause.go\<close>, \<^verbatim>\<open>toolhead_config.go\<close> and the velocity limits of
  \<^verbatim>\<open>toolhead_control_runtime.go\<close>.  The callbacks of a flush are recorded as events.  The
  loops that wait for the clock are partial functions into \<open>option\<close>: \<open>None\<close> means that the
  loop does not end.
\<close>

definition NOW :: real where "NOW = 0"
definition NEVER :: real where "NEVER = 9999999999999999"

section \<open>Velocity limits\<close>

record ToolheadVelocitySettings =
  vs_MaxVelocity :: real
  vs_MaxAccel :: real
  vs_RequestedAccelToDecel :: real
  vs_SquareCornerVelocity :: real

record ToolheadVelocityLimitUpdate =
  up_MaxVelocity :: "real option"
  up_MaxAccel :: "real option"
  up_RequestedAccelToDecel :: "real option"
  up_SquareCornerVelocity :: "real option"

text \<open>The summary text is represented by the five numbers it prints.\<close>

record ToolheadVelocityLimitResult =
  vr_Settings :: ToolheadVelocitySettings
  vr_JunctionDeviation :: real
  vr_MaxAccelToDecel :: real
  vr_Summary :: "real list"

definition CalcMinimumCruiseRatio :: "real \<Rightarrow> real \<Rightarrow> real" where
  "CalcMinimumCruiseRatio maxAccel requestedAccelToDecel =
     (if maxAccel \<le> 0 then 0
      else let ratio = 1 - requestedAccelToDecel / maxAccel
           in if ratio < 0 then 0 else if ratio > 1 then 1 else ratio)"

definition CalcToolheadJunctionDeviation :: "real \<Rightarrow> real \<Rightarrow> real \<Rightarrow> real \<times> real" where
  "CalcToolheadJunctionDeviation squareCornerVelocity maxAccel requestedAccelToDecel =
     (let scv2 = squareCornerVelocity * squareCornerVelocity
      in (scv2 * (sqrt 2 - 1) / maxAccel, min requestedAccelToDecel maxAccel))"

definition opt_else :: "'a option \<Rightarrow> 'a \<Rightarrow> 'a" where
  "opt_else v d = (case v of None \<Rightarrow> d | Some x \<Rightarrow> x)"

definition ApplyToolheadVelocityLimitUpdate ::
  "ToolheadVelocitySettings \<Rightarrow> ToolheadVelocityLimitUpdate \<Rightarrow> ToolheadVelocityLimitResult" where
  "ApplyToolheadVelocityLimitUpdate settings update =
     (let s = \<lparr>vs_MaxVelocity = opt_else (up_MaxVelocity update) (vs_MaxVelocity settings),
               vs_MaxAccel = opt_else (up_MaxAccel update) (vs_MaxAccel settings),
               vs_RequestedAccelToDecel =
                 opt_else (up_RequestedAccelToDecel update) (vs_RequestedAccelToDecel settings),
               vs_SquareCornerVelocity =
                 opt_else (up_SquareCornerVelocity update) (vs_SquareCornerVelocity settings)\<rparr>;
          jd = CalcToolheadJunctionDeviation (vs_SquareCornerVelocity s) (vs_MaxAccel s)
                 (vs_RequestedAccelToDecel s)
      in \<lparr>vr_Settings = s, vr_JunctionDeviation = fst jd, vr_MaxAccelToDecel = snd jd,
          vr_Summary = [vs_MaxVelocity s, vs_MaxAccel s,
            CalcMinimumCruiseRatio (vs_MaxAccel s) (vs_RequestedAccelToDecel s),
            vs_RequestedAccelToDecel s, vs_SquareCornerVelocity s]\<rparr>)"

definition no_velocity_update :: ToolheadVelocityLimitUpdate where
  "no_velocity_update = \<lparr>up_MaxVelocity = None, up_MaxAccel = None, up_RequestedAccelToDecel = None,
     up_SquareCornerVelocity = None\<rparr>"

definition BuildToolheadInitialVelocityResult :: "ToolheadVelocitySettings \<Rightarrow> ToolheadVelocityLimitResult" where
  "BuildToolheadInitialVelocityResult settings =
     ApplyToolheadVelocityLimitUpdate settings no_velocity_update"

section \<open>The core state\<close>

record ToolheadCoreState =
  CommandedPos :: "real list"
  MaxVelocity :: real
  MaxAccel :: real
  RequestedAccelToDecel :: real
  MaxAccelToDecel :: real
  SquareCornerVelocity :: real
  JunctionDeviation :: real
  PrintTime :: real
  CheckStallTime :: real
  SpecialQueuingState :: string
  NeedCheckPause :: real
  PrintStall :: real
  KinFlushDelay :: real
  KinFlushTimes :: "real list"
  LastStepGenTime :: real
  LastFlushTime :: real
  MinRestartTime :: real
  NeedFlushTime :: real
  StepGenTime :: real
  ClearHistoryTime :: real
  DoKickFlushTimer :: bool
  CanPause :: bool

definition DefaultSdsCheckTime :: real where
  "DefaultSdsCheckTime = 0.001"

definition NewToolheadCoreState :: "bool \<Rightarrow> ToolheadCoreState" where
  "NewToolheadCoreState canPause =
     \<lparr>CommandedPos = [0, 0, 0, 0], MaxVelocity = 0, MaxAccel = 0, RequestedAccelToDecel = 0,
      MaxAccelToDecel = 0, SquareCornerVelocity = 0, JunctionDeviation = 0, PrintTime = 0,
      CheckStallTime = 0, SpecialQueuingState = ''NeedPrime'', NeedCheckPause = - 1, PrintStall = 0,
      KinFlushDelay = DefaultSdsCheckTime, KinFlushTimes = [], LastStepGenTime = 0,
      LastFlushTime = 0, MinRestartTime = 0, NeedFlushTime = 0, StepGenTime = 0,
      ClearHistoryTime = 0, DoKickFlushTimer = True, CanPause = canPause\<rparr>"

definition VelocitySettings :: "ToolheadCoreState \<Rightarrow> ToolheadVelocitySettings" where
  "VelocitySettings c = \<lparr>vs_MaxVelocity = MaxVelocity c, vs_MaxAccel = MaxAccel c,
     vs_RequestedAccelToDecel = RequestedAccelToDecel c,
     vs_SquareCornerVelocity = SquareCornerVelocity c\<rparr>"

definition ApplyVelocityLimitResult :: "ToolheadVelocityLimitResult \<Rightarrow> ToolheadCoreState \<Rightarrow> ToolheadCoreState" where
  "ApplyVelocityLimitResult result c =
     c\<lparr>MaxVelocity := vs_MaxVelocity (vr_Settings result),
       MaxAccel := vs_MaxAccel (vr_Settings result),
       RequestedAccelToDecel := vs_RequestedAccelToDecel (vr_Settings result),
       SquareCornerVelocity := vs_SquareCornerVelocity (vr_Settings result),
       JunctionDeviation := vr_JunctionDeviation result,
       MaxAccelToDecel := vr_MaxAccelToDecel result\<rparr>"

definition core_MoveConfig :: "ToolheadCoreState \<Rightarrow> MoveConfig" where
  "core_MoveConfig c = \<lparr>Max_accel = MaxAccel c, cfg_Junction_deviation = JunctionDeviation c,
     Max_velocity = MaxVelocity c, Max_accel_to_decel = MaxAccelToDecel c\<rparr>"

section \<open>Flush and move time\<close>

record ToolheadTimingConfig =
  BufferTimeStart :: real
  MinKinTime :: real
  MoveBatchTime :: real
  MoveHistoryExpire :: real
  ScanTimeOffset :: real
  StepcompressFlushTime :: real

definition DefaultTimingConfig :: ToolheadTimingConfig where
  "DefaultTimingConfig = \<lparr>BufferTimeStart = 0.250, MinKinTime = 0.100, MoveBatchTime = 0.500,
     MoveHistoryExpire = 30, ScanTimeOffset = DefaultSdsCheckTime, StepcompressFlushTime = 0.050\<rparr>"

text \<open>
  The timing operations work on a copy of part of the core state and write it back; the
  model works on the core state, of which they change only that part.
\<close>

datatype flush_event =
    StepGenerator nat real
  | FinalizeMoves real real
  | UpdateExtruderMoveTime real real
  | FlushMoves nat real real

record FlushActions =
  StepGenerators :: nat
  has_FinalizeMoves :: bool
  has_UpdateExtruderMoveTime :: bool
  FlushDrivers :: nat

definition AdvanceFlushTime :: "real \<Rightarrow> ToolheadTimingConfig \<Rightarrow> FlushActions \<Rightarrow> ToolheadCoreState \<Rightarrow>
    ToolheadCoreState \<times> flush_event list" where
  "AdvanceFlushTime flushTime0 config actions c =
     (let flushTime = max flushTime0 (LastFlushTime c);
          sgFlushWant = min (flushTime + StepcompressFlushTime config) (PrintTime c - KinFlushDelay c);
          sgFlushTime = max sgFlushWant flushTime;
          freeTime = sgFlushTime - KinFlushDelay c;
          clearHistoryTime = (if \<not> CanPause c then max 0 (freeTime - MoveHistoryExpire config)
                              else ClearHistoryTime c)
      in (c\<lparr>LastStepGenTime := sgFlushTime, MinRestartTime := max (MinRestartTime c) sgFlushTime,
            LastFlushTime := flushTime\<rparr>,
          map (\<lambda>i. StepGenerator i sgFlushTime) [0..<StepGenerators actions] @
          (if has_FinalizeMoves actions then [FinalizeMoves freeTime clearHistoryTime] else []) @
          (if has_UpdateExtruderMoveTime actions
           then [UpdateExtruderMoveTime freeTime clearHistoryTime] else []) @
          map (\<lambda>i. FlushMoves i flushTime clearHistoryTime) [0..<FlushDrivers actions]))"

partial_function (option) move_time_loop :: "real \<Rightarrow> real \<Rightarrow> ToolheadTimingConfig \<Rightarrow> FlushActions \<Rightarrow>
    ToolheadCoreState \<Rightarrow> flush_event list \<Rightarrow> (ToolheadCoreState \<times> flush_event list) option" where
  "move_time_loop flushTime wantFlushTime config actions c evs =
     (let ft = min (flushTime + MoveBatchTime config) wantFlushTime;
          r = AdvanceFlushTime ft config actions c
      in if ft \<ge> wantFlushTime then Some (fst r, evs @ snd r)
         else move_time_loop ft wantFlushTime config actions (fst r) (evs @ snd r))"

definition AdvanceMoveTime :: "real \<Rightarrow> ToolheadTimingConfig \<Rightarrow> FlushActions \<Rightarrow> ToolheadCoreState \<Rightarrow>
    (ToolheadCoreState \<times> flush_event list) option" where
  "AdvanceMoveTime nextPrintTime config actions c =
     (let ptDelay = KinFlushDelay c + StepcompressFlushTime config;
          flushTime = max (LastFlushTime c) (PrintTime c - ptDelay);
          c1 = c\<lparr>PrintTime := max (PrintTime c) nextPrintTime\<rparr>;
          wantFlushTime = max flushTime (PrintTime c1 - ptDelay)
      in move_time_loop flushTime wantFlushTime config actions c1 [])"

text \<open>The second component is the notification, if the print time was moved.\<close>

definition CalcPrintTime :: "ToolheadTimingConfig \<Rightarrow> real \<Rightarrow> (real \<Rightarrow> real) \<Rightarrow> ToolheadCoreState \<Rightarrow>
    ToolheadCoreState \<times> (real \<times> real \<times> real) option" where
  "CalcPrintTime config curTime estimate c =
     (let estPrintTime = estimate curTime;
          kinTime = max (estPrintTime + MinKinTime config) (MinRestartTime c) + KinFlushDelay c;
          minPrintTime = max (estPrintTime + BufferTimeStart config) kinTime
      in if minPrintTime \<le> PrintTime c then (c, None)
         else (c\<lparr>PrintTime := minPrintTime\<rparr>, Some (curTime, estPrintTime, minPrintTime)))"

definition UpdateStepGenerationScanDelay :: "real \<Rightarrow> real \<Rightarrow> ToolheadTimingConfig \<Rightarrow> ToolheadCoreState \<Rightarrow>
    ToolheadCoreState" where
  "UpdateStepGenerationScanDelay delay oldDelay config c =
     (let t1 = (if oldDelay \<noteq> 0 then remove1 oldDelay (KinFlushTimes c) else KinFlushTimes c);
          t2 = (if delay \<noteq> 0 then t1 @ [delay] else t1);
          newDelay = foldl (\<lambda>d value. let v = value + ScanTimeOffset config in if v > d then v else d) 0 t2
      in c\<lparr>KinFlushTimes := t2, KinFlushDelay := newDelay\<rparr>)"

definition NoteMovequeueActivity :: "real \<Rightarrow> bool \<Rightarrow> ToolheadCoreState \<Rightarrow> bool \<times> ToolheadCoreState" where
  "NoteMovequeueActivity mqTime setStepGenTime c =
     (let c1 = c\<lparr>NeedFlushTime := max (NeedFlushTime c) mqTime\<rparr>;
          c2 = (if setStepGenTime then c1\<lparr>StepGenTime := max (StepGenTime c1) mqTime\<rparr> else c1)
      in if \<not> DoKickFlushTimer c2 then (False, c2) else (True, c2\<lparr>DoKickFlushTimer := False\<rparr>))"

definition ResetAfterLookaheadFlush :: "real \<Rightarrow> ToolheadCoreState \<Rightarrow> real \<times> ToolheadCoreState" where
  "ResetAfterLookaheadFlush lookaheadFlushTime c =
     (lookaheadFlushTime,
      c\<lparr>SpecialQueuingState := ''NeedPrime'', NeedCheckPause := - 1, CheckStallTime := 0\<rparr>)"

section \<open>The flush handler's plan\<close>

record ToolheadFlushConfig =
  fc_BufferTimeLow :: real
  BgFlushLowTime :: real
  BgFlushHighTime :: real
  BgFlushSgLowTime :: real
  BgFlushSgHighTime :: real
  BgFlushBatchTime :: real
  BgFlushExtraTime :: real
  fc_StepcompressFlushTime :: real

definition DefaultFlushConfig :: ToolheadFlushConfig where
  "DefaultFlushConfig = \<lparr>fc_BufferTimeLow = 1, BgFlushLowTime = 0.200, BgFlushHighTime = 0.400,
     BgFlushSgLowTime = 0.450, BgFlushSgHighTime = 0.700, BgFlushBatchTime = 0.200,
     BgFlushExtraTime = 0.250, fc_StepcompressFlushTime = 0.050\<rparr>"

record ToolheadFlushHandlerPlan =
  ShouldFlushLookahead :: bool
  AdvanceFlushTimes :: "real list"
  NextWakeTime :: real
  ReturnNever :: bool
  KickFlushTimer :: bool

text \<open>The step generation part: the flush times to add, and the flush and step generation times reached.\<close>

definition plan_step_generation :: "real \<Rightarrow> ToolheadFlushConfig \<Rightarrow> real \<Rightarrow> real \<Rightarrow> real \<Rightarrow>
    real list \<times> real \<times> real" where
  "plan_step_generation estimatedPrintTime config lastFlushTime lastStepGenTime aggressiveStepGenTime =
     (let want0 = estimatedPrintTime + BgFlushSgHighTime config;
          batchTime = BgFlushSgHighTime config - BgFlushSgLowTime config;
          nextBatchTime = lastStepGenTime + batchTime;
          want1 = (if nextBatchTime > estimatedPrintTime
                   then (if nextBatchTime > want0 + 0.005 then lastStepGenTime else nextBatchTime)
                   else want0);
          wantStepGenTime = min want1 aggressiveStepGenTime
      in if wantStepGenTime > lastStepGenTime then
           let flushTime = max lastFlushTime (wantStepGenTime - fc_StepcompressFlushTime config)
           in ([flushTime], flushTime, wantStepGenTime)
         else ([], lastFlushTime, lastStepGenTime))"

definition BuildToolheadFlushHandlerPlan :: "real \<Rightarrow> real \<Rightarrow> ToolheadCoreState \<Rightarrow> ToolheadFlushConfig \<Rightarrow>
    ToolheadFlushHandlerPlan" where
  "BuildToolheadFlushHandlerPlan eventtime estimatedPrintTime state config =
     (let bufferTime = PrintTime state - estimatedPrintTime in
      if SpecialQueuingState state = [] \<and> bufferTime > fc_BufferTimeLow config
      then \<lparr>ShouldFlushLookahead = False, AdvanceFlushTimes = [],
            NextWakeTime = eventtime + bufferTime - fc_BufferTimeLow config,
            ReturnNever = False, KickFlushTimer = False\<rparr>
      else
        let shouldFlush = (SpecialQueuingState state = []);
            aggressiveStepGenTime = StepGenTime state - 2 * KinFlushDelay state;
            behind = (LastStepGenTime state < aggressiveStepGenTime);
            sg = (if behind
                  then plan_step_generation estimatedPrintTime config (LastFlushTime state)
                         (LastStepGenTime state) aggressiveStepGenTime
                  else ([], LastFlushTime state, LastStepGenTime state))
        in case sg of (fts, lastFlushTime, lastStepGenTime) \<Rightarrow>
          if behind \<and> lastStepGenTime < aggressiveStepGenTime
          then \<lparr>ShouldFlushLookahead = shouldFlush, AdvanceFlushTimes = fts,
                NextWakeTime = eventtime + lastStepGenTime - BgFlushSgLowTime config - estimatedPrintTime,
                ReturnNever = False, KickFlushTimer = False\<rparr>
          else
            let endFlush = NeedFlushTime state + BgFlushExtraTime config;
                flushTime = min (estimatedPrintTime + BgFlushHighTime config) endFlush;
                more = (lastFlushTime < endFlush \<and> flushTime > lastFlushTime);
                fts' = (if more then fts @ [flushTime] else fts);
                lastFlushTime' = (if more then flushTime else lastFlushTime)
            in if lastFlushTime' \<ge> endFlush
               then \<lparr>ShouldFlushLookahead = shouldFlush, AdvanceFlushTimes = fts',
                     NextWakeTime = 0, ReturnNever = True, KickFlushTimer = True\<rparr>
               else \<lparr>ShouldFlushLookahead = shouldFlush, AdvanceFlushTimes = fts',
                     NextWakeTime = eventtime + lastFlushTime' - BgFlushLowTime config - estimatedPrintTime,
                     ReturnNever = False, KickFlushTimer = False\<rparr>)"

section \<open>Pausing\<close>

record ToolheadPauseConfig =
  pc_BufferTimeLow :: real
  BufferTimeHigh :: real
  PauseCheckOffset :: real
  MaxPauseDuration :: real
  MinPrimingDelay :: real
  WaitMoveDelay :: real

definition DefaultPauseConfig :: ToolheadPauseConfig where
  "DefaultPauseConfig = \<lparr>pc_BufferTimeLow = 1, BufferTimeHigh = 1, PauseCheckOffset = 0.100,
     MaxPauseDuration = 1, MinPrimingDelay = 0.100, WaitMoveDelay = 0.100\<rparr>"

text \<open>
  The time source: \<open>estimate\<close> maps an event time to the estimated print time, and \<open>pause\<close>
  returns the event time after sleeping until the given time.
\<close>

partial_function (option) pause_loop :: "(real \<Rightarrow> real) \<Rightarrow> (real \<Rightarrow> real) \<Rightarrow> ToolheadPauseConfig \<Rightarrow>
    bool \<Rightarrow> real \<Rightarrow> real \<Rightarrow> (bool \<times> real) option" where
  "pause_loop estimate pause config canPause printTime eventtime =
     (let pauseTime = printTime - estimate eventtime - BufferTimeHigh config
      in if pauseTime \<le> 0 then Some (False, eventtime)
         else if \<not> canPause then Some (True, eventtime)
         else pause_loop estimate pause config canPause printTime
                (pause (eventtime + min (MaxPauseDuration config) pauseTime)))"

record ToolheadPauseResult =
  pr_State :: ToolheadCoreState
  PrimingWakeTime :: "real option"
  EventTime :: real
  EstimatedPrintTime :: real
  BufferTime :: real

definition pause_prime :: "real \<Rightarrow> ToolheadCoreState \<Rightarrow> ToolheadCoreState" where
  "pause_prime estPrintTime c =
     c\<lparr>PrintStall := (if CheckStallTime c > 0 \<and> estPrintTime < CheckStallTime c
                      then PrintStall c + 1 else PrintStall c),
       SpecialQueuingState := ''Priming'', CheckStallTime := - 1\<rparr>"

text \<open>When the loop ends early because pausing is impossible, the event time is the first one.\<close>

definition RunToolheadPauseCheck :: "ToolheadCoreState \<Rightarrow> real \<Rightarrow> (real \<Rightarrow> real) \<Rightarrow> (real \<Rightarrow> real) \<Rightarrow>
    ToolheadPauseConfig \<Rightarrow> ToolheadPauseResult option" where
  "RunToolheadPauseCheck state eventtime estimate pause config =
     (let est = estimate eventtime;
          bufferTime = PrintTime state - est;
          special = (SpecialQueuingState state \<noteq> []);
          c1 = (if special then pause_prime est state else state);
          wake = (if special
                  then Some (eventtime + max (MinPrimingDelay config) (bufferTime - pc_BufferTimeLow config))
                  else None)
      in case pause_loop estimate pause config (CanPause state) (PrintTime state) eventtime of
           None \<Rightarrow> None
         | Some (stuck, et) \<Rightarrow>
             if stuck
             then Some \<lparr>pr_State = c1\<lparr>NeedCheckPause := NEVER\<rparr>, PrimingWakeTime = wake,
                        EventTime = eventtime, EstimatedPrintTime = estimate et,
                        BufferTime = PrintTime state - estimate et\<rparr>
             else Some \<lparr>pr_State = (if SpecialQueuingState c1 = []
                          then c1\<lparr>NeedCheckPause := estimate et + BufferTimeHigh config + PauseCheckOffset config\<rparr>
                          else c1),
                        PrimingWakeTime = wake, EventTime = et, EstimatedPrintTime = estimate et,
                        BufferTime = PrintTime state - estimate et\<rparr>)"

definition HandleToolheadPrimingTimer :: "string \<Rightarrow> real \<Rightarrow> bool \<times> real" where
  "HandleToolheadPrimingTimer special printTime =
     (if special \<noteq> ''Priming'' then (False, 0) else (True, printTime))"

partial_function (option) wait_loop :: "(real \<Rightarrow> real) \<Rightarrow> (real \<Rightarrow> real) \<Rightarrow> ToolheadPauseConfig \<Rightarrow>
    string \<Rightarrow> real \<Rightarrow> bool \<Rightarrow> real \<Rightarrow> real option" where
  "wait_loop estimate pause config special printTime canPause eventtime =
     (if special = [] \<or> printTime \<ge> estimate eventtime then
        if \<not> canPause then Some eventtime
        else wait_loop estimate pause config special printTime canPause
               (pause (eventtime + WaitMoveDelay config))
      else Some eventtime)"

definition WaitToolheadMoves :: "string \<Rightarrow> real \<Rightarrow> bool \<Rightarrow> real \<Rightarrow> (real \<Rightarrow> real) \<Rightarrow> (real \<Rightarrow> real) \<Rightarrow>
    ToolheadPauseConfig \<Rightarrow> real option" where
  "WaitToolheadMoves special printTime canPause eventtime estimate pause config =
     wait_loop estimate pause config special printTime canPause eventtime"

section \<open>Status\<close>

record ToolheadStatsResult =
  MaxQueueTime :: real
  st_ClearHistoryTime :: real
  st_BufferTime :: real
  IsActive :: bool
  st_Summary :: "real list"

definition BuildToolheadStats :: "real \<Rightarrow> real \<Rightarrow> real \<Rightarrow> real \<Rightarrow> real \<Rightarrow> string \<Rightarrow> ToolheadStatsResult" where
  "BuildToolheadStats printTime lastFlushTime estimatedPrintTime printStall moveHistoryExpire special =
     (let bufferTime = printTime - estimatedPrintTime;
          displayBufferTime = (if special = ''Drip'' then 0 else bufferTime)
      in \<lparr>MaxQueueTime = max printTime lastFlushTime,
          st_ClearHistoryTime = estimatedPrintTime - moveHistoryExpire,
          st_BufferTime = displayBufferTime,
          IsActive = (bufferTime > - 60 \<or> special = []),
          st_Summary = [printTime, max displayBufferTime 0, printStall]\<rparr>)"

definition BuildToolheadStatus :: "status \<Rightarrow> real \<Rightarrow> string \<Rightarrow> ToolheadCoreState \<Rightarrow> status" where
  "BuildToolheadStatus kinStatus estimatedPrintTime extruderName c =
     kinStatus(''print_time'' \<mapsto> SvFloat (PrintTime c),
       ''stalls'' \<mapsto> SvFloat (PrintStall c),
       ''estimated_print_time'' \<mapsto> SvFloat estimatedPrintTime,
       ''extruder'' \<mapsto> SvString extruderName,
       ''position'' \<mapsto> SvFloats (CommandedPos c),
       ''max_velocity'' \<mapsto> SvFloat (MaxVelocity c),
       ''max_accel'' \<mapsto> SvFloat (MaxAccel c),
       ''minimum_cruise_ratio'' \<mapsto>
         SvFloat (CalcMinimumCruiseRatio (MaxAccel c) (RequestedAccelToDecel c)),
       ''max_accel_to_decel'' \<mapsto> SvFloat (RequestedAccelToDecel c),
       ''square_corner_velocity'' \<mapsto> SvFloat (SquareCornerVelocity c))"

definition ToolheadHomedAxes :: "status \<Rightarrow> string" where
  "ToolheadHomedAxes status = (case status ''homed_axes'' of Some (SvString s) \<Rightarrow> s | _ \<Rightarrow> [])"

section \<open>Advancing the move time\<close>

text \<open>
  The callbacks stay within the planned motion: steps are generated at most up to the print
  time minus the kinematic flush delay, and motion is released at most up to that delay
  before the generated steps.
\<close>

fun event_ok :: "ToolheadCoreState \<Rightarrow> flush_event \<Rightarrow> bool" where
  "event_ok c (StepGenerator i t) = (t \<le> PrintTime c - KinFlushDelay c)"
| "event_ok c (FinalizeMoves free clear) = (free \<le> PrintTime c - 2 * KinFlushDelay c)"
| "event_ok c (UpdateExtruderMoveTime free clear) = (free \<le> PrintTime c - 2 * KinFlushDelay c)"
| "event_ok c (FlushMoves i t clear) = (t \<le> PrintTime c - KinFlushDelay c)"

text \<open>No step has been generated beyond the planned motion.\<close>

definition flushed_ok :: "ToolheadCoreState \<Rightarrow> bool" where
  "flushed_ok c \<longleftrightarrow> LastFlushTime c \<le> PrintTime c - KinFlushDelay c"

lemma AdvanceFlushTime_sel [simp]:
  "PrintTime (fst (AdvanceFlushTime ft cfg act c)) = PrintTime c"
  "KinFlushDelay (fst (AdvanceFlushTime ft cfg act c)) = KinFlushDelay c"
  "LastFlushTime (fst (AdvanceFlushTime ft cfg act c)) = max ft (LastFlushTime c)"
  "CommandedPos (fst (AdvanceFlushTime ft cfg act c)) = CommandedPos c"
  "SpecialQueuingState (fst (AdvanceFlushTime ft cfg act c)) = SpecialQueuingState c"
  "core_MoveConfig (fst (AdvanceFlushTime ft cfg act c)) = core_MoveConfig c"
  "CanPause (fst (AdvanceFlushTime ft cfg act c)) = CanPause c"
  "NeedCheckPause (fst (AdvanceFlushTime ft cfg act c)) = NeedCheckPause c"
  by (simp_all add: AdvanceFlushTime_def Let_def core_MoveConfig_def)

lemma AdvanceFlushTime_events:
  assumes "ft \<le> PrintTime c - KinFlushDelay c" and "flushed_ok c" and "0 \<le> StepcompressFlushTime cfg"
  shows "\<forall>e\<in>set (snd (AdvanceFlushTime ft cfg act c)). event_ok c e"
  using assms by (auto simp: AdvanceFlushTime_def Let_def flushed_ok_def)

lemma event_ok_cong:
  "PrintTime c = PrintTime c' \<Longrightarrow> KinFlushDelay c = KinFlushDelay c' \<Longrightarrow> event_ok c = event_ok c'"
proof
  fix e assume "PrintTime c = PrintTime c'" "KinFlushDelay c = KinFlushDelay c'"
  then show "event_ok c e = event_ok c' e" by (cases e) auto
qed

lemma loop_steps_bound:
  fixes want batch :: real
  assumes "0 < batch"
  shows "\<exists>n. want - ft \<le> real n * batch"
proof -
  obtain n where "(want - ft) / batch \<le> real n" using real_arch_simple by blast
  then show ?thesis using assms by (auto simp: divide_le_eq)
qed

definition same_plan :: "ToolheadCoreState \<Rightarrow> ToolheadCoreState \<Rightarrow> bool" where
  "same_plan c c' \<longleftrightarrow> CommandedPos c' = CommandedPos c \<and> SpecialQueuingState c' = SpecialQueuingState c \<and>
     core_MoveConfig c' = core_MoveConfig c \<and> CanPause c' = CanPause c \<and>
     KinFlushDelay c' = KinFlushDelay c \<and> NeedCheckPause c' = NeedCheckPause c"

lemma move_time_loop_returns:
  assumes "0 < MoveBatchTime cfg" and "0 \<le> StepcompressFlushTime cfg"
    and "want \<le> PrintTime c - KinFlushDelay c" and "flushed_ok c" and "LastFlushTime c \<le> want"
    and "\<forall>e\<in>set evs. event_ok c e"
  shows "\<exists>c' evs'. move_time_loop ft want cfg act c evs = Some (c', evs') \<and>
    PrintTime c' = PrintTime c \<and> same_plan c c' \<and> LastFlushTime c' = max want (LastFlushTime c) \<and>
    (\<forall>e\<in>set evs'. event_ok c e)"
proof -
  obtain n where "want - ft \<le> real n * MoveBatchTime cfg" using loop_steps_bound[OF assms(1)] by blast
  then show ?thesis using assms(3-)
  proof (induction n arbitrary: ft c evs)
    case (0 ft c evs)
    have ft: "min (ft + MoveBatchTime cfg) want = want" using 0(1) assms(1) by simp
    note ev = AdvanceFlushTime_events[OF 0(2,3) assms(2), of act]
    with 0 show ?case
      by (subst move_time_loop.simps) (auto simp: Let_def ft same_plan_def)
  next
    case (Suc n ft c evs)
    define f where "f = min (ft + MoveBatchTime cfg) want"
    define r where "r = AdvanceFlushTime f cfg act c"
    have fw: "f \<le> want" by (simp add: f_def)
    have st: "\<forall>e\<in>set (snd r). event_ok c e"
      using AdvanceFlushTime_events[of f c cfg act] Suc.prems(2,3) fw assms(2) by (simp add: r_def)
    show ?case
    proof (cases "f \<ge> want")
      case True
      then have "f = want" using fw by simp
      with st Suc.prems show ?thesis
        by (subst move_time_loop.simps)
          (auto simp: Let_def f_def[symmetric] r_def[symmetric] same_plan_def, auto simp: r_def)
    next
      case False
      have step: "move_time_loop ft want cfg act c evs = move_time_loop f want cfg act (fst r) (evs @ snd r)"
        using False by (subst move_time_loop.simps) (simp add: Let_def f_def[symmetric] r_def[symmetric])
      have "f = ft + MoveBatchTime cfg" using False by (auto simp: f_def)
      then have n: "want - f \<le> real n * MoveBatchTime cfg"
        using Suc.prems(1) by (simp add: algebra_simps)
      have ec: "event_ok (fst r) = event_ok c" by (rule event_ok_cong) (simp_all add: r_def)
      have "\<exists>c' evs'. move_time_loop f want cfg act (fst r) (evs @ snd r) = Some (c', evs') \<and>
        PrintTime c' = PrintTime (fst r) \<and> same_plan (fst r) c' \<and>
        LastFlushTime c' = max want (LastFlushTime (fst r)) \<and>
        (\<forall>e\<in>set evs'. event_ok (fst r) e)"
        using Suc.prems fw st
        by (intro Suc.IH[OF n]; simp add: ec) (auto simp: r_def flushed_ok_def)
      with Suc.prems(4) fw show ?thesis
        unfolding step ec by (auto simp: r_def same_plan_def)
    qed
  qed
qed

lemma AdvanceMoveTime_returns:
  assumes "0 < MoveBatchTime cfg" and "0 \<le> StepcompressFlushTime cfg" and "flushed_ok c"
  shows "\<exists>c' evs. AdvanceMoveTime npt cfg act c = Some (c', evs) \<and>
    PrintTime c' = max (PrintTime c) npt \<and> same_plan c c' \<and> flushed_ok c' \<and>
    LastFlushTime c \<le> LastFlushTime c' \<and>
    PrintTime c' - KinFlushDelay c' - StepcompressFlushTime cfg \<le> LastFlushTime c' \<and>
    (\<forall>e\<in>set evs. event_ok c' e)"
proof -
  define c1 where "c1 = c\<lparr>PrintTime := max (PrintTime c) npt\<rparr>"
  define f where "f = max (LastFlushTime c) (PrintTime c - (KinFlushDelay c + StepcompressFlushTime cfg))"
  define w where "w = max f (PrintTime c1 - (KinFlushDelay c + StepcompressFlushTime cfg))"
  have eq: "AdvanceMoveTime npt cfg act c = move_time_loop f w cfg act c1 []"
    by (simp add: AdvanceMoveTime_def Let_def c1_def f_def w_def)
  have "w \<le> PrintTime c1 - KinFlushDelay c1" "flushed_ok c1" "LastFlushTime c1 \<le> w"
    using assms(2,3) by (auto simp: w_def f_def c1_def flushed_ok_def)
  from move_time_loop_returns[OF assms(1,2) this, of "[]" f act]
  obtain c' evs where r: "move_time_loop f w cfg act c1 [] = Some (c', evs)" "PrintTime c' = PrintTime c1"
    "same_plan c1 c'" "LastFlushTime c' = max w (LastFlushTime c1)"
    "\<forall>e\<in>set evs. event_ok c1 e"
    by auto
  have "same_plan c c'" using r(3) by (simp add: same_plan_def c1_def core_MoveConfig_def)
  moreover have "LastFlushTime c' = w" using r(4) \<open>LastFlushTime c1 \<le> w\<close> by simp
  moreover have "flushed_ok c'"
    using \<open>w \<le> PrintTime c1 - KinFlushDelay c1\<close> r(2,3) \<open>LastFlushTime c' = w\<close>
    by (simp add: flushed_ok_def same_plan_def)
  moreover have "PrintTime c1 = max (PrintTime c) npt" by (simp add: c1_def)
  moreover have "KinFlushDelay c' = KinFlushDelay c" using \<open>same_plan c c'\<close> by (simp add: same_plan_def)
  moreover have "event_ok c1 = event_ok c'"
    by (rule event_ok_cong) (use r(2,3) in \<open>simp_all add: same_plan_def\<close>)
  ultimately show ?thesis
    unfolding eq using r(1,2,5) by (auto simp: w_def f_def c1_def)
qed

section \<open>Pausing\<close>

lemma clock_progress:
  assumes "0 < rate" and "0 < tick"
    and "\<And>a b. a \<le> b \<Longrightarrow> rate * (b - a) \<le> estimate b - estimate (a::real)"
    and "\<And>w. w + tick \<le> pause (w::real)" and "0 \<le> d"
  shows "estimate t + rate * tick \<le> (estimate (pause (t + d)) :: real)"
proof -
  have p: "t + d + tick \<le> pause (t + d)" by (rule assms(4))
  with assms(2,5) have "rate * (pause (t + d) - t) \<le> estimate (pause (t + d)) - estimate t"
    by (intro assms(3)) linarith
  moreover have "rate * tick \<le> rate * (pause (t + d) - t)"
    using p assms(1,5) by (intro mult_left_mono) auto
  ultimately show ?thesis by linarith
qed

lemma pause_loop_returns:
  assumes "0 < rate" and "0 < tick" and "0 \<le> MaxPauseDuration cfg"
    and "\<And>a b. a \<le> b \<Longrightarrow> rate * (b - a) \<le> estimate b - estimate a"
    and "\<And>w. w + tick \<le> pause w"
  shows "\<exists>et. pause_loop estimate pause cfg True pt t = Some (False, et) \<and> t \<le> et \<and>
     pt - estimate et \<le> BufferTimeHigh cfg"
proof -
  obtain n where "(pt - BufferTimeHigh cfg) - estimate t \<le> real n * (rate * tick)"
    using loop_steps_bound[of "rate * tick"] assms(1,2) by auto
  then show ?thesis
  proof (induction n arbitrary: t)
    case 0
    then show ?case by (subst pause_loop.simps) auto
  next
    case (Suc n)
    show ?case
    proof (cases "pt - estimate t - BufferTimeHigh cfg \<le> 0")
      case True
      then show ?thesis by (subst pause_loop.simps) auto
    next
      case False
      define d where "d = min (MaxPauseDuration cfg) (pt - estimate t - BufferTimeHigh cfg)"
      have d: "0 \<le> d" using False assms(3) by (simp add: d_def)
      have step: "pause_loop estimate pause cfg True pt t = pause_loop estimate pause cfg True pt (pause (t + d))"
        using False by (subst pause_loop.simps) (simp add: d_def)
      have "estimate t + rate * tick \<le> estimate (pause (t + d))"
        using clock_progress[OF assms(1,2,4,5) d] .
      with Suc.prems have "(pt - BufferTimeHigh cfg) - estimate (pause (t + d)) \<le> real n * (rate * tick)"
        by (simp add: algebra_simps)
      from Suc.IH[OF this] assms(5)[of "t + d"] d assms(2) show ?thesis unfolding step by force
    qed
  qed
qed

lemma pause_loop_stuck:
  "pause_loop estimate pause cfg False pt t = Some (\<not> pt - estimate t - BufferTimeHigh cfg \<le> 0, t)"
  by (subst pause_loop.simps) auto

lemma wait_loop_returns:
  assumes "0 < rate" and "0 < tick" and "0 \<le> WaitMoveDelay cfg"
    and "\<And>a b. a \<le> b \<Longrightarrow> rate * (b - a) \<le> estimate b - estimate a"
    and "\<And>w. w + tick \<le> pause w" and "special \<noteq> []"
  shows "\<exists>et. wait_loop estimate pause cfg special pt True t = Some et \<and> pt < estimate et"
proof -
  obtain n where "(pt + rate * tick) - estimate t \<le> real n * (rate * tick)"
    using loop_steps_bound[of "rate * tick"] assms(1,2) by auto
  then show ?thesis
  proof (induction n arbitrary: t)
    case 0
    with mult_pos_pos[OF assms(1,2)] have "pt < estimate t" by linarith
    with assms(6) show ?case by (subst wait_loop.simps) auto
  next
    case (Suc n)
    show ?case
    proof (cases "pt < estimate t")
      case True
      with assms(6) show ?thesis by (subst wait_loop.simps) auto
    next
      case False
      have "estimate t + rate * tick \<le> estimate (pause (t + WaitMoveDelay cfg))"
        using clock_progress[OF assms(1,2,4,5,3)] .
      with Suc.prems have "(pt + rate * tick) - estimate (pause (t + WaitMoveDelay cfg)) \<le> real n * (rate * tick)"
        by (simp add: algebra_simps)
      from Suc.IH[OF this] False show ?thesis by (subst wait_loop.simps) auto
    qed
  qed
qed

text \<open>In the normal queuing state the loop's condition never changes.\<close>

lemma wait_loop_diverges: "wait_loop estimate pause cfg [] pt True t = None"
proof -
  have "\<not> (special = [] \<and> can)" if "wait_loop estimate pause cfg special pt can t = Some y"
    for special can t y
  proof (rule wait_loop.raw_induct[where P = "\<lambda>estimate pause cfg special pt can t y. \<not> (special = [] \<and> can)",
        OF _ that], goal_cases)
    case (1 f estimate pause cfg special pt can t y)
    show ?case
    proof
      assume n: "special = [] \<and> can"
      with 1(2) have "f estimate pause cfg special pt can (pause (t + WaitMoveDelay cfg)) = Some y" by simp
      from 1(1)[OF this] n show False by blast
    qed
  qed
  then show ?thesis by (cases "wait_loop estimate pause cfg [] pt True t") auto
qed

section \<open>The flush plan\<close>

lemma plan_step_generation_spec:
  assumes "plan_step_generation est cfg lf sg ag = (fts, lf', sg')" and "sg < ag"
    and "BgFlushSgLowTime cfg < BgFlushSgHighTime cfg" and "0 \<le> BgFlushSgHighTime cfg"
  shows "fts = [] \<and> lf' = lf \<and> sg' = sg \<and> est + BgFlushSgLowTime cfg < sg \<or>
    fts = [lf'] \<and> lf \<le> lf' \<and> sg < sg'"
  using assms by (auto simp: plan_step_generation_def Let_def split: if_splits)

lemma flush_plan_spec:
  fixes now est :: real and st :: ToolheadCoreState
  assumes "BgFlushSgLowTime cfg < BgFlushSgHighTime cfg" "0 \<le> BgFlushSgHighTime cfg"
    "BgFlushLowTime cfg < BgFlushHighTime cfg"
  defines "plan \<equiv> BuildToolheadFlushHandlerPlan now est st cfg"
  shows "sorted (LastFlushTime st # AdvanceFlushTimes plan)"
    "ReturnNever plan \<longleftrightarrow> KickFlushTimer plan"
    "ReturnNever plan \<Longrightarrow> NeedFlushTime st + BgFlushExtraTime cfg \<le> last (LastFlushTime st # AdvanceFlushTimes plan)"
    "\<not> ReturnNever plan \<Longrightarrow> AdvanceFlushTimes plan = [] \<Longrightarrow> now < NextWakeTime plan"
proof -
  let ?ag = "StepGenTime st - 2 * KinFlushDelay st"
  obtain fts lf sg where g: "(if LastStepGenTime st < ?ag
      then plan_step_generation est cfg (LastFlushTime st) (LastStepGenTime st) ?ag
      else ([], LastFlushTime st, LastStepGenTime st)) = (fts, lf, sg)" by (metis prod_cases3)
  have s: "fts = [] \<and> lf = LastFlushTime st \<and>
       (LastStepGenTime st < ?ag \<longrightarrow> sg = LastStepGenTime st \<and> est + BgFlushSgLowTime cfg < sg) \<or>
     fts = [lf] \<and> LastFlushTime st \<le> lf"
  proof (cases "LastStepGenTime st < ?ag")
    case True
    with plan_step_generation_spec[OF _ True assms(1,2), of est "LastFlushTime st" fts lf sg] g
    show ?thesis by auto
  qed (use g in auto)
  show "sorted (LastFlushTime st # AdvanceFlushTimes plan)"
    "ReturnNever plan \<longleftrightarrow> KickFlushTimer plan"
    "ReturnNever plan \<Longrightarrow> NeedFlushTime st + BgFlushExtraTime cfg \<le> last (LastFlushTime st # AdvanceFlushTimes plan)"
    "\<not> ReturnNever plan \<Longrightarrow> AdvanceFlushTimes plan = [] \<Longrightarrow> now < NextWakeTime plan"
    unfolding plan_def BuildToolheadFlushHandlerPlan_def Let_def g prod.case
    using s assms(3) by (auto split: if_splits)
qed

section \<open>Velocity limits\<close>

definition wf_settings :: "ToolheadVelocitySettings \<Rightarrow> bool" where
  "wf_settings s \<longleftrightarrow> 0 < vs_MaxVelocity s \<and> 0 < vs_MaxAccel s \<and> vs_MaxAccel s \<le> 99999999.9 \<and>
     0 < vs_RequestedAccelToDecel s"

lemma velocity_limits_wf_config:
  assumes "wf_settings (vr_Settings (ApplyToolheadVelocityLimitUpdate s u))"
  shows "wf_config (core_MoveConfig (ApplyVelocityLimitResult (ApplyToolheadVelocityLimitUpdate s u) c))"
proof -
  have "0 \<le> (sqrt 2 - 1 :: real)" by simp
  with assms show ?thesis
    by (auto simp: wf_config_def core_MoveConfig_def ApplyVelocityLimitResult_def wf_settings_def
        ApplyToolheadVelocityLimitUpdate_def CalcToolheadJunctionDeviation_def Let_def)
qed

text \<open>A right-angle corner: the junction deviation is chosen so that its limit is the square
  corner velocity.\<close>

lemma right_angle:
  assumes "dir_dot p m = 0" and "0 < a" and "Accel m = a" and "Junction_deviation m = v * v * (sqrt 2 - 1) / a"
  shows "corner_limits p m \<noteq> []" "corner_limits p m ! 0 = v\<^sup>2"
proof -
  define s where "s = sqrt (1 / 2 :: real)"
  have hs: "half_sin p m = s" "half_cos p m = s" using assms(1) by (simp_all add: half_sin_def half_cos_def s_def)
  have s: "0 < s" "s < 1" by (simp_all add: s_def)
  then show "corner_limits p m \<noteq> []" by (simp add: corner_limits_def hs)
  have s2: "sqrt 2 * s = 1" by (simp add: s_def real_sqrt_divide)
  have "s * (sqrt 2 - 1) = sqrt 2 * s - s" by (simp add: algebra_simps)
  then have "s / (1 - s) * (sqrt 2 - 1) = (sqrt 2 * s - s) / (1 - s)" by simp
  then have r: "s / (1 - s) * (sqrt 2 - 1) = 1" using s by (simp add: s2)
  have "corner_limits p m ! 0 = s / (1 - s) * (v * v * (sqrt 2 - 1) / a) * a"
    using s assms(3,4) by (simp add: corner_limits_def hs)
  also have "\<dots> = v\<^sup>2 * (s / (1 - s) * (sqrt 2 - 1))"
    using assms(2) by (simp add: power2_eq_square)
  finally show "corner_limits p m ! 0 = v\<^sup>2" unfolding r by simp
qed

lemma corner_speed:
  assumes "Is_kinematic_move m" "Is_kinematic_move p" and "corner_limits p m \<noteq> []"
  shows "Max_start_v2 (Calc_junction (Some f) p m) \<le> corner_limits p m ! 0"
  unfolding Calc_junction_start[OF assms(1,2)]
  by (rule customMin_le) (use assms(3) in \<open>cases "corner_limits p m"\<close>, auto)

section \<open>Scan delays\<close>

lemma scan_delay_foldl:
  "foldl (\<lambda>d value. if value + off > d then value + off else d) (a::real) ts = Max (insert a ((\<lambda>t. t + off) ` set ts))"
proof (induction ts arbitrary: a)
  case (Cons t ts)
  have "foldl (\<lambda>d value. if value + off > d then value + off else d) a (t # ts)
      = Max (insert (max a (t + off)) ((\<lambda>t. t + off) ` set ts))"
    by (simp add: Cons.IH max_def)
  also have "\<dots> = Max (insert a (insert (t + off) ((\<lambda>t. t + off) ` set ts)))"
    by (simp add: Max_insert2 max.assoc) (cases "set ts = {}"; simp add: max.assoc)
  finally show ?case by simp
qed simp

section \<open>Properties\<close>

text \<open>
  C18. Advancing the move time always returns when the batch time is positive.  The print
  time becomes the later of the two times, the flush time only grows and follows the print
  time up to the step compression delay.  No step generator is ever run beyond the planned
  motion (the print time minus the kinematic flush delay), and no motion is released that
  lies within that delay of the steps generated so far.
\<close>

theorem AdvanceMoveTime_safe:
  assumes "0 < MoveBatchTime cfg" and "0 \<le> StepcompressFlushTime cfg" and "flushed_ok c"
  shows "\<exists>c' evs. AdvanceMoveTime npt cfg act c = Some (c', evs) \<and>
    PrintTime c' = max (PrintTime c) npt \<and> flushed_ok c' \<and> LastFlushTime c \<le> LastFlushTime c' \<and>
    PrintTime c' - KinFlushDelay c' - StepcompressFlushTime cfg \<le> LastFlushTime c' \<and>
    (\<forall>e\<in>set evs. event_ok c' e)"
  using AdvanceMoveTime_returns[OF assms, of npt act] by blast

theorem AdvanceMoveTime_safe_witness:
  "\<exists>c' evs. AdvanceMoveTime 3 DefaultTimingConfig
      \<lparr>StepGenerators = 3, has_FinalizeMoves = True, has_UpdateExtruderMoveTime = True, FlushDrivers = 1\<rparr>
      ((NewToolheadCoreState True)\<lparr>PrintTime := 1\<rparr>) = Some (c', evs) \<and> PrintTime c' = 3"
  using AdvanceMoveTime_safe[of DefaultTimingConfig "(NewToolheadCoreState True)\<lparr>PrintTime := 1\<rparr>" 3
      "\<lparr>StepGenerators = 3, has_FinalizeMoves = True, has_UpdateExtruderMoveTime = True, FlushDrivers = 1\<rparr>"]
  by (auto simp: DefaultTimingConfig_def flushed_ok_def NewToolheadCoreState_def DefaultSdsCheckTime_def)

text \<open>
  C19. The print time a new motion starts at leaves the configured lead over the estimated
  time and lies behind everything already generated by the kinematic flush delay; it never
  moves backwards, nothing else changes, and a notification is sent exactly when it moved.
\<close>

theorem CalcPrintTime_lead:
  assumes "CalcPrintTime cfg now estimate c = (c', msg)"
  shows "estimate now + BufferTimeStart cfg \<le> PrintTime c' \<and>
    estimate now + MinKinTime cfg + KinFlushDelay c \<le> PrintTime c' \<and>
    MinRestartTime c + KinFlushDelay c \<le> PrintTime c' \<and> PrintTime c \<le> PrintTime c' \<and>
    c' = c\<lparr>PrintTime := PrintTime c'\<rparr> \<and>
    msg = (if PrintTime c' = PrintTime c then None else Some (now, estimate now, PrintTime c'))"
  using assms by (auto simp: CalcPrintTime_def Let_def split: if_splits)

theorem CalcPrintTime_lead_witness:
  "PrintTime (fst (CalcPrintTime DefaultTimingConfig 10 (\<lambda>t. t) (NewToolheadCoreState True))) \<ge> 10.25"
proof -
  obtain c' msg where r: "CalcPrintTime DefaultTimingConfig 10 (\<lambda>t. t) (NewToolheadCoreState True) = (c', msg)"
    by (rule prod.exhaust)
  from CalcPrintTime_lead[OF r] r show ?thesis by (simp add: DefaultTimingConfig_def)
qed



text \<open>
  C21. The pause check always returns, for a clock that runs forward at some positive rate
  and a reactor that wakes up later than asked.  Afterwards the buffered motion is at most
  the high limit, a special queuing state has turned into priming with a timer that leaves at
  least the minimum delay, and otherwise the next check is due when the buffer is used up to
  the limit.  If the toolhead cannot pause it never waits.
\<close>

theorem pause_check_bounded:
  assumes "0 < rate" and "0 < tick" and "0 \<le> MaxPauseDuration cfg"
    and "\<forall>a b. a \<le> b \<longrightarrow> rate * (b - a) \<le> estimate b - estimate a"
    and "\<forall>w. w + tick \<le> pause w"
  shows "\<exists>r. RunToolheadPauseCheck st now estimate pause cfg = Some r \<and>
    (if CanPause st then BufferTime r \<le> BufferTimeHigh cfg \<and> now \<le> EventTime r else EventTime r = now) \<and>
    (if SpecialQueuingState st \<noteq> [] then SpecialQueuingState (pr_State r) = ''Priming'' \<and>
        (\<exists>w. PrimingWakeTime r = Some w \<and> now + MinPrimingDelay cfg \<le> w)
     else PrimingWakeTime r = None \<and> SpecialQueuingState (pr_State r) = [] \<and>
        (CanPause st \<longrightarrow> NeedCheckPause (pr_State r) =
           EstimatedPrintTime r + BufferTimeHigh cfg + PauseCheckOffset cfg))"
proof (cases "CanPause st")
  case True
  from pause_loop_returns[of rate tick cfg estimate pause "PrintTime st" now] assms
  obtain et where et: "pause_loop estimate pause cfg True (PrintTime st) now = Some (False, et)" "now \<le> et"
    "PrintTime st - estimate et \<le> BufferTimeHigh cfg" by blast
  then show ?thesis
    using True by (auto simp: RunToolheadPauseCheck_def Let_def pause_prime_def)
next
  case False
  then show ?thesis
    by (auto simp: RunToolheadPauseCheck_def Let_def pause_loop_stuck pause_prime_def)
qed

theorem pause_check_bounded_witness:
  "\<exists>r. RunToolheadPauseCheck ((NewToolheadCoreState True)\<lparr>PrintTime := 100\<rparr>) 1 (\<lambda>t. t)
        (\<lambda>w. w + 0.001) DefaultPauseConfig = Some r \<and> BufferTime r \<le> 1"
  using pause_check_bounded[of 1 "0.001" DefaultPauseConfig "\<lambda>t. t" "\<lambda>w. w + 0.001"
      "(NewToolheadCoreState True)\<lparr>PrintTime := 100\<rparr>" 1]
  by (auto simp: DefaultPauseConfig_def NewToolheadCoreState_def)

text \<open>
  C22. Waiting for the queued moves returns once the estimated time has passed the print
  time, for every such clock, if the toolhead is in a special queuing state when the wait
  starts.
\<close>

theorem WaitToolheadMoves_returns:
  assumes "0 < rate" and "0 < tick" and "0 \<le> WaitMoveDelay cfg"
    and "\<forall>a b. a \<le> b \<longrightarrow> rate * (b - a) \<le> estimate b - estimate a"
    and "\<forall>w. w + tick \<le> pause w" and "special \<noteq> []"
  shows "\<exists>et. WaitToolheadMoves special pt True now estimate pause cfg = Some et \<and> pt < estimate et"
  unfolding WaitToolheadMoves_def using assms by (intro wait_loop_returns[of rate tick]) auto

theorem WaitToolheadMoves_returns_witness:
  "\<exists>et. WaitToolheadMoves ''NeedPrime'' 7 True 1 (\<lambda>t. t) (\<lambda>w. w + 0.001) DefaultPauseConfig = Some et
     \<and> 7 < et"
  using WaitToolheadMoves_returns[of 1 "0.001" DefaultPauseConfig "\<lambda>t. t" "\<lambda>w. w + 0.001" "''NeedPrime''" 7 1]
  by (auto simp: DefaultPauseConfig_def)



end
