(* ===== verification/Toolhead.thy ===== *)
theory Toolhead
  imports Kinematics Trapq ToolheadTiming
begin

text \<open>
  The toolhead: how the move queue, the kinematics, the extruder, the motion queue and the
  timing work together (the toolhead of \<^verbatim>\<open>project/goklipper.go\<close> with the handlers of
  \<^verbatim>\<open>toolhead_move_runtime.go\<close>, \<^verbatim>\<open>toolhead_control_runtime.go\<close>, \<^verbatim>\<open>toolhead_timer_runtime.go\<close>,
  \<^verbatim>\<open>toolhead_drip.go\<close> and \<^verbatim>\<open>toolhead_commands.go\<close>).

  The state is explicit; effects on the rest of the printer are recorded.  The clock is a
  parameter: the \<open>n\<close>-th reading of the monotonic time, the estimated print time of an event
  time, the time at which a pause ends, and whether the drip completion has been signalled
  at the \<open>n\<close>-th test.  An operation yields \<open>None\<close> if it does not end, and a panic carries the
  state in which it was raised.
\<close>

record time_env =
  te_monotonic :: "nat \<Rightarrow> real"
  te_estimate :: "real \<Rightarrow> real"
  te_pause :: "real \<Rightarrow> real"
  te_drip_test :: "nat \<Rightarrow> bool"

datatype th_effect =
    EfFlush flush_event
  | EfBatch batch_event
  | EfExtruder trapq_event
  | EfSyncPrintTime real real real
  | EfEvent string
  | EfKin kin_event
  | EfTrapqSetPosition real "real list"
  | EfCallback nat real
  | EfRollover "real list"
  | EfRespondInfo string
  | EfCheckActive real real

datatype th_error =
    MoveRejected move_error
  | MovePanic go_error
  | DripModeEnd

record Toolhead =
  core :: ToolheadCoreState
  lookahead :: LookAheadQueue
  th_Extruder :: Extruder
  th_Kin :: Kinematics_impl
  th_Trapq :: trapq
  th_mcus :: nat
  th_Step_generators :: nat
  Flush_timer :: real
  Priming_timer :: "real option"
  th_reads :: nat
  th_effects :: "th_effect list"

type_synonym th_result = "((th_error \<times> Toolhead) + Toolhead) option"

definition th_then :: "th_result \<Rightarrow> (Toolhead \<Rightarrow> th_result) \<Rightarrow> th_result" where
  "th_then r f = (case r of None \<Rightarrow> None | Some (Inl e) \<Rightarrow> Some (Inl e) | Some (Inr th) \<Rightarrow> f th)"

definition th_emit :: "th_effect list \<Rightarrow> Toolhead \<Rightarrow> Toolhead" where
  "th_emit evs th = th\<lparr>th_effects := th_effects th @ evs\<rparr>"

definition BUFFER_TIME_HIGH :: real where
  "BUFFER_TIME_HIGH = 1.0"

section \<open>Time\<close>

definition timingFlushActions :: "Toolhead \<Rightarrow> FlushActions" where
  "timingFlushActions th = \<lparr>StepGenerators = th_Step_generators th, has_FinalizeMoves = True,
     has_UpdateExtruderMoveTime = True, FlushDrivers = th_mcus th\<rparr>"

text \<open>The callbacks of a flush: the toolhead's own queue expires moves, the extruder updates its.\<close>

fun run_flush_event :: "flush_event \<Rightarrow> Toolhead \<Rightarrow> Toolhead" where
  "run_flush_event (FinalizeMoves freeTime clearHistoryTime) th =
     th_emit [EfFlush (FinalizeMoves freeTime clearHistoryTime)]
       (th\<lparr>th_Trapq := trapq_finalize_moves freeTime clearHistoryTime (th_Trapq th)\<rparr>)"
| "run_flush_event (UpdateExtruderMoveTime freeTime clearHistoryTime) th =
     th_emit (map EfExtruder (Extruder_Update_move_time freeTime clearHistoryTime (th_Extruder th))) th"
| "run_flush_event e th = th_emit [EfFlush e] th"

definition th_advance_flush_time :: "real \<Rightarrow> Toolhead \<Rightarrow> Toolhead" where
  "th_advance_flush_time flush_time th =
     (let r = AdvanceFlushTime flush_time DefaultTimingConfig (timingFlushActions th) (core th)
      in fold run_flush_event (snd r) (th\<lparr>core := fst r\<rparr>))"

definition th_advance_move_time :: "real \<Rightarrow> Toolhead \<Rightarrow> Toolhead option" where
  "th_advance_move_time next_print_time th =
     (case AdvanceMoveTime next_print_time DefaultTimingConfig (timingFlushActions th) (core th) of
        None \<Rightarrow> None
      | Some (c, evs) \<Rightarrow> Some (fold run_flush_event evs (th\<lparr>core := c\<rparr>)))"

definition th_calc_print_time :: "time_env \<Rightarrow> Toolhead \<Rightarrow> Toolhead" where
  "th_calc_print_time env th =
     (case CalcPrintTime DefaultTimingConfig (te_monotonic env (th_reads th)) (te_estimate env) (core th) of
        (c, msg) \<Rightarrow>
          th_emit (case msg of None \<Rightarrow> [] | Some (cur, est, pt) \<Rightarrow> [EfSyncPrintTime cur est pt])
            (th\<lparr>core := c, th_reads := th_reads th + 1\<rparr>))"

definition Note_mcu_movequeue_activity :: "real \<Rightarrow> bool \<Rightarrow> Toolhead \<Rightarrow> Toolhead" where
  "Note_mcu_movequeue_activity mq_time set_step_gen_time th =
     (case NoteMovequeueActivity mq_time set_step_gen_time (core th) of (kick, c) \<Rightarrow>
        if kick then th\<lparr>core := c, Flush_timer := NOW\<rparr> else th\<lparr>core := c\<rparr>)"

section \<open>Processing batches\<close>

record ToolheadDripConfig =
  DripTime :: real
  dc_StepcompressFlushTime :: real
  DripSegmentTime :: real

definition DefaultDripConfig :: ToolheadDripConfig where
  "DefaultDripConfig = \<lparr>DripTime = 0.100, dc_StepcompressFlushTime = 0.050, DripSegmentTime = 0.050\<rparr>"

partial_function (option) drip_loop :: "time_env \<Rightarrow> ToolheadDripConfig \<Rightarrow> real \<Rightarrow> real \<Rightarrow> Toolhead \<Rightarrow> th_result" where
  "drip_loop env cfg flushDelay nextPrintTime th =
     (if \<not> PrintTime (core th) < nextPrintTime then Some (Inr th)
      else if te_drip_test env (th_reads th) then Some (Inl (DripModeEnd, th\<lparr>th_reads := th_reads th + 1\<rparr>))
      else
        let th1 = th\<lparr>th_reads := th_reads th + 2\<rparr>;
            est = te_estimate env (te_monotonic env (th_reads th + 1));
            waitTime = PrintTime (core th) - est - flushDelay
        in if waitTime > 0 \<and> CanPause (core th) then drip_loop env cfg flushDelay nextPrintTime th1
           else
             let seg = min (PrintTime (core th) + DripSegmentTime cfg) nextPrintTime;
                 th2 = Note_mcu_movequeue_activity (seg + KinFlushDelay (core th)) True th1
             in Option.bind (th_advance_move_time seg th2)
                  (\<lambda>th3. drip_loop env cfg flushDelay nextPrintTime th3))"

definition UpdateToolheadDripTime :: "time_env \<Rightarrow> ToolheadDripConfig \<Rightarrow> real \<Rightarrow> Toolhead \<Rightarrow> th_result" where
  "UpdateToolheadDripTime env cfg nextPrintTime th =
     drip_loop env cfg (DripTime cfg + dc_StepcompressFlushTime cfg + KinFlushDelay (core th)) nextPrintTime th"

text \<open>The sink of a batch: the motion queue gets the kinematic moves, the extruder its own.\<close>

fun run_batch_event :: "batch_event \<Rightarrow> Toolhead \<Rightarrow> Toolhead" where
  "run_batch_event (QueueKinematicMove t m) th =
     th_emit [EfBatch (QueueKinematicMove t m)]
       (th\<lparr>th_Trapq := feed_event (QueueKinematicMove t m) (th_Trapq th)\<rparr>)"
| "run_batch_event (QueueExtruderMove t m) th =
     (let r = Extruder_Move t m (th_Extruder th)
      in th_emit (EfBatch (QueueExtruderMove t m) # map EfExtruder (snd r)) (th\<lparr>th_Extruder := fst r\<rparr>))"
| "run_batch_event (TimingCallback cb t) th = th_emit [EfCallback cb t] th"

definition Process_moves :: "time_env \<Rightarrow> Move list \<Rightarrow> Toolhead \<Rightarrow> th_result" where
  "Process_moves env ms th =
     (let th1 = (if SpecialQueuingState (core th) \<noteq> [] then
                   th_calc_print_time env
                     (if SpecialQueuingState (core th) \<noteq> ''Drip''
                      then th\<lparr>core := (core th)\<lparr>SpecialQueuingState := [], NeedCheckPause := - 1\<rparr>\<rparr>
                      else th)
                 else th);
          batch = QueueMoveBatch (PrintTime (core th1)) ms;
          nextMoveTime = snd batch;
          th2 = fold run_batch_event (fst batch) th1
      in th_then (if SpecialQueuingState (core th2) \<noteq> []
                  then UpdateToolheadDripTime env DefaultDripConfig nextMoveTime th2 else Some (Inr th2))
           (\<lambda>th3. map_option Inr (th_advance_move_time nextMoveTime
              (Note_mcu_movequeue_activity (nextMoveTime + KinFlushDelay (core th3)) True th3))))"

text \<open>
  A flush of the look-ahead queue with the toolhead as its processor.  While the batch is
  processed the planned moves are still queued; they are removed when processing returns.
\<close>

definition flush_queue :: "time_env \<Rightarrow> bool \<Rightarrow> Toolhead \<Rightarrow> th_result" where
  "flush_queue env lazy th =
     (case Flush lazy (lookahead th) of
        (None, lq) \<Rightarrow> Some (Inr (th\<lparr>lookahead := lq\<rparr>))
      | (Some ms, lq) \<Rightarrow>
          th_then (Process_moves env ms (th\<lparr>lookahead := lq\<lparr>queue := ms @ queue lq\<rparr>\<rparr>))
            (\<lambda>th1. Some (Inr (th1\<lparr>lookahead := lq\<rparr>))))"

definition flush_lookahead :: "time_env \<Rightarrow> Toolhead \<Rightarrow> th_result" where
  "flush_lookahead env th =
     (case ResetAfterLookaheadFlush BUFFER_TIME_HIGH (core th) of (t, c) \<Rightarrow>
        th_then (flush_queue env False (th\<lparr>core := c\<rparr>))
          (\<lambda>th1. Some (Inr (th1\<lparr>lookahead := Set_flush_time t (lookahead th1)\<rparr>))))"

definition Flush_step_generation :: "time_env \<Rightarrow> Toolhead \<Rightarrow> th_result" where
  "Flush_step_generation env th =
     th_then (flush_lookahead env th)
       (\<lambda>th1. let th2 = th_advance_flush_time (StepGenTime (core th1)) th1
              in Some (Inr (th2\<lparr>core := (core th2)\<lparr>MinRestartTime :=
                   max (MinRestartTime (core th2)) (PrintTime (core th2))\<rparr>\<rparr>)))"

text \<open>The value returned by the source is the print time of the resulting state.\<close>

definition Get_last_move_time :: "time_env \<Rightarrow> Toolhead \<Rightarrow> th_result" where
  "Get_last_move_time env th =
     (if SpecialQueuingState (core th) \<noteq> []
      then th_then (flush_lookahead env th) (\<lambda>th1. Some (Inr (th_calc_print_time env th1)))
      else flush_queue env False th)"

definition Check_pause :: "time_env \<Rightarrow> Toolhead \<Rightarrow> th_result" where
  "Check_pause env th =
     (case RunToolheadPauseCheck (core th) (te_monotonic env (th_reads th)) (te_estimate env)
             (te_pause env) DefaultPauseConfig of
        None \<Rightarrow> None
      | Some r \<Rightarrow> Some (Inr (th\<lparr>core := pr_State r, th_reads := th_reads th + 1,
          Priming_timer := (case PrimingWakeTime r of None \<Rightarrow> Priming_timer th | Some w \<Rightarrow> Some w)\<rparr>)))"

section \<open>Moves\<close>

text \<open>The toolhead ignores the error an extruder's check returns; the move is limited if it is accepted.\<close>

definition CheckExtruderMove :: "Move \<Rightarrow> Extruder \<Rightarrow> Move" where
  "CheckExtruderMove m ex = (case Extruder_Check_move m ex of Inl e \<Rightarrow> m | Inr m' \<Rightarrow> m')"

definition QueueMove :: "time_env \<Rightarrow> Move \<Rightarrow> Toolhead \<Rightarrow> th_result" where
  "QueueMove env m th =
     (case Add_move (Some (Extruder_Calc_junction (th_Extruder th))) m (lookahead th) of (full, lq) \<Rightarrow>
        if full then flush_queue env True (th\<lparr>lookahead := lq\<rparr>)
        else Some (Inr (th\<lparr>lookahead := lq\<rparr>)))"

definition th_Move :: "time_env \<Rightarrow> real list \<Rightarrow> real \<Rightarrow> Toolhead \<Rightarrow> th_result" where
  "th_Move env newpos speed th =
     (case NewMove (core_MoveConfig (core th)) (CommandedPos (core th)) newpos speed of
        Inl e \<Rightarrow> Some (Inl (MovePanic e, th))
      | Inr m \<Rightarrow>
          if Move_d m = 0 then Some (Inr th) else
          case (if Is_kinematic_move m then Kin_Check_move m (th_Kin th) else Inr m) of
            Inl e \<Rightarrow> Some (Inl (MoveRejected e, th))
          | Inr m1 \<Rightarrow>
              let m2 = (if Axes_d m1 ! 3 \<noteq> 0 then CheckExtruderMove m1 (th_Extruder th) else m1)
              in th_then (QueueMove env m2 (th\<lparr>core := (core th)\<lparr>CommandedPos := End_pos m2\<rparr>\<rparr>))
                   (\<lambda>th1. if PrintTime (core th1) > NeedCheckPause (core th1)
                          then Check_pause env th1 else Some (Inr th1)))"

definition BuildToolheadManualMoveTarget :: "real list \<Rightarrow> real option list \<Rightarrow> real list" where
  "BuildToolheadManualMoveTarget commandedPos coords =
     map (\<lambda>i. let base = (if i < length commandedPos then commandedPos ! i else 0)
              in if i < length coords then opt_else (coords ! i) base else base)
       [0..<max (length commandedPos) (length coords)]"

definition Manual_move :: "time_env \<Rightarrow> real option list \<Rightarrow> real \<Rightarrow> Toolhead \<Rightarrow> th_result" where
  "Manual_move env coords speed th =
     th_then (th_Move env (BuildToolheadManualMoveTarget (CommandedPos (core th)) coords) speed th)
       (\<lambda>th1. Some (Inr (th_emit [EfEvent ''toolhead:manual_move''] th1)))"

definition Set_position :: "time_env \<Rightarrow> real list \<Rightarrow> nat list \<Rightarrow> Toolhead \<Rightarrow> th_result" where
  "Set_position env newpos homingAxes th =
     th_then (Flush_step_generation env th)
       (\<lambda>th1. if length newpos < 3 then Some (Inl (MovePanic IndexOutOfRange, th1)) else
          let k = Kin_Set_position newpos homingAxes (th_Kin th1)
          in Some (Inr (th_emit ([EfTrapqSetPosition (PrintTime (core th1)) newpos] @ map EfKin (snd k) @
                                 [EfEvent ''toolhead:set_position''])
               (th1\<lparr>th_Trapq := trapq_set_position (PrintTime (core th1)) (xyz newpos) (th_Trapq th1),
                    core := (core th1)\<lparr>CommandedPos := newpos\<rparr>, th_Kin := fst k\<rparr>))))"

definition th_Dwell :: "time_env \<Rightarrow> real \<Rightarrow> Toolhead \<Rightarrow> th_result" where
  "th_Dwell env delay th =
     th_then (Get_last_move_time env th)
       (\<lambda>th1. th_then (map_option Inr (th_advance_move_time (PrintTime (core th1) + max 0 delay) th1))
          (Check_pause env))"

text \<open>The state that \<open>WaitToolheadMoves\<close> polls is the one read after the flush.\<close>

definition Wait_moves :: "time_env \<Rightarrow> Toolhead \<Rightarrow> th_result" where
  "Wait_moves env th =
     th_then (flush_lookahead env th)
       (\<lambda>th1. case WaitToolheadMoves (SpecialQueuingState (core th1)) (PrintTime (core th1))
                     (CanPause (core th1)) (te_monotonic env (th_reads th1)) (te_estimate env)
                     (te_pause env) DefaultPauseConfig of
                None \<Rightarrow> None
              | Some et \<Rightarrow> Some (Inr (th1\<lparr>th_reads := th_reads th1 + 1\<rparr>)))"

definition Set_extruder :: "Extruder \<Rightarrow> real \<Rightarrow> Toolhead \<Rightarrow> Toolhead" where
  "Set_extruder extruder extrude_pos th =
     th\<lparr>th_Extruder := extruder, core := (core th)\<lparr>CommandedPos := (CommandedPos (core th))[3 := extrude_pos]\<rparr>\<rparr>"

section \<open>Drip moves\<close>

definition drip_flush :: "time_env \<Rightarrow> Toolhead \<Rightarrow> th_result" where
  "drip_flush env th =
     (case flush_queue env False th of
        Some (Inl (DripModeEnd, th1)) \<Rightarrow>
          Some (Inr (th1\<lparr>lookahead := Reset (lookahead th1),
                         th_Trapq := trapq_finalize_moves NEVER 0 (th_Trapq th1)\<rparr>))
      | r \<Rightarrow> r)"

text \<open>
  Only a panic with a command error restarts the flush timer and the step generation before
  it propagates.  The errors of \<open>Move_error\<close>, index panics and the end of drip mode are values
  of other types.
\<close>

fun IsCommandError :: "th_error \<Rightarrow> bool" where
  "IsCommandError (MoveRejected e) = False"
| "IsCommandError (MovePanic e) = False"
| "IsCommandError DripModeEnd = False"

definition drip_submit :: "time_env \<Rightarrow> real list \<Rightarrow> real \<Rightarrow> Toolhead \<Rightarrow> th_result" where
  "drip_submit env newpos speed th =
     (case th_Move env newpos speed th of
        Some (Inl (e, th1)) \<Rightarrow>
          if IsCommandError e then
            (case Flush_step_generation env (th1\<lparr>Flush_timer := NOW\<rparr>) of
               Some (Inr th2) \<Rightarrow> Some (Inl (e, th2))
             | r \<Rightarrow> r)
          else Some (Inl (e, th1))
      | r \<Rightarrow> r)"

definition Drip_move :: "time_env \<Rightarrow> real list \<Rightarrow> real \<Rightarrow> Toolhead \<Rightarrow> th_result" where
  "Drip_move env newpos speed th =
     th_then (th_Dwell env (KinFlushDelay (core th)) th) (\<lambda>th1.
     th_then (flush_queue env False th1) (\<lambda>th2.
       let th3 = th2\<lparr>core := (core th2)\<lparr>SpecialQueuingState := ''Drip'', NeedCheckPause := NEVER,
                              DoKickFlushTimer := False, CheckStallTime := 0\<rparr>,
                     Flush_timer := NEVER,
                     lookahead := Set_flush_time BUFFER_TIME_HIGH (lookahead th2)\<rparr>
       in th_then (drip_submit env newpos speed th3) (\<lambda>th4.
          th_then (drip_flush env th4) (\<lambda>th5.
            Flush_step_generation env (th5\<lparr>Flush_timer := NOW\<rparr>)))))"

section \<open>Timers\<close>

text \<open>Both handlers return the next wake time next to the state.\<close>

definition Priming_handler :: "time_env \<Rightarrow> Toolhead \<Rightarrow> th_result" where
  "Priming_handler env th =
     (let th1 = th\<lparr>Priming_timer := None\<rparr> in
      case HandleToolheadPrimingTimer (SpecialQueuingState (core th1)) (PrintTime (core th1)) of
        (shouldFlush, stall) \<Rightarrow>
          if shouldFlush
          then th_then (flush_lookahead env th1)
                 (\<lambda>th2. Some (Inr (th2\<lparr>core := (core th2)\<lparr>CheckStallTime := stall\<rparr>\<rparr>)))
          else Some (Inr th1))"

definition flush_handler :: "time_env \<Rightarrow> real \<Rightarrow> Toolhead \<Rightarrow> th_result" where
  "flush_handler env eventtime th =
     (let plan = BuildToolheadFlushHandlerPlan eventtime (te_estimate env eventtime) (core th) DefaultFlushConfig
      in th_then (if ShouldFlushLookahead plan
                  then th_then (flush_lookahead env th)
                         (\<lambda>th1. Some (Inr (if PrintTime (core th) \<noteq> PrintTime (core th1)
                            then th1\<lparr>core := (core th1)\<lparr>CheckStallTime := PrintTime (core th1)\<rparr>\<rparr> else th1)))
                  else Some (Inr th))
           (\<lambda>th2. let th3 = fold th_advance_flush_time (AdvanceFlushTimes plan) th2;
                      th4 = (if KickFlushTimer plan
                             then th3\<lparr>core := (core th3)\<lparr>DoKickFlushTimer := True\<rparr>\<rparr> else th3)
                  in Some (Inr (th4\<lparr>Flush_timer := (if ReturnNever plan then NEVER else NextWakeTime plan)\<rparr>))))"

section \<open>Commands\<close>

text \<open>Parameters that are absent (NaN in the source) are \<open>None\<close>.\<close>

definition HandleToolheadSetVelocityLimitCommand :: "real option \<Rightarrow> real option \<Rightarrow> real option \<Rightarrow>
    real option \<Rightarrow> real option \<Rightarrow> Toolhead \<Rightarrow> bool \<times> Toolhead" where
  "HandleToolheadSetVelocityLimitCommand maxVelocity maxAccel squareCornerVelocity
     requestedAccelToDecel minimumCruiseRatio th =
     (let effectiveMaxAccel = opt_else maxAccel (MaxAccel (core th));
          requested = (case minimumCruiseRatio of
              None \<Rightarrow> requestedAccelToDecel
            | Some ratio \<Rightarrow> Some (effectiveMaxAccel * (1 - ratio)));
          result = ApplyToolheadVelocityLimitUpdate (VelocitySettings (core th))
            \<lparr>up_MaxVelocity = maxVelocity, up_MaxAccel = maxAccel,
             up_RequestedAccelToDecel = requested, up_SquareCornerVelocity = squareCornerVelocity\<rparr>;
          queryOnly = (maxVelocity = None \<and> maxAccel = None \<and> squareCornerVelocity = None \<and>
            requestedAccelToDecel = None \<and> minimumCruiseRatio = None)
      in (queryOnly, th_emit [EfRollover (vr_Summary result)]
            (th\<lparr>core := ApplyVelocityLimitResult result (core th)\<rparr>)))"

definition ApplyToolheadAcceleration :: "real \<Rightarrow> Toolhead \<Rightarrow> Toolhead" where
  "ApplyToolheadAcceleration accel th =
     th\<lparr>core := ApplyVelocityLimitResult
          (ApplyToolheadVelocityLimitUpdate (VelocitySettings (core th))
             (no_velocity_update\<lparr>up_MaxAccel := Some accel\<rparr>)) (core th)\<rparr>"

definition HandleToolheadM204Command :: "string \<Rightarrow> real option \<Rightarrow> real option \<Rightarrow> real option \<Rightarrow>
    Toolhead \<Rightarrow> Toolhead" where
  "HandleToolheadM204Command commandline s p t th =
     (case (s, p, t) of
        (Some accel, _, _) \<Rightarrow> ApplyToolheadAcceleration accel th
      | (None, Some pv, Some tv) \<Rightarrow> ApplyToolheadAcceleration (min pv tv) th
      | (None, Some pv, None) \<Rightarrow> ApplyToolheadAcceleration pv th
      | (None, None, Some tv) \<Rightarrow> ApplyToolheadAcceleration tv th
      | (None, None, None) \<Rightarrow> th_emit [EfRespondInfo (''Invalid M204 command: '' @ commandline)] th)"

definition HandleToolheadG4Command :: "time_env \<Rightarrow> real \<Rightarrow> Toolhead \<Rightarrow> th_result" where
  "HandleToolheadG4Command env p th = th_Dwell env (p / 1000) th"

definition Handle_shutdown :: "Toolhead \<Rightarrow> Toolhead" where
  "Handle_shutdown th = th\<lparr>core := (core th)\<lparr>CanPause := False\<rparr>, lookahead := Reset (lookahead th)\<rparr>"

definition Note_step_generation_scan_time :: "time_env \<Rightarrow> real \<Rightarrow> real \<Rightarrow> Toolhead \<Rightarrow> th_result" where
  "Note_step_generation_scan_time env delay old_delay th =
     th_then (Flush_step_generation env th)
       (\<lambda>th1. Some (Inr (th1\<lparr>core := UpdateStepGenerationScanDelay delay old_delay DefaultTimingConfig (core th1)\<rparr>)))"

definition Register_lookahead_callback :: "time_env \<Rightarrow> nat \<Rightarrow> Toolhead \<Rightarrow> th_result" where
  "Register_lookahead_callback env callback th =
     (case Get_last (lookahead th) of
        None \<Rightarrow> th_then (Get_last_move_time env th)
                  (\<lambda>th1. Some (Inr (th_emit [EfCallback callback (PrintTime (core th1))] th1)))
      | Some m \<Rightarrow> Some (Inr (th\<lparr>lookahead := (lookahead th)\<lparr>queue := butlast (queue (lookahead th)) @
                     [m\<lparr>Timing_callbacks := Timing_callbacks m @ [callback]\<rparr>]\<rparr>\<rparr>)))"

definition th_Stats :: "time_env \<Rightarrow> real \<Rightarrow> Toolhead \<Rightarrow> (bool \<times> real list) \<times> Toolhead" where
  "th_Stats env eventtime th =
     (let stats = BuildToolheadStats (PrintTime (core th)) (LastFlushTime (core th))
            (te_estimate env eventtime) (PrintStall (core th)) 30 (SpecialQueuingState (core th))
      in ((IsActive stats, st_Summary stats),
          th_emit [EfCheckActive (MaxQueueTime stats) eventtime]
            (th\<lparr>core := (core th)\<lparr>ClearHistoryTime := st_ClearHistoryTime stats\<rparr>\<rparr>)))"

definition Check_busy :: "time_env \<Rightarrow> real \<Rightarrow> Toolhead \<Rightarrow> real \<times> real \<times> bool" where
  "Check_busy env eventtime th =
     (PrintTime (core th), te_estimate env eventtime, Queue_len (lookahead th) = 0)"

definition th_Get_status :: "time_env \<Rightarrow> real \<Rightarrow> Toolhead \<Rightarrow> status" where
  "th_Get_status env eventtime th =
     BuildToolheadStatus (Kin_Get_status (th_Kin th)) (te_estimate env eventtime)
       (Extruder_Get_name (th_Extruder th)) (core th)"

definition NewToolhead :: "bool \<Rightarrow> nat \<Rightarrow> ToolheadVelocitySettings \<Rightarrow> Kinematics_impl \<Rightarrow> Toolhead" where
  "NewToolhead fileoutput mcus settings kin =
     \<lparr>core = ApplyVelocityLimitResult (BuildToolheadInitialVelocityResult settings)
               (NewToolheadCoreState (\<not> fileoutput)),
      lookahead = Set_flush_time BUFFER_TIME_HIGH NewMoveQueue, th_Extruder = DummyExtruder,
      th_Kin = kin, th_Trapq = trapq_alloc, th_mcus = mcus, th_Step_generators = 0,
      Flush_timer = NEVER, Priming_timer = None, th_reads = 0, th_effects = []\<rparr>"

end
