(* ===== verification/ToolheadMotion.thy ===== *)
theory ToolheadMotion
  imports Toolhead
begin

text \<open>
  The motion of the whole toolhead: moves are checked, joined and queued, batches are planned
  and fed to the motion queue, and the print time follows.  The invariant ties the look-ahead
  queue, the commanded position, the print time and the motion queue together; every
  operation on them keeps it, so the motion that is queued is continuous from the start of
  the program.
\<close>

section \<open>The sinks\<close>

definition extruder_ok :: "Extruder \<Rightarrow> bool" where
  "extruder_ok e = (case e of DummyExtruder \<Rightarrow> True
     | LegacyExtruder ex \<Rightarrow> 0 < Max_e_velocity ex \<and> 0 < Max_e_accel ex)"

lemma Extruder_Move_ok: "extruder_ok (fst (Extruder_Move t m e)) = extruder_ok e"
  by (cases e) (simp_all add: extruder_ok_def legacy_Move_def Let_def)

lemma fold_run_batch:
  "core (fold run_batch_event evs th) = core th \<and> lookahead (fold run_batch_event evs th) = lookahead th \<and>
   th_Kin (fold run_batch_event evs th) = th_Kin th \<and> th_mcus (fold run_batch_event evs th) = th_mcus th \<and>
   th_reads (fold run_batch_event evs th) = th_reads th \<and>
   extruder_ok (th_Extruder (fold run_batch_event evs th)) = extruder_ok (th_Extruder th) \<and>
   th_Trapq (fold run_batch_event evs th) = fold feed_event evs (th_Trapq th)"
proof (induction evs arbitrary: th)
  case (Cons e evs)
  then show ?case by (cases e) (simp_all add: th_emit_def Let_def Extruder_Move_ok)
qed simp

lemma run_flush_sel:
  "core (run_flush_event e th) = core th" "lookahead (run_flush_event e th) = lookahead th"
  "th_Kin (run_flush_event e th) = th_Kin th" "th_Extruder (run_flush_event e th) = th_Extruder th"
  by (cases e; simp add: th_emit_def)+

lemma fold_run_flush:
  "core (fold run_flush_event evs th) = core th" "lookahead (fold run_flush_event evs th) = lookahead th"
  "th_Kin (fold run_flush_event evs th) = th_Kin th"
  "th_Extruder (fold run_flush_event evs th) = th_Extruder th"
  by (induction evs arbitrary: th) (simp_all add: run_flush_sel)

definition durations_ok :: "trapq \<Rightarrow> bool" where
  "durations_ok tq \<longleftrightarrow> (\<forall>s\<in>set (moves tq). 0 \<le> move_t s)"

lemma finalize_moves_eq:
  "moves (trapq_finalize_moves t clear tq) = dropWhile (\<lambda>m. seg_end m \<le> t) (moves tq)"
  by (simp add: trapq_finalize_moves_def expire_moves_spec)

lemma finalize_at:
  assumes "tq_at tq t pos v" and "free < t"
  shows "tq_at (trapq_finalize_moves free clear tq) t pos v"
proof (cases "moves (trapq_finalize_moves free clear tq) = []")
  case True
  have "v = 0"
  proof (cases "moves tq = []")
    case True
    with assms(1) show ?thesis by (simp add: tq_at_def)
  next
    case False
    with True have "seg_end (last (moves tq)) \<le> free"
      using last_in_set[of "moves tq"] by (auto simp: finalize_moves_eq dropWhile_eq_Nil_conv)
    with assms False show ?thesis by (auto simp: tq_at_def seg_end_def)
  qed
  with True show ?thesis by (simp add: tq_at_def)
next
  case False
  let ?d = "dropWhile (\<lambda>m. seg_end m \<le> free) (moves tq)"
  have m: "moves (trapq_finalize_moves free clear tq) = ?d" by (rule finalize_moves_eq)
  have "\<exists>n. ?d = drop n (moves tq)" by (metis dropWhile_eq_drop)
  then obtain n where n: "?d = drop n (moves tq)" by blast
  have "last ?d = last (moves tq)" "moves tq \<noteq> []"
    using False unfolding m n by (auto simp: last_drop not_le)
  moreover have "adjacent seg_joined ?d" unfolding n using assms(1) by (simp add: tq_at_def adjacent_drop)
  ultimately show ?thesis using assms(1) False unfolding tq_at_def m by auto
qed

lemma finalize_durations: "durations_ok tq \<Longrightarrow> durations_ok (trapq_finalize_moves free clear tq)"
  by (auto simp: durations_ok_def finalize_moves_eq dest: set_dropWhileD)

lemma fold_run_flush_at:
  assumes "tq_at (th_Trapq th) t pos v" and "durations_ok (th_Trapq th)"
    and "\<forall>e\<in>set evs. event_ok c e" and "PrintTime c = t" and "0 < KinFlushDelay c"
  shows "tq_at (th_Trapq (fold run_flush_event evs th)) t pos v \<and>
    durations_ok (th_Trapq (fold run_flush_event evs th))"
  using assms(1-3)
proof (induction evs arbitrary: th)
  case (Cons e evs)
  have "tq_at (th_Trapq (run_flush_event e th)) t pos v \<and> durations_ok (th_Trapq (run_flush_event e th))"
    using Cons.prems assms(4,5)
    by (cases e) (auto simp: th_emit_def intro!: finalize_at finalize_durations)
  with Cons show ?case by simp
qed simp

lemma add_move_durations:
  "durations_ok tq \<Longrightarrow> 0 \<le> move_t s \<Longrightarrow> durations_ok (trapq_add_move s tq)"
  by (auto simp: durations_ok_def trapq_add_move_def Let_def MAX_NULL_MOVE_def split: if_splits)

lemma append_durations:
  assumes "durations_ok tq" "0 \<le> ta" "0 \<le> tc" "0 \<le> td"
  shows "durations_ok (trapq_append pt ta tc td pos r sv cv a tq)"
  unfolding trapq_append_parts Let_def add_part_def using assms by (auto intro!: add_move_durations)

lemma feed_durations:
  assumes "list_all trapezoid ms" and "durations_ok tq"
  shows "durations_ok (fold feed_event (fst (QueueMoveBatch t ms)) tq)"
  using assms
proof (induction ms arbitrary: t tq)
  case (Cons m ms)
  have "0 \<le> Accel_t m" "0 \<le> Cruise_t m" "0 \<le> Decel_t m" using Cons.prems(1) by (auto simp: trapezoid_def)
  then have "durations_ok (if Is_kinematic_move m then feed_event (QueueKinematicMove t m) tq else tq)"
    using Cons.prems(2) by (simp add: append_durations)
  from Cons.IH[OF _ this, of "t + (Accel_t m + Cruise_t m + Decel_t m)"] Cons.prems(1) show ?case
    by (cases "Is_kinematic_move m") (simp_all add: Let_def feed_callbacks)
qed simp

section \<open>Paths\<close>

definition path_move :: "Move \<Rightarrow> bool" where
  "path_move m \<longleftrightarrow> move_geometry m \<and> (\<not> Is_kinematic_move m \<longrightarrow> Max_start_v2 m = 0)"

definition path_step :: "Move \<Rightarrow> Move \<Rightarrow> bool" where
  "path_step a b \<longleftrightarrow> xyz (End_pos a) = xyz (Start_pos b) \<and> (\<not> Is_kinematic_move a \<longrightarrow> Max_start_v2 b = 0)"

definition path_ok :: "Move list \<Rightarrow> bool" where
  "path_ok q \<longleftrightarrow> (\<forall>m\<in>set q. path_move m) \<and> adjacent path_step q"

lemma adjacent_nth: "adjacent R xs \<longleftrightarrow> (\<forall>i. Suc i < length xs \<longrightarrow> R (xs ! i) (xs ! Suc i))"
proof (induction R xs rule: adjacent.induct)
  case (3 R x y zs)
  then show ?case by (auto simp: nth_Cons split: nat.splits)
qed auto

lemma planned_fields:
  assumes "planned_from r m"
  shows "Is_kinematic_move r = Is_kinematic_move m" "Start_pos r = Start_pos m" "End_pos r = End_pos m"
    "Max_start_v2 r = Max_start_v2 m" "Timing_callbacks r = Timing_callbacks m"
  using assms by (auto simp: planned_from_def Set_junction_def Let_def)

lemma entry_speed_drop:
  "k < length q \<Longrightarrow> entry_speed (drop k q) = sqrt (Max_start_v2 (q ! k))"
  "k \<ge> length q \<Longrightarrow> entry_speed (drop k q) = 0"
  by (simp_all add: entry_speed_def Cons_nth_drop_Suc[symmetric])

lemma batch_path:
  assumes p: "path_ok q" and b: "list_all2 planned_from b (take (length b) q)" and "b \<noteq> []"
    and k: "length b \<le> length q" and s: "adjacent same_speed b" and t: "list_all trapezoid b"
    and e: "End_v (last b) = entry_speed (drop (length b) q)"
  shows "list_all move_geometry b" "adjacent follows b" "list_all standing b"
proof -
  have pl: "planned_from (b ! i) (q ! i)" if "i < length b" for i
    using list_all2_nthD[OF b that] that k by simp
  have pm: "path_move (q ! i)" if "i < length q" for i using p that by (simp add: path_ok_def)
  have ps: "path_step (q ! i) (q ! Suc i)" if "Suc i < length q" for i
    using p that by (simp add: path_ok_def adjacent_nth)
  have st: "End_v (b ! i) = Start_v (b ! Suc i)" if "Suc i < length b" for i
    using s that by (simp add: adjacent_nth)
  have z: "Start_v (b ! i) = 0" if "i < length b" "Max_start_v2 (q ! i) = 0" for i
    using planned_start_limit[OF pl[OF that(1)]] t that by (simp add: list_all_length)
  show "list_all move_geometry b"
    using pm k planned_geometry(1)[OF pl] by (auto simp: list_all_length path_move_def)
  show "adjacent follows b"
    unfolding adjacent_nth
  proof (intro allI impI)
    fix i assume i: "Suc i < length b"
    then show "follows (b ! i) (b ! Suc i)"
      using st[OF i] ps[of i] k planned_fields(3)[OF pl[of i]] planned_fields(2)[OF pl[OF i]]
      by (simp add: follows_def path_step_def)
  qed
  have "End_v (b ! i) = 0" if i: "i < length b" and n: "\<not> Is_kinematic_move (b ! i)" for i
  proof (cases "Suc i < length b")
    case True
    have "Max_start_v2 (q ! Suc i) = 0"
      using ps[of i] True k n planned_fields(1)[OF pl[OF i]] by (simp add: path_step_def)
    with st[OF True] z[OF True] show ?thesis by simp
  next
    case False
    then have "length b = Suc i" using i by simp
    then have l: "last b = b ! i" "length b = Suc i" using assms(3) by (simp_all add: last_conv_nth)
    show ?thesis
    proof (cases "length b < length q")
      case True
      then have "Max_start_v2 (q ! Suc i) = 0"
        using ps[of i] l(2) n planned_fields(1)[OF pl[OF i]] by (simp add: path_step_def)
      with e entry_speed_drop(1)[OF True] l show ?thesis by simp
    qed (use e l in \<open>simp add: entry_speed_def\<close>)
  qed
  moreover have "Start_v (b ! i) = 0" if "i < length b" "\<not> Is_kinematic_move (b ! i)" for i
    using z pm[of i] that k planned_fields(1)[OF pl[OF that(1)]] by (simp add: path_move_def)
  ultimately show "list_all standing b" by (simp add: list_all_length standing_def)
qed


section \<open>The invariant\<close>

abbreviation th_queue :: "Toolhead \<Rightarrow> Move list" where
  "th_queue th \<equiv> queue (lookahead th)"

definition entry_pos :: "Toolhead \<Rightarrow> coord" where
  "entry_pos th = (if th_queue th = [] then xyz (CommandedPos (core th))
                   else xyz (Start_pos (hd (th_queue th))))"

definition lims_ok :: "Toolhead \<Rightarrow> bool" where
  "lims_ok th \<longleftrightarrow> wf_config (core_MoveConfig (core th)) \<and>
     (case th_Kin th of Cartesian k \<Rightarrow> 0 < cart_maxZVelocity k \<and> 0 < cart_maxZAccel k
      | CoreXY c \<Rightarrow> 0 < cxy_maxZVelocity c \<and> 0 < cxy_maxZAccel c | NoneKinematics a \<Rightarrow> True) \<and>
     extruder_ok (th_Extruder th)"

definition running :: "ToolheadCoreState \<Rightarrow> bool" where
  "running c \<longleftrightarrow> 0 < PrintTime c \<and> flushed_ok c"

text \<open>
  The queue is plannable and its path is connected up to the commanded position, and the
  motion queue continues at the print time exactly where and how fast the first queued move
  is entered.
\<close>

definition path_inv :: "Toolhead \<Rightarrow> bool" where
  "path_inv th \<longleftrightarrow> queue_ok (lookahead th) \<and> path_ok (th_queue th) \<and>
     (th_queue th \<noteq> [] \<longrightarrow> xyz (End_pos (last (th_queue th))) = xyz (CommandedPos (core th))) \<and>
     LastFlushTime (core th) \<le> max 0 (PrintTime (core th) - KinFlushDelay (core th)) \<and>
     0 < KinFlushDelay (core th) \<and> lims_ok th \<and> durations_ok (th_Trapq th) \<and>
     tq_at (th_Trapq th) (PrintTime (core th)) (entry_pos th) (entry_speed (th_queue th)) \<and>
     SpecialQueuingState (core th) \<noteq> ''Drip''"

definition motion_inv :: "Toolhead \<Rightarrow> bool" where
  "motion_inv th \<longleftrightarrow> path_inv th \<and>
     (if SpecialQueuingState (core th) = [] then running (core th) else entry_speed (th_queue th) = 0)"

text \<open>
  When a batch is processed in a special queuing state the print time may be moved: this
  keeps the motion continuous if the first move starts from rest or if the print time has
  enough lead so that it is not moved.
\<close>

definition has_lead :: "time_env \<Rightarrow> Toolhead \<Rightarrow> bool" where
  "has_lead env th \<longleftrightarrow> PrintTime (core (th_calc_print_time env th)) = PrintTime (core th)"

definition can_process :: "time_env \<Rightarrow> Toolhead \<Rightarrow> bool" where
  "can_process env th \<longleftrightarrow> path_inv th \<and>
     (if SpecialQueuingState (core th) = [] then running (core th)
      else entry_speed (th_queue th) = 0 \<or> has_lead env th)"

lemma motion_can_process: "motion_inv th \<Longrightarrow> can_process env th"
  by (auto simp: motion_inv_def can_process_def)

lemma calc_print_time_spec:
  fixes th :: Toolhead
  assumes "\<forall>n. 0 \<le> te_estimate env (te_monotonic env n)"
  defines "pt \<equiv> PrintTime (core (th_calc_print_time env th))"
  shows "\<exists>evs. th_calc_print_time env th =
      th\<lparr>core := (core th)\<lparr>PrintTime := pt\<rparr>, th_reads := th_reads th + 1, th_effects := evs\<rparr>"
    "0 < pt" "PrintTime (core th) \<le> pt" "KinFlushDelay (core th) \<le> pt"
proof -
  define c where "c = fst (CalcPrintTime DefaultTimingConfig (te_monotonic env (th_reads th)) (te_estimate env) (core th))"
  have c: "pt = PrintTime c" "c = (core th)\<lparr>PrintTime := PrintTime c\<rparr>" "PrintTime (core th) \<le> PrintTime c"
    "te_estimate env (te_monotonic env (th_reads th)) + 0.25 \<le> PrintTime c"
    "te_estimate env (te_monotonic env (th_reads th)) + KinFlushDelay (core th) \<le> PrintTime c"
    by (auto simp: pt_def c_def th_calc_print_time_def th_emit_def CalcPrintTime_def Let_def
        DefaultTimingConfig_def split: prod.splits)
  show "\<exists>evs. th_calc_print_time env th =
      th\<lparr>core := (core th)\<lparr>PrintTime := pt\<rparr>, th_reads := th_reads th + 1, th_effects := evs\<rparr>"
    unfolding c(1) c(2)[symmetric] by (simp add: th_calc_print_time_def th_emit_def c_def split: prod.splits) blast
  show "0 < pt" "PrintTime (core th) \<le> pt" "KinFlushDelay (core th) \<le> pt"
    using c assms(1)[rule_format, of "th_reads th"] by auto
qed

lemma tq_at_later: "tq_at tq t pos v \<Longrightarrow> t \<le> t' \<Longrightarrow> v = 0 \<or> t' = t \<Longrightarrow> tq_at tq t' pos v"
  by (auto simp: tq_at_def)

text \<open>The state in which the batch is queued.\<close>

definition process_start :: "time_env \<Rightarrow> Toolhead \<Rightarrow> Toolhead" where
  "process_start env th =
     (if SpecialQueuingState (core th) \<noteq> [] then
        th_calc_print_time env
          (if SpecialQueuingState (core th) \<noteq> ''Drip''
           then th\<lparr>core := (core th)\<lparr>SpecialQueuingState := [], NeedCheckPause := - 1\<rparr>\<rparr>
           else th)
      else th)"

lemma calc_print_time_cong:
  "PrintTime (core (th_calc_print_time env (th\<lparr>core := (core th)\<lparr>SpecialQueuingState := s, NeedCheckPause := n\<rparr>\<rparr>)))
   = PrintTime (core (th_calc_print_time env th))"
  "PrintTime (core (th_calc_print_time env (th\<lparr>core := (core th)\<lparr>SpecialQueuingState := s, NeedCheckPause := n,
     CheckStallTime := x\<rparr>\<rparr>)))
   = PrintTime (core (th_calc_print_time env th))"
  by (simp_all add: th_calc_print_time_def CalcPrintTime_def Let_def th_emit_def split: prod.splits)

lemma process_start_spec:
  fixes th :: Toolhead
  assumes "can_process env th" and "\<forall>n. 0 \<le> te_estimate env (te_monotonic env n)"
  defines "th1 \<equiv> process_start env th"
  shows "SpecialQueuingState (core th1) = []" "0 < PrintTime (core th1)"
    "lookahead th1 = lookahead th" "th_Kin th1 = th_Kin th" "th_Extruder th1 = th_Extruder th"
    "th_Trapq th1 = th_Trapq th" "flushed_ok (core th1)"
    "same_plan (core th) ((core th1)\<lparr>SpecialQueuingState := SpecialQueuingState (core th),
        NeedCheckPause := NeedCheckPause (core th)\<rparr>)"
    "tq_at (th_Trapq th1) (PrintTime (core th1)) (entry_pos th) (entry_speed (th_queue th))"
    "PrintTime (core th) \<le> PrintTime (core th1)"
proof -
  have p: "path_inv th" using assms(1) by (simp add: can_process_def)
  have "SpecialQueuingState (core th1) = [] \<and> 0 < PrintTime (core th1) \<and>
    lookahead th1 = lookahead th \<and> th_Kin th1 = th_Kin th \<and> th_Extruder th1 = th_Extruder th \<and>
    th_Trapq th1 = th_Trapq th \<and> flushed_ok (core th1) \<and>
    same_plan (core th) ((core th1)\<lparr>SpecialQueuingState := SpecialQueuingState (core th),
        NeedCheckPause := NeedCheckPause (core th)\<rparr>) \<and>
    tq_at (th_Trapq th1) (PrintTime (core th1)) (entry_pos th) (entry_speed (th_queue th)) \<and>
    PrintTime (core th) \<le> PrintTime (core th1)"
  proof (cases "SpecialQueuingState (core th) = []")
    case True
    with assms(1) p show ?thesis
      by (auto simp: th1_def process_start_def can_process_def path_inv_def same_plan_def running_def core_MoveConfig_def)
  next
    case False
    define th0 where "th0 = th\<lparr>core := (core th)\<lparr>SpecialQueuingState := [], NeedCheckPause := - 1\<rparr>\<rparr>"
    define pt where "pt = PrintTime (core (th_calc_print_time env th0))"
    have nd: "SpecialQueuingState (core th) \<noteq> ''Drip''" using p by (simp add: path_inv_def)
    then have t1: "th1 = th_calc_print_time env th0" using False by (simp add: th1_def process_start_def th0_def)
    note cs = calc_print_time_spec[OF assms(2), of th0, folded pt_def]
    obtain evs where e: "th1 = th0\<lparr>core := (core th0)\<lparr>PrintTime := pt\<rparr>, th_reads := th_reads th0 + 1, th_effects := evs\<rparr>"
      using cs(1) t1 by blast
    have ptc: "pt = PrintTime (core (th_calc_print_time env th))"
      unfolding pt_def th0_def by (rule calc_print_time_cong)
    have le: "PrintTime (core th) \<le> pt" "KinFlushDelay (core th) \<le> pt" using cs(3,4) by (simp_all add: th0_def)
    have "entry_speed (th_queue th) = 0 \<or> pt = PrintTime (core th)"
      using assms(1) False by (auto simp: can_process_def has_lead_def ptc)
    then have "tq_at (th_Trapq th) pt (entry_pos th) (entry_speed (th_queue th))"
      using p le by (auto simp: path_inv_def intro: tq_at_later)
    with cs(2) le p show ?thesis
      unfolding e by (auto simp: th0_def path_inv_def same_plan_def flushed_ok_def core_MoveConfig_def)
  qed
  then show "SpecialQueuingState (core th1) = []" "0 < PrintTime (core th1)"
    "lookahead th1 = lookahead th" "th_Kin th1 = th_Kin th" "th_Extruder th1 = th_Extruder th"
    "th_Trapq th1 = th_Trapq th" "flushed_ok (core th1)"
    "same_plan (core th) ((core th1)\<lparr>SpecialQueuingState := SpecialQueuingState (core th),
        NeedCheckPause := NeedCheckPause (core th)\<rparr>)"
    "tq_at (th_Trapq th1) (PrintTime (core th1)) (entry_pos th) (entry_speed (th_queue th))"
    "PrintTime (core th) \<le> PrintTime (core th1)"
    by auto
qed

section \<open>Flushing\<close>

lemma timing_config: "0 < MoveBatchTime DefaultTimingConfig" "0 \<le> StepcompressFlushTime DefaultTimingConfig"
  by (simp_all add: DefaultTimingConfig_def)

lemma advance_move_time_spec:
  assumes "flushed_ok (core th)" and "0 < KinFlushDelay (core th)"
    and "tq_at (th_Trapq th) (max (PrintTime (core th)) npt) pos v" and "durations_ok (th_Trapq th)"
  obtains th' where "th_advance_move_time npt th = Some th'"
    "PrintTime (core th') = max (PrintTime (core th)) npt" "same_plan (core th) (core th')"
    "flushed_ok (core th')" "lookahead th' = lookahead th" "th_Kin th' = th_Kin th"
    "th_Extruder th' = th_Extruder th" "durations_ok (th_Trapq th')"
    "tq_at (th_Trapq th') (PrintTime (core th')) pos v"
proof -
  from AdvanceMoveTime_returns[OF timing_config assms(1), of npt "timingFlushActions th"]
  obtain c evs where a: "AdvanceMoveTime npt DefaultTimingConfig (timingFlushActions th) (core th) = Some (c, evs)"
    "PrintTime c = max (PrintTime (core th)) npt" "same_plan (core th) c" "flushed_ok c"
    "\<forall>e\<in>set evs. event_ok c e" by auto
  let ?th' = "fold run_flush_event evs (th\<lparr>core := c\<rparr>)"
  have k: "0 < KinFlushDelay c" using a(3) assms(2) by (simp add: same_plan_def)
  have "tq_at (th_Trapq ?th') (PrintTime c) pos v \<and> durations_ok (th_Trapq ?th')"
    using assms(3,4) a k by (intro fold_run_flush_at[where c = c]) simp_all
  with a that[of ?th'] show thesis by (simp add: th_advance_move_time_def fold_run_flush)
qed

lemma note_activity_sel:
  "lookahead (Note_mcu_movequeue_activity t s th) = lookahead th"
  "th_Kin (Note_mcu_movequeue_activity t s th) = th_Kin th"
  "th_Extruder (Note_mcu_movequeue_activity t s th) = th_Extruder th"
  "th_Trapq (Note_mcu_movequeue_activity t s th) = th_Trapq th"
  "PrintTime (core (Note_mcu_movequeue_activity t s th)) = PrintTime (core th)"
  "flushed_ok (core (Note_mcu_movequeue_activity t s th)) = flushed_ok (core th)"
  "same_plan (core th) (core (Note_mcu_movequeue_activity t s th))"
  by (auto simp: Note_mcu_movequeue_activity_def NoteMovequeueActivity_def Let_def flushed_ok_def
      same_plan_def core_MoveConfig_def)

lemma process_start_lookahead:
  "process_start env (th\<lparr>lookahead := l\<rparr>) = (process_start env th)\<lparr>lookahead := l\<rparr>"
  by (simp add: process_start_def th_calc_print_time_def th_emit_def split: prod.splits)

lemma same_plan_trans: "same_plan a b \<Longrightarrow> same_plan b c \<Longrightarrow> same_plan a c"
  by (simp add: same_plan_def)

text \<open>Processing a planned batch moves the print time and the motion queue to the batch's end.\<close>

lemma Process_moves_spec:
  fixes th :: Toolhead and env :: time_env
  defines "th1 \<equiv> process_start env th"
  assumes "SpecialQueuingState (core th1) = []" "0 < PrintTime (core th1)" "flushed_ok (core th1)"
    and "0 < KinFlushDelay (core th1)" and "durations_ok (th_Trapq th1)"
    and b: "list_all trapezoid ms" "list_all move_geometry ms" "list_all standing ms" "adjacent follows ms" "ms \<noteq> []"
    and "tq_at (th_Trapq th1) (PrintTime (core th1)) (xyz (Start_pos (hd ms))) (Start_v (hd ms))"
  obtains th' where "Process_moves env ms th = Some (Inr th')" "same_plan (core th1) (core th')"
    "flushed_ok (core th')" "PrintTime (core th1) \<le> PrintTime (core th')" "th_Kin th' = th_Kin th1"
    "extruder_ok (th_Extruder th') = extruder_ok (th_Extruder th1)" "durations_ok (th_Trapq th')"
    "tq_at (th_Trapq th') (PrintTime (core th')) (xyz (End_pos (last ms))) (End_v (last ms))"
proof -
  define t where "t = PrintTime (core th1)"
  define th2 where "th2 = fold run_batch_event (fst (QueueMoveBatch t ms)) th1"
  define e where "e = snd (QueueMoveBatch t ms)"
  define th3 where "th3 = Note_mcu_movequeue_activity (e + KinFlushDelay (core th2)) True th2"
  have f: "core th2 = core th1" "th_Kin th2 = th_Kin th1"
    "extruder_ok (th_Extruder th2) = extruder_ok (th_Extruder th1)"
    "th_Trapq th2 = fold feed_event (fst (QueueMoveBatch t ms)) (th_Trapq th1)"
    by (simp_all add: th2_def fold_run_batch)
  have te: "t \<le> e" using sum_move_time[OF b(1)] by (simp add: e_def QueueMoveBatch_end)
  note n = note_activity_sel[where t = "e + KinFlushDelay (core th2)" and s = True and th = th2, folded th3_def, unfolded f]
  have at: "tq_at (th_Trapq th3) (max (PrintTime (core th3)) e) (xyz (End_pos (last ms))) (End_v (last ms))"
    using feed_batch[OF b(1-5), of t "th_Trapq th1"] assms te n by (simp add: t_def e_def max_def)
  have du: "durations_ok (th_Trapq th3)"
    unfolding n by (rule feed_durations[OF b(1) assms(6)])
  have fl: "flushed_ok (core th3)" "0 < KinFlushDelay (core th3)"
    using n(6,7) assms by (simp_all add: same_plan_def)
  obtain th' where "th_advance_move_time e th3 = Some th'"
    and r: "PrintTime (core th') = max (PrintTime (core th3)) e" "same_plan (core th3) (core th')"
    "flushed_ok (core th')" "th_Kin th' = th_Kin th3" "th_Extruder th' = th_Extruder th3"
    "durations_ok (th_Trapq th')"
    "tq_at (th_Trapq th') (PrintTime (core th')) (xyz (End_pos (last ms))) (End_v (last ms))"
    by (rule advance_move_time_spec[OF fl at du]) blast
  moreover have "Process_moves env ms th = map_option Inr (th_advance_move_time e th3)"
    using assms(2) f(1) unfolding Process_moves_def process_start_def[symmetric] th1_def[symmetric]
    by (simp add: Let_def th_then_def th2_def[symmetric] t_def[symmetric] e_def[symmetric] th3_def)
  moreover have "same_plan (core th1) (core th')" by (rule same_plan_trans[OF n(7) r(2)])
  ultimately show thesis using that[of th'] n f by (simp add: t_def)
qed

text \<open>What a flush keeps of the toolhead.\<close>

definition keeps_plan :: "Toolhead \<Rightarrow> Toolhead \<Rightarrow> bool" where
  "keeps_plan th th' \<longleftrightarrow> CommandedPos (core th') = CommandedPos (core th) \<and>
     core_MoveConfig (core th') = core_MoveConfig (core th) \<and> CanPause (core th') = CanPause (core th) \<and>
     KinFlushDelay (core th') = KinFlushDelay (core th) \<and> PrintTime (core th) \<le> PrintTime (core th') \<and>
     th_Kin th' = th_Kin th"

lemma path_ok_drop: "path_ok q \<Longrightarrow> path_ok (drop k q)"
  by (auto simp: path_ok_def adjacent_drop dest: in_set_dropD)

lemma batch_end_pos:
  assumes "path_inv th" "ms \<noteq> []" "length ms \<le> length (th_queue th)"
    and "End_pos (last ms) = End_pos (th_queue th ! (length ms - 1))"
  shows "(if drop (length ms) (th_queue th) = [] then xyz (CommandedPos (core th))
      else xyz (Start_pos (hd (drop (length ms) (th_queue th))))) = xyz (End_pos (last ms))"
proof (cases "length ms = length (th_queue th)")
  case True
  with assms show ?thesis by (auto simp: path_inv_def last_conv_nth)
next
  case False
  define j where "j = length ms - 1"
  have j: "length ms = Suc j" "Suc j < length (th_queue th)" using False assms(2,3) by (auto simp: j_def)
  then have "path_step (th_queue th ! j) (th_queue th ! Suc j)"
    using assms(1) by (simp add: path_inv_def path_ok_def adjacent_nth)
  with j assms(4) show ?thesis by (simp add: path_step_def hd_drop_conv_nth)
qed

lemma flush_queue_spec:
  assumes cp: "can_process env th" and est: "\<forall>n. 0 \<le> te_estimate env (te_monotonic env n)"
    and F: "Flush lazy (lookahead th) = (Some ms, lq)"
  obtains th' where "flush_queue env lazy th = Some (Inr th')" "path_inv th'" "lookahead th' = lq"
    "SpecialQueuingState (core th') = []" "running (core th')" "keeps_plan th th'"
proof -
  define th0 where "th0 = th\<lparr>lookahead := lq\<lparr>queue := ms @ queue lq\<rparr>\<rparr>"
  define th1 where "th1 = process_start env th0"
  have p: "path_inv th" using cp by (simp add: can_process_def)
  have th1: "th1 = (process_start env th)\<lparr>lookahead := lq\<lparr>queue := ms @ queue lq\<rparr>\<rparr>"
    by (simp add: th1_def th0_def process_start_lookahead)
  note ps = process_start_spec[OF cp est]
  have ok: "queue_ok (lookahead th)" "path_ok (th_queue th)" "durations_ok (th_Trapq th)"
    "0 < KinFlushDelay (core th)" using p by (auto simp: path_inv_def)
  from Flush_batch[OF ok(1) F] have fb: "list_all trapezoid ms" "adjacent same_speed ms" "ms \<noteq> []"
    "Start_v (hd ms) = entry_speed (th_queue th)" "End_v (last ms) = entry_speed (queue lq)"
    "list_all2 planned_from ms (take (length ms) (th_queue th))" "queue lq = drop (length ms) (th_queue th)"
    by auto
  have len: "length ms \<le> length (th_queue th)" using list_all2_lengthD[OF fb(6)] by simp
  have ne: "th_queue th \<noteq> []" using len fb(3) by auto
  have nth: "planned_from (ms ! i) (th_queue th ! i)" if "i < length ms" for i
    using list_all2_nthD[OF fb(6) that] that len by simp
  have hd: "Start_pos (hd ms) = Start_pos (hd (th_queue th))"
    using planned_fields(2)[OF nth[of 0]] fb(3) ne by (simp add: hd_conv_nth)
  have ep: "entry_pos th = xyz (Start_pos (hd ms))" using hd ne by (simp add: entry_pos_def)
  have lst: "End_pos (last ms) = End_pos (th_queue th ! (length ms - 1))"
    using planned_fields(3)[OF nth[of "length ms - 1"]] fb(3) by (simp add: last_conv_nth)
  note bp = batch_path[OF ok(2) fb(6,3) len fb(2,1), folded fb(7), OF fb(5)]
  have "0 < KinFlushDelay (core th1)" using ps(8) ok(4) by (simp add: th1 same_plan_def)
  then obtain th' where r: "Process_moves env ms th0 = Some (Inr th')" "same_plan (core th1) (core th')"
    "flushed_ok (core th')" "PrintTime (core th1) \<le> PrintTime (core th')" "th_Kin th' = th_Kin th1"
    "extruder_ok (th_Extruder th') = extruder_ok (th_Extruder th1)" "durations_ok (th_Trapq th')"
    "tq_at (th_Trapq th') (PrintTime (core th')) (xyz (End_pos (last ms))) (End_v (last ms))"
    using ps ok(3) fb(4) ep by (elim Process_moves_spec[of env th0 ms, folded th1_def, OF _ _ _ _ _ fb(1) bp(1,3,2) fb(3), rotated -1])
      (simp_all add: th1)
  let ?th = "th'\<lparr>lookahead := lq\<rparr>"
  have ep': "entry_pos ?th = xyz (End_pos (last ms))"
    using batch_end_pos[OF p fb(3) len lst] r(2) ps(8)
    by (simp add: entry_pos_def fb(7) th1 same_plan_def split: if_splits)
  have "core_MoveConfig (core th') = core_MoveConfig (core th)"
    using r(2) ps(8) by (simp add: th1 same_plan_def core_MoveConfig_def)
  moreover have "last (queue lq) = last (th_queue th)" if "queue lq \<noteq> []"
    using that fb(7) by (simp add: last_drop)
  ultimately have "path_inv ?th"
    using p Flush_queue_ok[OF ok(1), of lazy] F fb path_ok_drop[OF ok(2)] r ps ep'
    by (auto simp: path_inv_def lims_ok_def same_plan_def th1 flushed_ok_def)
  moreover have "flush_queue env lazy th = Some (Inr ?th)"
    by (simp add: flush_queue_def F th_then_def r(1)[unfolded th0_def])
  moreover have "keeps_plan th ?th"
    using r(2,4,5) ps(4,8,10) \<open>core_MoveConfig (core th') = core_MoveConfig (core th)\<close>
    by (simp add: keeps_plan_def same_plan_def th1)
  ultimately show thesis using that[of ?th] r(2,3,4) ps by (simp add: th1 same_plan_def running_def)
qed

lemma flush_queue_motion:
  assumes cp: "can_process env th" and est: "\<forall>n. 0 \<le> te_estimate env (te_monotonic env n)"
  obtains th' where "flush_queue env lazy th = Some (Inr th')" "path_inv th'" "keeps_plan th th'"
    "lookahead th' = snd (Flush lazy (lookahead th))"
    "if fst (Flush lazy (lookahead th)) = None then core th' = core th
     else SpecialQueuingState (core th') = [] \<and> running (core th')"
proof (cases "fst (Flush lazy (lookahead th))")
  case None
  then obtain lq where F: "Flush lazy (lookahead th) = (None, lq)" by (cases "Flush lazy (lookahead th)") auto
  have q: "queue lq = th_queue th" by (rule Flush_None[OF F])
  have p: "path_inv th" using cp by (simp add: can_process_def)
  let ?th = "th\<lparr>lookahead := lq\<rparr>"
  have "path_inv ?th" using p by (simp add: path_inv_def q queue_ok_def entry_pos_def lims_ok_def split: if_splits)
  with None F that[of ?th] show thesis by (simp add: flush_queue_def keeps_plan_def)
next
  case (Some ms)
  then obtain lq where F: "Flush lazy (lookahead th) = (Some ms, lq)" by (cases "Flush lazy (lookahead th)") auto
  obtain th' where "flush_queue env lazy th = Some (Inr th')" "path_inv th'" "lookahead th' = lq"
    "SpecialQueuingState (core th') = []" "running (core th')" "keeps_plan th th'"
    by (rule flush_queue_spec[OF cp est F])
  with that[of th'] F show thesis by simp
qed

lemma Flush_empty: "queue lq = [] \<Longrightarrow> fst (Flush lazy lq) = None"
  by (auto simp: Flush_def Let_def flush_init_def)

lemma Flush_all: "queue (snd (Flush False lq)) = []"
proof (cases "queue lq = []")
  case True
  then show ?thesis by (simp add: Flush_def Let_def)
next
  case False
  from Flush_full[OF this] show ?thesis by (auto simp: Reset_def)
qed

lemma motion_inv_change:
  assumes "motion_inv th" and "lims_ok th'"
    and "PrintTime (core th') = PrintTime (core th)" "xyz (CommandedPos (core th')) = xyz (CommandedPos (core th))"
    "KinFlushDelay (core th') = KinFlushDelay (core th)" "LastFlushTime (core th') = LastFlushTime (core th)"
    "SpecialQueuingState (core th') = SpecialQueuingState (core th)" "lookahead th' = lookahead th"
    "th_Trapq th' = th_Trapq th"
  shows "motion_inv th'"
proof -
  have "entry_pos th' = entry_pos th" "running (core th') = running (core th)"
    using assms(3-) by (simp_all add: entry_pos_def running_def flushed_ok_def)
  with assms show ?thesis by (simp add: motion_inv_def path_inv_def)
qed

lemma motion_inv_cong:
  assumes "PrintTime (core th') = PrintTime (core th)" "CommandedPos (core th') = CommandedPos (core th)"
    "KinFlushDelay (core th') = KinFlushDelay (core th)" "LastFlushTime (core th') = LastFlushTime (core th)"
    "core_MoveConfig (core th') = core_MoveConfig (core th)"
    "SpecialQueuingState (core th') = SpecialQueuingState (core th)" "lookahead th' = lookahead th"
    "th_Kin th' = th_Kin th" "th_Extruder th' = th_Extruder th" "th_Trapq th' = th_Trapq th"
  shows "motion_inv th' = motion_inv th"
  using assms by (simp add: motion_inv_def path_inv_def entry_pos_def lims_ok_def running_def flushed_ok_def)

lemma motion_inv_flushed:
  assumes "path_inv th'" "motion_inv th" "keeps_plan th th'"
    "lookahead th' = snd (Flush lazy (lookahead th))"
    "if fst (Flush lazy (lookahead th)) = None then core th' = core th
     else SpecialQueuingState (core th') = [] \<and> running (core th')"
  shows "motion_inv th'"
proof (cases "fst (Flush lazy (lookahead th))")
  case None
  then have "th_queue th' = th_queue th"
    using Flush_None[of lazy "lookahead th"] assms(4) by (cases "Flush lazy (lookahead th)") auto
  moreover have "core th' = core th" using None assms(5) by simp
  ultimately show ?thesis using assms(1,2) by (simp add: motion_inv_def)
qed (use assms in \<open>simp add: motion_inv_def\<close>)

section \<open>Moves\<close>

lemma check_move_limited:
  assumes "Kin_Check_move m kin = Inr m'" "fresh_move m"
    and "case kin of Cartesian k \<Rightarrow> 0 < cart_maxZVelocity k \<and> 0 < cart_maxZAccel k
      | CoreXY c \<Rightarrow> 0 < cxy_maxZVelocity c \<and> 0 < cxy_maxZAccel c | NoneKinematics a \<Rightarrow> True"
  shows "fresh_move m' \<and> Is_kinematic_move m' = Is_kinematic_move m \<and> Start_pos m' = Start_pos m \<and>
    End_pos m' = End_pos m \<and> move_geometry m' = move_geometry m \<and> Axes_d m' = Axes_d m"
proof (cases kin)
  case (Cartesian k)
  with assms cart.accepted_fresh[of m k m'] cart.check_result[of m k m'] show ?thesis
    by (auto simp: move_geometry_def split: if_splits)
next
  case (CoreXY c)
  with assms cxy.accepted_fresh[of m c m'] cxy.check_result[of m c m'] show ?thesis
    by (auto simp: move_geometry_def split: if_splits)
qed (use assms in auto)

lemma extruder_move_limited:
  assumes "fresh_move m" and "extruder_ok e"
  shows "fresh_move (CheckExtruderMove m e) \<and> Is_kinematic_move (CheckExtruderMove m e) = Is_kinematic_move m \<and>
    Start_pos (CheckExtruderMove m e) = Start_pos m \<and> End_pos (CheckExtruderMove m e) = End_pos m \<and>
    move_geometry (CheckExtruderMove m e) = move_geometry m"
proof (cases "Extruder_Check_move m e")
  case (Inl err)
  with assms show ?thesis by (simp add: CheckExtruderMove_def)
next
  case (Inr m')
  then obtain ex where e: "e = LegacyExtruder ex" by (cases e) auto
  with Inr have c: "CheckExtrusionMove m (legacy_limits ex) = Inr m'" by (simp add: legacy_Check_move_def)
  have "fresh_move m'"
    using assms e by (intro CheckExtrusionMove_fresh[OF c]) (auto simp: extruder_ok_def legacy_limits_def)
  moreover have "Is_kinematic_move m' = Is_kinematic_move m \<and> Start_pos m' = Start_pos m \<and>
      End_pos m' = End_pos m \<and> move_geometry m' = move_geometry m"
    using c by (auto simp: CheckExtrusionMove_def Let_def move_geometry_def split: if_splits)
  ultimately show ?thesis using Inr by (simp add: CheckExtruderMove_def)
qed

lemma junction_path:
  assumes "fresh_move m"
  shows "path_step p (Calc_junction e p m) = (xyz (End_pos p) = xyz (Start_pos m))"
    "\<not> Is_kinematic_move m \<longrightarrow> Max_start_v2 (Calc_junction e p m) = 0"
    "Is_kinematic_move (Calc_junction e p m) = Is_kinematic_move m"
    "End_pos (Calc_junction e p m) = End_pos m"
proof -
  let ?m' = "Calc_junction e p m"
  have same: "Start_pos ?m' = Start_pos m" "Is_kinematic_move ?m' = Is_kinematic_move m" "End_pos ?m' = End_pos m"
    by (cases rule: Calc_junction_shape[of e p m]; simp)+
  have z: "Max_start_v2 ?m' = 0" if "\<not> (Is_kinematic_move m \<and> Is_kinematic_move p)"
  proof -
    have "?m' = m" using that by (auto simp: Calc_junction_def)
    then show ?thesis using assms by (simp add: fresh_move_def)
  qed
  with same show "path_step p ?m' = (xyz (End_pos p) = xyz (Start_pos m))"
    "\<not> Is_kinematic_move m \<longrightarrow> Max_start_v2 ?m' = 0"
    "Is_kinematic_move ?m' = Is_kinematic_move m" "End_pos ?m' = End_pos m"
    by (auto simp: path_step_def)
qed

text \<open>Queueing a checked move that starts at the commanded position keeps the invariant.\<close>

lemma Add_move_motion:
  fixes e :: Extruder
  assumes inv: "motion_inv th" and m: "fresh_move m" "move_geometry m"
    and s: "xyz (Start_pos m) = xyz (CommandedPos (core th))"
  defines "th' \<equiv> th\<lparr>core := (core th)\<lparr>CommandedPos := End_pos m\<rparr>,
      lookahead := snd (Add_move (Some (Extruder_Calc_junction e)) m (lookahead th))\<rparr>"
  shows "motion_inv th'"
proof -
  have p: "path_inv th" using inv by (simp add: motion_inv_def)
  have qo: "queue_ok (lookahead th')"
    using extruder.Add_move_ok[OF _ m(1)] p by (simp add: th'_def path_inv_def)
  have es: "entry_speed (th_queue th') = entry_speed (th_queue th)"
    using extruder.Add_move_entry[of e m "lookahead th"] m(1)
    by (simp add: th'_def fresh_move_def entry_speed_Nil split: if_splits)
  have q: "th_queue th' = th_queue th @ [if th_queue th = [] then m
      else Calc_junction (Some (Extruder_Calc_junction e)) (last (th_queue th)) m]"
    by (auto simp: th'_def Add_move_def Let_def)
  have pm: "path_move m" using m by (simp add: path_move_def fresh_move_def)
  have po: "path_ok (th_queue th')"
    using p pm s m unfolding q
    by (auto simp: path_ok_def path_inv_def adjacent_append junction_path path_move_def Calc_junction_geometry_kept)
  have le: "End_pos (last (th_queue th')) = End_pos m"
    unfolding q using m(1) by (simp add: junction_path)
  have ep: "entry_pos th' = entry_pos th"
    using s unfolding entry_pos_def q by (simp add: hd_append)
  have "path_inv th'"
    using p qo po le es ep
    by (auto simp: path_inv_def th'_def flushed_ok_def lims_ok_def core_MoveConfig_def)
  with inv es show ?thesis by (simp add: motion_inv_def th'_def running_def flushed_ok_def split: if_splits)
qed

section \<open>Pauses and waits\<close>

text \<open>A clock that runs: print time advances with the event time and every pause ends later.\<close>

definition clock_ok :: "time_env \<Rightarrow> bool" where
  "clock_ok env \<longleftrightarrow> (\<forall>n. 0 \<le> te_estimate env (te_monotonic env n)) \<and>
     (\<exists>rate tick. 0 < rate \<and> 0 < tick \<and>
        (\<forall>a b. a \<le> b \<longrightarrow> rate * (b - a) \<le> te_estimate env b - te_estimate env a) \<and>
        (\<forall>w. w + tick \<le> te_pause env w))"

lemma clock_estimate: "clock_ok env \<Longrightarrow> \<forall>n. 0 \<le> te_estimate env (te_monotonic env n)"
  by (simp add: clock_ok_def)

lemma pause_check_returns:
  assumes "clock_ok env"
  shows "\<exists>r. RunToolheadPauseCheck c now (te_estimate env) (te_pause env) DefaultPauseConfig = Some r \<and>
    PrintTime (pr_State r) = PrintTime c \<and> CommandedPos (pr_State r) = CommandedPos c \<and>
    core_MoveConfig (pr_State r) = core_MoveConfig c \<and> KinFlushDelay (pr_State r) = KinFlushDelay c \<and>
    LastFlushTime (pr_State r) = LastFlushTime c \<and> CanPause (pr_State r) = CanPause c \<and>
    SpecialQueuingState (pr_State r) = (if SpecialQueuingState c = [] then [] else ''Priming'')"
proof -
  have "\<exists>s et. pause_loop (te_estimate env) (te_pause env) DefaultPauseConfig (CanPause c) (PrintTime c) now = Some (s, et)"
  proof (cases "CanPause c")
    case True
    from assms obtain rate tick where "0 < rate" "0 < tick"
      "\<And>a b. a \<le> b \<Longrightarrow> rate * (b - a) \<le> te_estimate env b - te_estimate env a"
      "\<And>w. w + tick \<le> te_pause env w" by (auto simp: clock_ok_def)
    moreover have "0 \<le> MaxPauseDuration DefaultPauseConfig" by (simp add: DefaultPauseConfig_def)
    ultimately show ?thesis
      using pause_loop_returns[of rate tick DefaultPauseConfig "te_estimate env" "te_pause env" "PrintTime c" now] True
      by auto
  qed (simp add: pause_loop_stuck)
  then show ?thesis
    by (auto simp: RunToolheadPauseCheck_def Let_def pause_prime_def core_MoveConfig_def)
qed

lemma Check_pause_motion:
  assumes "clock_ok env" and "motion_inv th"
  obtains th' where "Check_pause env th = Some (Inr th')" "motion_inv th'" "keeps_plan th th'"
    "lookahead th' = lookahead th"
proof -
  obtain r where r: "RunToolheadPauseCheck (core th) (te_monotonic env (th_reads th)) (te_estimate env)
      (te_pause env) DefaultPauseConfig = Some r" "PrintTime (pr_State r) = PrintTime (core th)"
    "CommandedPos (pr_State r) = CommandedPos (core th)"
    "core_MoveConfig (pr_State r) = core_MoveConfig (core th)" "KinFlushDelay (pr_State r) = KinFlushDelay (core th)"
    "LastFlushTime (pr_State r) = LastFlushTime (core th)" "CanPause (pr_State r) = CanPause (core th)"
    "SpecialQueuingState (pr_State r) = (if SpecialQueuingState (core th) = [] then [] else ''Priming'')"
    using pause_check_returns[OF assms(1), of "core th" "te_monotonic env (th_reads th)"] by auto
  let ?th = "th\<lparr>core := pr_State r, th_reads := th_reads th + 1,
      Priming_timer := (case PrimingWakeTime r of None \<Rightarrow> Priming_timer th | Some w \<Rightarrow> Some w)\<rparr>"
  have "motion_inv ?th"
    using assms(2) r by (auto simp: motion_inv_def path_inv_def entry_pos_def lims_ok_def running_def
        flushed_ok_def split: if_splits)
  with r that[of ?th] show thesis by (simp add: Check_pause_def keeps_plan_def)
qed

text \<open>After a flush of the look-ahead nothing is queued and the motion ends at rest.\<close>

lemma reset_can_process:
  assumes "motion_inv th" and "entry_speed (th_queue th) = 0 \<or> has_lead env th"
  shows "can_process env (th\<lparr>core := snd (ResetAfterLookaheadFlush t (core th))\<rparr>)"
  using assms calc_print_time_cong(2)[where env = env and th = th and s = "''NeedPrime''" and n = "- 1" and x = 0]
  by (auto simp: motion_inv_def can_process_def ResetAfterLookaheadFlush_def path_inv_def entry_pos_def
      lims_ok_def core_MoveConfig_def has_lead_def)

lemma flush_lookahead_motion:
  assumes "clock_ok env" and "motion_inv th" and "entry_speed (th_queue th) = 0 \<or> has_lead env th"
  obtains th' where "flush_lookahead env th = Some (Inr th')" "motion_inv th'" "keeps_plan th th'"
    "th_queue th' = []" "th_queue th \<noteq> [] \<longrightarrow> SpecialQueuingState (core th') = []"
    "th_queue th = [] \<longrightarrow> SpecialQueuingState (core th') = ''NeedPrime'' \<and> PrintTime (core th') = PrintTime (core th)"
proof -
  define c where "c = snd (ResetAfterLookaheadFlush BUFFER_TIME_HIGH (core th))"
  have "can_process env (th\<lparr>core := c\<rparr>)" unfolding c_def by (rule reset_can_process[OF assms(2,3)])
  then obtain th' where r: "flush_queue env False (th\<lparr>core := c\<rparr>) = Some (Inr th')" "path_inv th'"
    "keeps_plan (th\<lparr>core := c\<rparr>) th'" "lookahead th' = snd (Flush False (lookahead th))"
    "if fst (Flush False (lookahead th)) = None then core th' = c
     else SpecialQueuingState (core th') = [] \<and> running (core th')"
    by (rule flush_queue_motion[OF _ clock_estimate[OF assms(1)], of _ False]) (rule that, auto split: if_splits)
  have q: "th_queue th' = []" unfolding r(4) by (rule Flush_all)
  have f: "fst (Flush False (lookahead th)) = None \<longleftrightarrow> th_queue th = []"
    using Flush_full[of "lookahead th"] Flush_empty[of "lookahead th"] by (cases "th_queue th = []") auto
  let ?th = "th'\<lparr>lookahead := Set_flush_time BUFFER_TIME_HIGH (lookahead th')\<rparr>"
  have "path_inv ?th" using r(2) q
    by (simp add: path_inv_def Set_flush_time_def queue_ok_def entry_pos_def lims_ok_def)
  moreover have "SpecialQueuingState c \<noteq> []" by (simp add: c_def ResetAfterLookaheadFlush_def)
  ultimately have "motion_inv ?th"
    using r(5) q by (simp add: motion_inv_def Set_flush_time_def entry_speed_Nil split: if_splits)
  moreover have "flush_lookahead env th = Some (Inr ?th)"
    using r(1) by (simp add: flush_lookahead_def ResetAfterLookaheadFlush_def c_def th_then_def)
  moreover have "keeps_plan th ?th"
    using r(3) by (simp add: keeps_plan_def c_def ResetAfterLookaheadFlush_def core_MoveConfig_def)
  ultimately show thesis
    using that[of ?th] q r(5) f
    by (cases "th_queue th = []") (simp_all add: Set_flush_time_def c_def ResetAfterLookaheadFlush_def)
qed

text \<open>Advancing the print time of a toolhead at rest keeps the invariant.\<close>

lemma calc_print_time_motion:
  assumes "clock_ok env" and "motion_inv th" and "th_queue th = []"
  shows "motion_inv (th_calc_print_time env th) \<and> keeps_plan th (th_calc_print_time env th) \<and>
    th_queue (th_calc_print_time env th) = [] \<and> running (core (th_calc_print_time env th))"
proof -
  note cs = calc_print_time_spec[OF clock_estimate[OF assms(1)], of th]
  define pt where "pt = PrintTime (core (th_calc_print_time env th))"
  obtain evs where e: "th_calc_print_time env th =
      th\<lparr>core := (core th)\<lparr>PrintTime := pt\<rparr>, th_reads := th_reads th + 1, th_effects := evs\<rparr>"
    using cs(1) unfolding pt_def by blast
  have p: "path_inv th" using assms(2) by (simp add: motion_inv_def)
  then have "tq_at (th_Trapq th) pt (xyz (CommandedPos (core th))) 0"
    using cs(3) assms(3) by (auto simp: path_inv_def entry_pos_def entry_speed_Nil pt_def intro: tq_at_later)
  moreover have "running ((core th)\<lparr>PrintTime := pt\<rparr>)"
    using p cs(2-4) by (auto simp: running_def flushed_ok_def path_inv_def pt_def)
  ultimately show ?thesis
    using p cs(2-4) assms(3) unfolding e pt_def[symmetric]
    by (auto simp: motion_inv_def path_inv_def entry_pos_def lims_ok_def core_MoveConfig_def keeps_plan_def
        running_def flushed_ok_def entry_speed_Nil)
qed

lemma keeps_plan_trans: "keeps_plan a b \<Longrightarrow> keeps_plan b c \<Longrightarrow> keeps_plan a c"
  by (simp add: keeps_plan_def)

lemma Get_last_move_time_motion:
  assumes "clock_ok env" and "motion_inv th"
  obtains th' where "Get_last_move_time env th = Some (Inr th')" "motion_inv th'" "keeps_plan th th'"
    "th_queue th' = []" "running (core th')"
proof (cases "SpecialQueuingState (core th) = []")
  case True
  obtain th' where r: "flush_queue env False th = Some (Inr th')" "path_inv th'" "keeps_plan th th'"
    "lookahead th' = snd (Flush False (lookahead th))"
    "if fst (Flush False (lookahead th)) = None then core th' = core th
     else SpecialQueuingState (core th') = [] \<and> running (core th')"
    by (rule flush_queue_motion[OF motion_can_process[OF assms(2)] clock_estimate[OF assms(1)]])
  moreover have "motion_inv th'" by (rule motion_inv_flushed[OF r(2) assms(2) r(3-5)])
  moreover have "running (core th')" using r(5) True assms(2) by (simp add: motion_inv_def split: if_splits)
  ultimately show thesis using that[of th'] True by (simp add: Get_last_move_time_def Flush_all)
next
  case False
  then have "entry_speed (th_queue th) = 0" using assms(2) by (simp add: motion_inv_def)
  with assms obtain th' where r: "flush_lookahead env th = Some (Inr th')" "motion_inv th'" "keeps_plan th th'"
    "th_queue th' = []" by (elim flush_lookahead_motion[of env th]) auto
  from calc_print_time_motion[OF assms(1) r(2,4)] r that[of "th_calc_print_time env th'"] False show thesis
    by (auto simp: Get_last_move_time_def th_then_def intro: keeps_plan_trans)
qed

lemma advance_motion:
  assumes "motion_inv th" "th_queue th = []" "running (core th)"
  obtains th' where "th_advance_move_time t th = Some th'" "motion_inv th'" "keeps_plan th th'"
    "th_queue th' = []" "t \<le> PrintTime (core th')"
proof -
  have p: "path_inv th" using assms(1) by (simp add: motion_inv_def)
  have at: "tq_at (th_Trapq th) (max (PrintTime (core th)) t) (xyz (CommandedPos (core th))) 0"
    using p assms(2) by (auto simp: path_inv_def entry_pos_def entry_speed_Nil intro: tq_at_later)
  have f: "flushed_ok (core th)" "0 < KinFlushDelay (core th)" "durations_ok (th_Trapq th)"
    using p assms(3) by (auto simp: running_def path_inv_def)
  obtain th' where r: "th_advance_move_time t th = Some th'"
    "PrintTime (core th') = max (PrintTime (core th)) t" "same_plan (core th) (core th')"
    "flushed_ok (core th')" "lookahead th' = lookahead th" "th_Kin th' = th_Kin th"
    "th_Extruder th' = th_Extruder th" "durations_ok (th_Trapq th')"
    "tq_at (th_Trapq th') (PrintTime (core th')) (xyz (CommandedPos (core th))) 0"
    by (rule advance_move_time_spec[OF f(1,2) at f(3)]) blast
  have "motion_inv th'"
    using p r assms(2,3) by (auto simp: motion_inv_def path_inv_def entry_pos_def lims_ok_def same_plan_def
        running_def flushed_ok_def entry_speed_Nil)
  with r that[of th'] assms(2) show thesis by (auto simp: keeps_plan_def same_plan_def)
qed

lemma th_then_Some: "r = Some (Inr th) \<Longrightarrow> th_then r f = f th"
  by (simp add: th_then_def)

lemma Dwell_motion:
  assumes "clock_ok env" and "motion_inv th"
  obtains th' where "th_Dwell env delay th = Some (Inr th')" "motion_inv th'" "keeps_plan th th'" "th_queue th' = []"
    "PrintTime (core th) + max 0 delay \<le> PrintTime (core th')"
proof -
  obtain th1 where r1: "Get_last_move_time env th = Some (Inr th1)" "motion_inv th1" "keeps_plan th th1"
    "th_queue th1 = []" "running (core th1)" by (rule Get_last_move_time_motion[OF assms])
  obtain th2 where r2: "th_advance_move_time (PrintTime (core th1) + max 0 delay) th1 = Some th2" "motion_inv th2"
    "keeps_plan th1 th2" "th_queue th2 = []" "PrintTime (core th1) + max 0 delay \<le> PrintTime (core th2)"
    by (rule advance_motion[OF r1(2,4,5)])
  obtain th3 where r3: "Check_pause env th2 = Some (Inr th3)" "motion_inv th3" "keeps_plan th2 th3"
    "lookahead th3 = lookahead th2" by (rule Check_pause_motion[OF assms(1) r2(2)])
  have "th_Dwell env delay th = Some (Inr th3)"
    using r1(1) r2(1) r3(1) by (simp add: th_Dwell_def th_then_Some)
  moreover have "keeps_plan th th3" using r1(3) r2(3) r3(3) by (blast intro: keeps_plan_trans)
  moreover have "PrintTime (core th) + max 0 delay \<le> PrintTime (core th3)"
    using r1(3) r2(5) r3(3) by (auto simp: keeps_plan_def)
  ultimately show thesis using that[of th3] r3 r2(4) by simp
qed

text \<open>A move returns, and keeps the invariant whether it is accepted or rejected.\<close>

lemma QueueMove_motion:
  assumes "clock_ok env" and "motion_inv th" and m: "fresh_move m" "move_geometry m"
    and s: "xyz (Start_pos m) = xyz (CommandedPos (core th))"
  obtains th' where "QueueMove env m (th\<lparr>core := (core th)\<lparr>CommandedPos := End_pos m\<rparr>\<rparr>) = Some (Inr th')"
    "motion_inv th'" "CommandedPos (core th') = End_pos m"
proof -
  let ?calc = "Some (Extruder_Calc_junction (th_Extruder th))"
  obtain full lq where a: "Add_move ?calc m (lookahead th) = (full, lq)" by (cases "Add_move ?calc m (lookahead th)")
  define th1 where "th1 = th\<lparr>core := (core th)\<lparr>CommandedPos := End_pos m\<rparr>, lookahead := lq\<rparr>"
  have inv: "motion_inv th1"
    using Add_move_motion[OF assms(2-5), of "th_Extruder th"] a by (simp add: th1_def)
  show thesis
  proof (cases full)
    case False
    then show thesis using that[of th1] inv a by (simp add: QueueMove_def th1_def)
  next
    case True
    obtain th' where r: "flush_queue env True th1 = Some (Inr th')" "path_inv th'" "keeps_plan th1 th'"
      "lookahead th' = snd (Flush True (lookahead th1))"
      "if fst (Flush True (lookahead th1)) = None then core th' = core th1
       else SpecialQueuingState (core th') = [] \<and> running (core th')"
      by (rule flush_queue_motion[OF motion_can_process[OF inv] clock_estimate[OF assms(1)]])
    have "motion_inv th'" by (rule motion_inv_flushed[OF r(2) inv r(3-5)])
    with True r a that[of th'] show thesis by (simp add: QueueMove_def th1_def keeps_plan_def)
  qed
qed

lemma accepted_move:
  assumes "lims_ok th" and "0 < speed" and "Move_d m \<noteq> 0"
    and n: "NewMove (core_MoveConfig (core th)) (CommandedPos (core th)) newpos speed = Inr m"
    and k: "(if Is_kinematic_move m then Kin_Check_move m (th_Kin th) else Inr m) = Inr m1"
  defines "m2 \<equiv> if Axes_d m1 ! 3 \<noteq> 0 then CheckExtruderMove m1 (th_Extruder th) else m1"
  shows "fresh_move m2" "move_geometry m2" "Start_pos m2 = CommandedPos (core th)" "End_pos m2 = End_pos m"
proof -
  have "fresh_move m" using assms(1) by (intro NewMove_fresh[OF _ assms(2) n assms(3)]) (simp add: lims_ok_def)
  then have "fresh_move m1 \<and> Start_pos m1 = Start_pos m \<and> End_pos m1 = End_pos m \<and> move_geometry m1 = move_geometry m"
    using k assms(1) check_move_limited[of m "th_Kin th" m1] by (auto simp: lims_ok_def split: if_splits)
  then have "fresh_move m2 \<and> Start_pos m2 = Start_pos m \<and> End_pos m2 = End_pos m \<and> move_geometry m2 = move_geometry m"
    using extruder_move_limited[of m1 "th_Extruder th"] assms(1) by (auto simp: m2_def lims_ok_def)
  with NewMove_geometry[OF n] NewMove_axes(4)[OF n]
  show "fresh_move m2" "move_geometry m2" "Start_pos m2 = CommandedPos (core th)" "End_pos m2 = End_pos m" by auto
qed

fun result_state :: "(th_error \<times> Toolhead) + Toolhead \<Rightarrow> Toolhead" where
  "result_state (Inl (e, th)) = th"
| "result_state (Inr th) = th"

text \<open>A finished move: done, or refused and without effect.\<close>

lemma Move_motion:
  assumes "clock_ok env" and "motion_inv th" and "0 < speed"
  obtains r where "th_Move env newpos speed th = Some r" "motion_inv (result_state r)"
    "\<And>e th'. r = Inl (e, th') \<Longrightarrow> th' = th"
proof (cases "NewMove (core_MoveConfig (core th)) (CommandedPos (core th)) newpos speed")
  case (Inl e)
  with assms(2) that[of "Inl (MovePanic e, th)"] show thesis by (simp add: th_Move_def)
next
  case n: (Inr m)
  have lim: "lims_ok th" using assms(2) by (simp add: motion_inv_def path_inv_def)
  show thesis
  proof (cases "Move_d m = 0")
    case True
    with n assms(2) that[of "Inr th"] show thesis by (simp add: th_Move_def)
  next
    case d: False
    show thesis
    proof (cases "if Is_kinematic_move m then Kin_Check_move m (th_Kin th) else Inr m")
      case (Inl e)
      with n d assms(2) that[of "Inl (MoveRejected e, th)"] show thesis by (simp add: th_Move_def)
    next
      case k: (Inr m1)
      define m2 where "m2 = (if Axes_d m1 ! 3 \<noteq> 0 then CheckExtruderMove m1 (th_Extruder th) else m1)"
      note a = accepted_move[OF lim assms(3) d n k, folded m2_def]
      obtain th1 where q: "QueueMove env m2 (th\<lparr>core := (core th)\<lparr>CommandedPos := End_pos m2\<rparr>\<rparr>) = Some (Inr th1)"
        "motion_inv th1" using QueueMove_motion[OF assms(1,2) a(1,2)] a(3) by metis
      have eq: "th_Move env newpos speed th =
          (if PrintTime (core th1) > NeedCheckPause (core th1) then Check_pause env th1 else Some (Inr th1))"
        using n d k q(1) by (simp add: th_Move_def m2_def[symmetric] Let_def th_then_Some)
      obtain th2 where "Check_pause env th1 = Some (Inr th2)" "motion_inv th2"
        by (rule Check_pause_motion[OF assms(1) q(2)]) blast
      with eq q(2) that[of "Inr th1"] that[of "Inr th2"] show thesis by (auto split: if_splits)
    qed
  qed
qed

section \<open>Runs of the toolhead\<close>

lemma Priming_motion:
  assumes "clock_ok env" and "motion_inv th"
  obtains th' where "Priming_handler env th = Some (Inr th')" "motion_inv th'"
proof -
  let ?th = "th\<lparr>Priming_timer := None\<rparr>"
  have inv: "motion_inv ?th"
    using assms(2) by (subst motion_inv_cong[of _ th]) simp_all
  show thesis
  proof (cases "SpecialQueuingState (core th) = ''Priming''")
    case False
    with inv that[of ?th] show thesis by (simp add: Priming_handler_def HandleToolheadPrimingTimer_def)
  next
    case True
    then have "entry_speed (th_queue ?th) = 0" using assms(2) by (simp add: motion_inv_def)
    then obtain th1 where r: "flush_lookahead env ?th = Some (Inr th1)" "motion_inv th1"
      using flush_lookahead_motion[OF assms(1) inv] by metis
    let ?th2 = "th1\<lparr>core := (core th1)\<lparr>CheckStallTime := PrintTime (core th)\<rparr>\<rparr>"
    have "motion_inv ?th2"
      using r(2) by (subst motion_inv_cong[of _ th1]) (simp_all add: core_MoveConfig_def)
    with r(1) True that[of ?th2] show thesis
      by (simp add: Priming_handler_def HandleToolheadPrimingTimer_def th_then_def)
  qed
qed

text \<open>
  The operations a print uses, with one clock.  A complete flush of the look-ahead queue is a
  step when the print time has lead or the first queued move starts from rest.
\<close>

inductive th_step :: "time_env \<Rightarrow> Toolhead \<Rightarrow> Toolhead \<Rightarrow> bool" for env where
  st_move: "0 < speed \<Longrightarrow> th_Move env newpos speed th = Some r \<Longrightarrow> th_step env th (result_state r)"
| st_manual: "0 < speed \<Longrightarrow> Manual_move env coords speed th = Some r \<Longrightarrow> th_step env th (result_state r)"
| st_dwell: "th_Dwell env delay th = Some r \<Longrightarrow> th_step env th (result_state r)"
| st_last: "Get_last_move_time env th = Some r \<Longrightarrow> th_step env th (result_state r)"
| st_pause: "Check_pause env th = Some r \<Longrightarrow> th_step env th (result_state r)"
| st_prime: "Priming_handler env th = Some r \<Longrightarrow> th_step env th (result_state r)"
| st_flush: "has_lead env th \<or> entry_speed (th_queue th) = 0 \<Longrightarrow> flush_lookahead env th = Some r \<Longrightarrow>
    th_step env th (result_state r)"
| st_accel: "wf_settings ((VelocitySettings (core th))\<lparr>vs_MaxAccel := a\<rparr>) \<Longrightarrow>
    th_step env th (ApplyToolheadAcceleration a th)"
| st_extruder: "extruder_ok ex \<Longrightarrow> th_step env th (Set_extruder ex pos th)"

inductive th_reachable :: "time_env \<Rightarrow> Toolhead \<Rightarrow> bool" for env where
  th_start: "wf_settings settings \<Longrightarrow>
    (case kin of Cartesian k \<Rightarrow> 0 < cart_maxZVelocity k \<and> 0 < cart_maxZAccel k
     | CoreXY c \<Rightarrow> 0 < cxy_maxZVelocity c \<and> 0 < cxy_maxZAccel c | NoneKinematics a \<Rightarrow> True) \<Longrightarrow>
    th_reachable env (NewToolhead fileoutput mcus settings kin)"
| th_next: "th_reachable env th \<Longrightarrow> th_step env th th' \<Longrightarrow> th_reachable env th'"

lemma config_motion:
  assumes "motion_inv th" and "wf_config (core_MoveConfig (ApplyVelocityLimitResult res (core th)))"
  shows "motion_inv (th\<lparr>core := ApplyVelocityLimitResult res (core th)\<rparr>)"
  using assms by (intro motion_inv_change[OF assms(1)])
    (auto simp: motion_inv_def path_inv_def lims_ok_def ApplyVelocityLimitResult_def)

lemma accel_motion:
  assumes "motion_inv th" and "wf_settings ((VelocitySettings (core th))\<lparr>vs_MaxAccel := a\<rparr>)"
  shows "motion_inv (ApplyToolheadAcceleration a th)"
  unfolding ApplyToolheadAcceleration_def
  using assms by (intro config_motion velocity_limits_wf_config)
    (auto simp: ApplyToolheadVelocityLimitUpdate_def Let_def no_velocity_update_def opt_else_def wf_settings_def)

lemma extruder_motion:
  assumes "motion_inv th" and "extruder_ok ex"
  shows "motion_inv (Set_extruder ex pos th)"
  using assms by (intro motion_inv_change[OF assms(1)])
    (auto simp: motion_inv_def path_inv_def lims_ok_def Set_extruder_def core_MoveConfig_def xyz_def)

lemma manual_motion:
  assumes "clock_ok env" "motion_inv th" "0 < speed" "Manual_move env coords speed th = Some r"
  shows "motion_inv (result_state r)"
proof -
  obtain q where q: "th_Move env (BuildToolheadManualMoveTarget (CommandedPos (core th)) coords) speed th = Some q"
    "motion_inv (result_state q)" using Move_motion[OF assms(1-3)] by metis
  show ?thesis
  proof (cases q)
    case (Inl p)
    with q assms(4) show ?thesis by (cases p) (auto simp: Manual_move_def th_then_def)
  next
    case (Inr th1)
    then have "r = Inr (th_emit [EfEvent ''toolhead:manual_move''] th1)"
      using q(1) assms(4) by (simp add: Manual_move_def th_then_def)
    moreover have "motion_inv (th_emit evs th1)" for evs
      using q(2) Inr by (subst motion_inv_cong[of _ th1]) (simp_all add: th_emit_def)
    ultimately show ?thesis by simp
  qed
qed

lemma start_motion:
  assumes "wf_settings settings" and "case kin of Cartesian k \<Rightarrow> 0 < cart_maxZVelocity k \<and> 0 < cart_maxZAccel k
     | CoreXY c \<Rightarrow> 0 < cxy_maxZVelocity c \<and> 0 < cxy_maxZAccel c | NoneKinematics a \<Rightarrow> True"
  shows "motion_inv (NewToolhead fileoutput mcus settings kin)"
proof -
  have "wf_config (core_MoveConfig (ApplyVelocityLimitResult
      (ApplyToolheadVelocityLimitUpdate settings no_velocity_update) (NewToolheadCoreState (\<not> fileoutput))))"
    using assms(1) by (intro velocity_limits_wf_config)
      (simp add: ApplyToolheadVelocityLimitUpdate_def Let_def no_velocity_update_def opt_else_def wf_settings_def)
  then have "wf_config (core_MoveConfig (core (NewToolhead fileoutput mcus settings kin)))"
    by (simp add: NewToolhead_def BuildToolheadInitialVelocityResult_def)
  with assms(2) show ?thesis
    by (auto simp: motion_inv_def path_inv_def NewToolhead_def NewMoveQueue_def queue_ok_def head_ok_def
        path_ok_def entry_pos_def entry_speed_Nil lims_ok_def extruder_ok_def durations_ok_def trapq_alloc_def
        tq_at_def ApplyVelocityLimitResult_def NewToolheadCoreState_def DefaultSdsCheckTime_def Set_flush_time_def)
qed

lemma step_motion: "th_step env th th' \<Longrightarrow> clock_ok env \<Longrightarrow> motion_inv th \<Longrightarrow> motion_inv th'"
proof (induction rule: th_step.induct)
  case (st_move speed newpos th r)
  then show ?case using Move_motion[of env th speed newpos] by (metis option.inject)
next
  case (st_dwell delay th r)
  then show ?case using Dwell_motion[of env th delay] by (metis option.inject result_state.simps(2))
next
  case (st_last th r)
  then show ?case using Get_last_move_time_motion[of env th] by (metis option.inject result_state.simps(2))
next
  case (st_pause th r)
  then show ?case using Check_pause_motion[of env th] by (metis option.inject result_state.simps(2))
next
  case (st_prime th r)
  then show ?case using Priming_motion[of env th] by (metis option.inject result_state.simps(2))
next
  case (st_flush th r)
  then show ?case using flush_lookahead_motion[of env th] by (metis option.inject result_state.simps(2))
qed (auto intro: manual_motion accel_motion extruder_motion)

lemma reachable_motion: "th_reachable env th \<Longrightarrow> clock_ok env \<Longrightarrow> motion_inv th"
  by (induction rule: th_reachable.induct) (auto intro: start_motion step_motion)

section \<open>Drip moves\<close>

lemma fold_run_flush_reads: "th_reads (fold run_flush_event evs th) = th_reads th"
proof (induction evs arbitrary: th)
  case (Cons e evs)
  then show ?case by (cases e) (simp_all add: th_emit_def)
qed simp

lemma advance_move_time_core:
  assumes "flushed_ok (core th)"
  obtains th' where "th_advance_move_time t th = Some th'" "th_reads th' = th_reads th"
    "PrintTime (core th') = max (PrintTime (core th)) t" "same_plan (core th) (core th')" "flushed_ok (core th')"
proof -
  from AdvanceMoveTime_returns[OF timing_config assms, of t "timingFlushActions th"]
  obtain c evs where "AdvanceMoveTime t DefaultTimingConfig (timingFlushActions th) (core th) = Some (c, evs)"
    "PrintTime c = max (PrintTime (core th)) t" "same_plan (core th) c" "flushed_ok c" by auto
  with that[of "fold run_flush_event evs (th\<lparr>core := c\<rparr>)"] show thesis
    by (simp add: th_advance_move_time_def fold_run_flush fold_run_flush_reads)
qed

text \<open>One turn of the loop: it ends, it waits, or it releases one more segment.\<close>

definition drip_wait :: "time_env \<Rightarrow> real \<Rightarrow> Toolhead \<Rightarrow> bool" where
  "drip_wait env fd th \<longleftrightarrow>
     0 < PrintTime (core th) - te_estimate env (te_monotonic env (th_reads th + 1)) - fd \<and> CanPause (core th)"

lemma drip_segment:
  assumes "flushed_ok (core th)" and "PrintTime (core th) < npt" and "0 \<le> DripSegmentTime cfg"
  defines "seg \<equiv> min (PrintTime (core th) + DripSegmentTime cfg) npt"
  obtains th3 where "th_advance_move_time seg (Note_mcu_movequeue_activity (seg + KinFlushDelay (core th)) True
      (th\<lparr>th_reads := th_reads th + 2\<rparr>)) = Some th3"
    "th_reads th3 = th_reads th + 2" "PrintTime (core th3) = seg" "flushed_ok (core th3)"
    "CanPause (core th3) = CanPause (core th)"
proof -
  let ?th1 = "th\<lparr>th_reads := th_reads th + 2\<rparr>"
  let ?th2 = "Note_mcu_movequeue_activity (seg + KinFlushDelay (core th)) True ?th1"
  note n = note_activity_sel[where t = "seg + KinFlushDelay (core th)" and s = True and th = ?th1]
  have r: "th_reads ?th2 = th_reads th + 2"
    by (simp add: Note_mcu_movequeue_activity_def NoteMovequeueActivity_def Let_def)
  have "flushed_ok (core ?th2)" using n(6) assms(1) by simp
  then obtain th3 where "th_advance_move_time seg ?th2 = Some th3" "th_reads th3 = th_reads ?th2"
    "PrintTime (core th3) = max (PrintTime (core ?th2)) seg" "same_plan (core ?th2) (core th3)" "flushed_ok (core th3)"
    by (rule advance_move_time_core)
  with that[of th3] r n(5,7) assms(2,3) show thesis by (simp add: same_plan_def seg_def)
qed

lemma drip_loop_turn:
  "drip_loop env cfg fd npt th =
     (if \<not> PrintTime (core th) < npt then Some (Inr th)
      else if te_drip_test env (th_reads th) then Some (Inl (DripModeEnd, th\<lparr>th_reads := th_reads th + 1\<rparr>))
      else if drip_wait env fd th then drip_loop env cfg fd npt (th\<lparr>th_reads := th_reads th + 2\<rparr>)
      else let seg = min (PrintTime (core th) + DripSegmentTime cfg) npt in
        Option.bind (th_advance_move_time seg (Note_mcu_movequeue_activity (seg + KinFlushDelay (core th)) True
            (th\<lparr>th_reads := th_reads th + 2\<rparr>))) (drip_loop env cfg fd npt))"
  by (subst drip_loop.simps) (simp add: Let_def drip_wait_def conj_ac)

text \<open>
  Once the completion is signalled for good, the loop ends, and it never releases motion
  further ahead of the estimated print time than the flush delay and one segment.
\<close>

lemma drip_loop_returns:
  assumes "\<forall>n\<ge>N. te_drip_test env n" and "flushed_ok (core th)" and "0 \<le> DripSegmentTime cfg"
    and mono: "\<And>a b. a \<le> b \<Longrightarrow> te_estimate env (te_monotonic env a) \<le> te_estimate env (te_monotonic env b)"
    and "CanPause (core th)"
  shows "\<exists>r. drip_loop env cfg fd npt th = Some r \<and> th_reads th \<le> th_reads (result_state r) \<and>
    PrintTime (core (result_state r)) \<le> max (PrintTime (core th))
      (te_estimate env (te_monotonic env (th_reads (result_state r))) + fd + DripSegmentTime cfg) \<and>
    (\<forall>e th'. r = Inl (e, th') \<longrightarrow> e = DripModeEnd)"
  using assms(2,5)
proof (induction "N - th_reads th" arbitrary: th rule: less_induct)
  case less
  define seg where "seg = min (PrintTime (core th) + DripSegmentTime cfg) npt"
  show ?case
  proof (cases "\<not> PrintTime (core th) < npt \<or> te_drip_test env (th_reads th)")
    case True
    then show ?thesis by (subst drip_loop_turn) auto
  next
    case False
    then have lt: "th_reads th < N" and pt: "PrintTime (core th) < npt" using assms(1) by (auto simp: not_le[symmetric])
    show ?thesis
    proof (cases "drip_wait env fd th")
      case True
      have "N - th_reads (th\<lparr>th_reads := th_reads th + 2\<rparr>) < N - th_reads th" using lt by simp
      from less.hyps[OF this] less.prems
      obtain r where "drip_loop env cfg fd npt (th\<lparr>th_reads := th_reads th + 2\<rparr>) = Some r"
        "th_reads th + 2 \<le> th_reads (result_state r)"
        "PrintTime (core (result_state r)) \<le> max (PrintTime (core th))
          (te_estimate env (te_monotonic env (th_reads (result_state r))) + fd + DripSegmentTime cfg)"
        "\<forall>e th'. r = Inl (e, th') \<longrightarrow> e = DripModeEnd" by auto
      with True False show ?thesis by (subst drip_loop_turn) (auto intro!: exI[of _ r])
    next
      case w: False
      obtain th3 where t: "th_advance_move_time seg (Note_mcu_movequeue_activity (seg + KinFlushDelay (core th)) True
            (th\<lparr>th_reads := th_reads th + 2\<rparr>)) = Some th3"
        "th_reads th3 = th_reads th + 2" "PrintTime (core th3) = seg" "flushed_ok (core th3)"
        "CanPause (core th3) = CanPause (core th)"
        unfolding seg_def by (rule drip_segment[OF less.prems(1) pt assms(3)])
      have "N - th_reads th3 < N - th_reads th" using lt t(2) by simp
      from less.hyps[OF this] t less.prems(2) obtain r where r: "drip_loop env cfg fd npt th3 = Some r"
        "th_reads th3 \<le> th_reads (result_state r)"
        "PrintTime (core (result_state r)) \<le> max seg
          (te_estimate env (te_monotonic env (th_reads (result_state r))) + fd + DripSegmentTime cfg)"
        "\<forall>e th'. r = Inl (e, th') \<longrightarrow> e = DripModeEnd" by auto
      have "seg \<le> te_estimate env (te_monotonic env (th_reads th + 1)) + fd + DripSegmentTime cfg"
        using w less.prems(2) by (auto simp: drip_wait_def seg_def min_def)
      also have "\<dots> \<le> te_estimate env (te_monotonic env (th_reads (result_state r))) + fd + DripSegmentTime cfg"
        using mono[of "th_reads th + 1" "th_reads (result_state r)"] r(2) t(2) by simp
      finally have "drip_loop env cfg fd npt th = Some r \<and> th_reads th \<le> th_reads (result_state r) \<and>
          PrintTime (core (result_state r)) \<le> max (PrintTime (core th))
            (te_estimate env (te_monotonic env (th_reads (result_state r))) + fd + DripSegmentTime cfg)"
        using t(1,2) w False r by (subst drip_loop_turn) (auto simp: Let_def seg_def[symmetric])
      with r(4) show ?thesis by blast
    qed
  qed
qed

text \<open>A drip move that the kinematics rejects stops between its preparation and its clean-up.\<close>

lemma Drip_rejected:
  assumes "clock_ok env" and inv: "motion_inv th"
    and n: "NewMove (core_MoveConfig (core th)) (CommandedPos (core th)) newpos speed = Inr m" "Move_d m \<noteq> 0"
    and k: "Is_kinematic_move m" "Kin_Check_move m (th_Kin th) = Inl e"
  shows "\<exists>th'. Drip_move env newpos speed th = Some (Inl (MoveRejected e, th')) \<and>
    Flush_timer th' = NEVER \<and> SpecialQueuingState (core th') = ''Drip''"
proof -
  obtain th1 where r1: "th_Dwell env (KinFlushDelay (core th)) th = Some (Inr th1)" "motion_inv th1"
    "keeps_plan th th1" by (rule Dwell_motion[OF assms(1) inv]) blast
  obtain th2 where r2: "flush_queue env False th1 = Some (Inr th2)" "keeps_plan th1 th2"
    by (rule flush_queue_motion[OF motion_can_process[OF r1(2)] clock_estimate[OF assms(1)]]) blast
  define th3 where "th3 = th2\<lparr>core := (core th2)\<lparr>SpecialQueuingState := ''Drip'', NeedCheckPause := NEVER,
      DoKickFlushTimer := False, CheckStallTime := 0\<rparr>, Flush_timer := NEVER,
      lookahead := Set_flush_time BUFFER_TIME_HIGH (lookahead th2)\<rparr>"
  have "keeps_plan th th2" by (rule keeps_plan_trans[OF r1(3) r2(2)])
  then have "core_MoveConfig (core th3) = core_MoveConfig (core th)" "CommandedPos (core th3) = CommandedPos (core th)"
    "th_Kin th3 = th_Kin th" by (simp_all add: keeps_plan_def th3_def core_MoveConfig_def)
  then have "th_Move env newpos speed th3 = Some (Inl (MoveRejected e, th3))"
    using n k by (simp add: th_Move_def)
  then have "Drip_move env newpos speed th = Some (Inl (MoveRejected e, th3))"
    using r1(1) r2(1) by (simp add: Drip_move_def th_then_Some Let_def th3_def[symmetric] drip_submit_def th_then_def)
  then show ?thesis by (simp add: th3_def)
qed

section \<open>A small example\<close>

definition demo_env :: time_env where
  "demo_env = \<lparr>te_monotonic = real, te_estimate = (\<lambda>t. t), te_pause = (\<lambda>w. w + 1), te_drip_test = (\<lambda>n. 5 \<le> n)\<rparr>"

definition demo_settings :: ToolheadVelocitySettings where
  "demo_settings = \<lparr>vs_MaxVelocity = 1, vs_MaxAccel = 1, vs_RequestedAccelToDecel = 1, vs_SquareCornerVelocity = 0\<rparr>"

definition demo_toolhead :: Toolhead where
  "demo_toolhead = NewToolhead False 1 demo_settings (NoneKinematics [])"

lemma demo_clock: "clock_ok demo_env"
  by (auto simp: clock_ok_def demo_env_def intro!: exI[of _ 1])

lemma demo_start: "th_reachable demo_env demo_toolhead"
  unfolding demo_toolhead_def by (rule th_start) (simp_all add: wf_settings_def demo_settings_def)

lemma demo_config: "core_MoveConfig (core demo_toolhead) = unit_config" "CommandedPos (core demo_toolhead) = [0, 0, 0, 0]"
  by (simp_all add: demo_toolhead_def NewToolhead_def core_MoveConfig_def BuildToolheadInitialVelocityResult_def
      ApplyToolheadVelocityLimitUpdate_def Let_def no_velocity_update_def opt_else_def demo_settings_def
      ApplyVelocityLimitResult_def CalcToolheadJunctionDeviation_def unit_config_def NewToolheadCoreState_def)

text \<open>The first move of a print is queued and the toolhead starts priming.\<close>

lemma unit_fields:
  "Move_d unit_move = 1" "Is_kinematic_move unit_move" "Axes_d unit_move ! 3 = 0" "End_pos unit_move = [1, 0, 0, 0]"
  by (simp_all add: unit_move_def)

lemma demo_fields:
  "th_Kin demo_toolhead = NoneKinematics []" "PrintTime (core demo_toolhead) = 0" "NeedCheckPause (core demo_toolhead) = - 1"
  "CanPause (core demo_toolhead)"
  by (simp_all add: demo_toolhead_def NewToolhead_def ApplyVelocityLimitResult_def NewToolheadCoreState_def)

lemma demo_queued:
  "\<exists>th. th_reachable demo_env th \<and> th_queue th = [unit_move] \<and> CanPause (core th)"
proof -
  let ?q = "demo_toolhead\<lparr>core := (core demo_toolhead)\<lparr>CommandedPos := [1, 0, 0, 0]\<rparr>,
      lookahead := (lookahead demo_toolhead)\<lparr>queue := [unit_move]\<rparr>\<rparr>"
  have q: "QueueMove demo_env unit_move (demo_toolhead\<lparr>core := (core demo_toolhead)\<lparr>CommandedPos := [1, 0, 0, 0]\<rparr>\<rparr>)
      = Some (Inr ?q)"
    by (simp add: QueueMove_def Add_move_def demo_toolhead_def NewToolhead_def NewMoveQueue_def Set_flush_time_def)
  have m: "th_Move demo_env [1, 0, 0, 0] 1 demo_toolhead = Check_pause demo_env ?q"
    using q by (simp add: th_Move_def demo_config unit_move_new th_then_def Let_def unit_fields demo_fields)
  have "motion_inv demo_toolhead" by (rule reachable_motion[OF demo_start demo_clock])
  then obtain r where r: "th_Move demo_env [1, 0, 0, 0] 1 demo_toolhead = Some r"
    by (rule Move_motion[OF demo_clock, of _ 1]) auto
  with m obtain th where th: "Check_pause demo_env ?q = Some (Inr th)" "r = Inr th"
    by (auto simp: Check_pause_def split: option.splits)
  have "lookahead th = lookahead ?q" "CanPause (core th)"
    using th(1) pause_check_returns[OF demo_clock, of "core ?q" "te_monotonic demo_env (th_reads ?q)"]
    by (auto simp: Check_pause_def demo_fields)
  moreover have "th_reachable demo_env th"
    using th_next[OF demo_start st_move[OF _ r]] th(2) by simp
  ultimately show ?thesis by auto
qed

section \<open>Properties\<close>







text \<open>
  C27. Feeding a drip move in small segments ends once its completion is signalled for good,
  with no other failure than the end of drip mode, and the motion released before the end
  reaches at most the flush delay and one segment beyond the estimated print time.
\<close>

theorem drip_time_bounded:
  assumes "\<forall>n\<ge>N. te_drip_test env n" and "flushed_ok (core th)" and "CanPause (core th)"
    and "\<forall>a b. a \<le> b \<longrightarrow> te_estimate env (te_monotonic env a) \<le> te_estimate env (te_monotonic env b)"
  shows "\<exists>r. UpdateToolheadDripTime env DefaultDripConfig npt th = Some r \<and>
    (\<forall>e th'. r = Inl (e, th') \<longrightarrow> e = DripModeEnd) \<and>
    PrintTime (core (result_state r)) \<le> max (PrintTime (core th))
      (te_estimate env (te_monotonic env (th_reads (result_state r))) + (0.2 + KinFlushDelay (core th)))"
  using drip_loop_returns[of N env th DefaultDripConfig "0.15 + KinFlushDelay (core th)" npt] assms
  by (fastforce simp: UpdateToolheadDripTime_def DefaultDripConfig_def)

theorem drip_time_bounded_witness:
  "\<exists>r. UpdateToolheadDripTime demo_env DefaultDripConfig 3
     (demo_toolhead\<lparr>core := (core demo_toolhead)\<lparr>PrintTime := 1\<rparr>\<rparr>) = Some r"
proof -
  have "flushed_ok (core (demo_toolhead\<lparr>core := (core demo_toolhead)\<lparr>PrintTime := 1\<rparr>\<rparr>))"
    by (simp add: flushed_ok_def demo_toolhead_def NewToolhead_def ApplyVelocityLimitResult_def
        NewToolheadCoreState_def DefaultSdsCheckTime_def)
  then show ?thesis
    using drip_time_bounded[of 5 demo_env "demo_toolhead\<lparr>core := (core demo_toolhead)\<lparr>PrintTime := 1\<rparr>\<rparr>" 3]
    by (auto simp: demo_fields demo_env_def)
qed

text \<open>
  C28. A drip move that the kinematics rejects leaves the toolhead in drip mode: the error
  is raised with the flush timer stopped and the drip queuing state set, because the
  clean-up recognises only command errors and the rejection is not one.
\<close>

theorem rejected_drip_move_stays_in_drip:
  assumes "clock_ok env" and "th_reachable env th"
    and "NewMove (core_MoveConfig (core th)) (CommandedPos (core th)) newpos speed = Inr m" and "Move_d m \<noteq> 0"
    and "Is_kinematic_move m" and "Kin_Check_move m (th_Kin th) = Inl e"
  shows "\<exists>th'. Drip_move env newpos speed th = Some (Inl (MoveRejected e, th')) \<and>
    Flush_timer th' = NEVER \<and> SpecialQueuingState (core th') = ''Drip''"
  by (rule Drip_rejected[OF assms(1) reachable_motion[OF assms(2,1)] assms(3-6)])

theorem rejected_drip_move_stays_in_drip_witness:
  "\<exists>e th'. Drip_move demo_env [1, 0, 0, 0] 1 (NewToolhead False 1 demo_settings (CoreXY (demo_corexy\<lparr>cxy_limits := unhomed_limits\<rparr>))) =
     Some (Inl (MoveRejected e, th')) \<and> Flush_timer th' = NEVER"
proof -
  let ?k = "demo_corexy\<lparr>cxy_limits := unhomed_limits\<rparr>"
  let ?th = "NewToolhead False 1 demo_settings (CoreXY ?k)"
  have r: "th_reachable demo_env ?th"
    by (rule th_start) (simp_all add: wf_settings_def demo_settings_def demo_corexy_def)
  have c: "core ?th = core demo_toolhead" by (simp add: NewToolhead_def demo_toolhead_def)
  obtain e where e: "Kin_Check_move unit_move (th_Kin ?th) = Inl e"
  proof (cases "cxy_CheckMove unit_move ?k")
    case (Inr m')
    from cxy.accepted_homed[OF this, of 0] show ?thesis by (simp add: unit_move_def unhomed_limits_def)
  qed (use that in \<open>simp add: NewToolhead_def\<close>)
  have n: "NewMove (core_MoveConfig (core ?th)) (CommandedPos (core ?th)) [1, 0, 0, 0] 1 = Inr unit_move"
    unfolding c demo_config by (rule unit_move_new)
  have "Move_d unit_move \<noteq> 0" by (simp add: unit_fields)
  from rejected_drip_move_stays_in_drip[OF demo_clock r n this unit_fields(2) e] show ?thesis by blast
qed

end
