(* ===== verification/StepCompress.thy ===== *)
theory StepCompress
  imports Prelude
begin

text \<open>
  Step compression, first half (\<open>src/chelper/stepcompress.c\<close>, lines 31--245): the data the
  compressor works on, the search for a quadratic step sequence (\<open>compress_bisect_add\<close>) and
  the check that guards every sequence before it is queued (\<open>check_line\<close>).

  Integers.  A \<open>uint32_t\<close> is an \<^typ>\<open>int\<close> reduced by \<open>uint32\<close> wherever the C code stores or
  compares one; conversions to signed types are \<open>to_int32\<close> and \<open>to_int16\<close>.  The search runs on
  \<open>int32_t\<close> variables, whose overflow C leaves undefined: it is written over unbounded
  integers.  Nothing about the queued steps depends on that choice, because the guard
  \<open>check_line\<close>, which is written at width, decides alone what reaches the micro-controller.
  64-bit clocks are unbounded integers.

  The two theorems of this half are that the search ends with a sequence whose every step lies
  in the window of the step it stands for, and that such a sequence passes the guard: on a
  queue of strictly increasing steps the compressor cannot report an error.
\<close>

named_theorems width_simps

definition uint32 :: "int \<Rightarrow> int" where
  "uint32 x = x mod 4294967296"

definition to_int32 :: "int \<Rightarrow> int" where
  "to_int32 x = (x + 2147483648) mod 4294967296 - 2147483648"

definition uint16 :: "int \<Rightarrow> int" where
  "uint16 x = x mod 65536"

definition to_int16 :: "int \<Rightarrow> int" where
  "to_int16 x = (x + 32768) mod 65536 - 32768"

text \<open>Division of C integers by a positive divisor truncates towards zero.\<close>

definition c_quot :: "int \<Rightarrow> int \<Rightarrow> int" where
  "c_quot n d = (if 0 \<le> n then n div d else - ((- n) div d))"

section \<open>Data\<close>

record step_move =
  sm_interval :: int
  sm_count :: int
  sm_add :: int

record history_steps =
  hs_first_clock :: int
  hs_last_clock :: int
  hs_start_position :: int
  hs_step_count :: int
  hs_interval :: int
  hs_add :: int

record queue_message =
  qm_data :: "int list"
  qm_min_clock :: int
  qm_req_clock :: int

text \<open>
  The compressor.  \<open>sc_queue\<close> is the slice from \<open>queue_pos\<close> to \<open>queue_next\<close>, of low words of
  step clocks; \<open>sc_pos\<close> is \<open>queue_pos - queue\<close> and \<open>sc_cap\<close> is \<open>queue_end - queue\<close>, so that a
  write at \<open>queue_next\<close> is inside the allocation iff
  \<open>sc_pos + length sc_queue < sc_cap\<close>.  \<open>sc_history\<close> has the newest entry first, as
  \<open>list_add_head\<close> leaves it.
\<close>

record stepcompress =
  sc_queue :: "int list"
  sc_pos :: nat
  sc_cap :: nat
  sc_max_error :: int
  sc_mcu_time_offset :: real
  sc_mcu_freq :: real
  sc_last_step_print_time :: real
  sc_last_step_clock :: int
  sc_msg_queue :: "queue_message list"
  sc_oid :: int
  sc_queue_step_msgtag :: int
  sc_set_next_step_dir_msgtag :: int
  sc_sdir :: int
  sc_invert_sdir :: int
  sc_next_step_clock :: int
  sc_next_step_dir :: int
  sc_last_position :: int
  sc_history :: "history_steps list"

section \<open>Step compression\<close>

definition idiv_up :: "int \<Rightarrow> int \<Rightarrow> int" where
  "idiv_up n d = (if n \<ge> 0 then c_quot (n + d - 1) d else c_quot n d)"

definition idiv_down :: "int \<Rightarrow> int \<Rightarrow> int" where
  "idiv_down n d = (if n \<ge> 0 then c_quot n d else c_quot (n - d + 1) d)"

text \<open>Maximum clock delta between messages in the queue.\<close>

definition CLOCK_DIFF_MAX :: int where
  "CLOCK_DIFF_MAX = 805306368"

text \<open>
  The acceptable times of the step at offset \<open>i\<close> of \<open>queue_pos\<close>: the pair \<open>(minp, maxp)\<close>, relative
  to the last step clock.
\<close>

definition minmax_point :: "stepcompress \<Rightarrow> nat \<Rightarrow> int \<times> int" where
  "minmax_point sc i =
     (let lsc = uint32 (sc_last_step_clock sc);
          point = uint32 (sc_queue sc ! i - lsc);
          prevpoint = (if 0 < i then uint32 (sc_queue sc ! (i - 1) - lsc) else 0);
          err = uint32 (point - prevpoint) div 2;
          err = (if err > sc_max_error sc then sc_max_error sc else err)
      in (to_int32 (uint32 (point - err)), to_int32 point))"

text \<open>
  The inner loop of the search: extend the sequence with a fixed \<open>add\<close> as far as an interval
  exists.  \<open>Covers\<close> is the early return at the end of the queue, \<open>Breaks\<close> the exit with the loop's
  variables \<open>nextmininterval\<close>, \<open>nextmaxinterval\<close>, \<open>interval\<close>, \<open>nextcount\<close> and \<open>nextpoint\<close>.
\<close>

datatype inner_exit = Covers int nat | Breaks int int int nat "int \<times> int"

function bisect_inner ::
  "stepcompress \<Rightarrow> nat \<Rightarrow> int \<Rightarrow> int \<Rightarrow> int \<Rightarrow> int \<Rightarrow> nat \<Rightarrow> inner_exit" where
  "bisect_inner sc qlen ad nmin nmax ival ncount =
     (let ncount = ncount + 1 in
      if ncount - 1 \<ge> qlen then Covers ival (ncount - 1)
      else
        let (minp, maxp) = minmax_point sc (ncount - 1);
            n = int ncount;
            c = ad * (n * (n - 1) div 2);
            nmin = (if nmin * n < minp - c then idiv_up (minp - c) n else nmin);
            nmax = (if nmax * n > maxp - c then idiv_down (maxp - c) n else nmax)
        in if nmin > nmax then Breaks nmin nmax ival ncount (minp, maxp)
           else bisect_inner sc qlen ad nmin nmax nmax ncount)"
  by pat_completeness auto
termination
  by (relation "measure (\<lambda>(sc, qlen, ad, nmin, nmax, ival, ncount). qlen - ncount)") auto

declare bisect_inner.simps [simp del]

text \<open>The variables of the outer loop.\<close>

record bisect =
  b_omin :: int
  b_omax :: int
  b_add :: int
  b_minadd :: int
  b_maxadd :: int
  b_bestinterval :: int
  b_bestcount :: int
  b_bestadd :: int
  b_bestreach :: int
  b_zerointerval :: int
  b_zerocount :: int

definition mk_move :: "int \<Rightarrow> int \<Rightarrow> int \<Rightarrow> step_move" where
  "mk_move interval count ad =
     \<lparr>sm_interval = uint32 interval, sm_count = uint16 count, sm_add = to_int16 ad\<rparr>"

definition QUADRATIC_DEV :: int where
  "QUADRATIC_DEV = 11"

text \<open>``Check if this is the best sequence found so far.''\<close>

definition bisect_reach :: "int \<Rightarrow> int \<Rightarrow> int \<Rightarrow> int" where
  "bisect_reach ad interval count = ad * (count * (count - 1) div 2) + interval * count"

definition bisect_improves :: "int \<Rightarrow> int \<Rightarrow> bisect \<Rightarrow> bool" where
  "bisect_improves interval count b =
     (let reach = bisect_reach (b_add b) interval count
      in reach > b_bestreach b \<or> reach = b_bestreach b \<and> interval > b_bestinterval b)"

definition bisect_best :: "int \<Rightarrow> int \<Rightarrow> bisect \<Rightarrow> bisect" where
  "bisect_best interval count b =
     (if bisect_improves interval count b
      then let b = b\<lparr>b_bestinterval := interval, b_bestcount := count, b_bestadd := b_add b,
                     b_bestreach := bisect_reach (b_add b) interval count\<rparr>
           in if b_add b = 0 then b\<lparr>b_zerointerval := interval, b_zerocount := count\<rparr> else b
      else b)"

text \<open>``Check if a greater or lesser add could extend the sequence.''\<close>

definition limit_direction ::
  "int \<Rightarrow> int \<Rightarrow> int \<Rightarrow> int \<Rightarrow> int \<times> int \<Rightarrow> bisect \<Rightarrow> bisect" where
  "limit_direction nmin nmax interval ncount nextpoint b =
     (if bisect_reach (b_add b) interval ncount < fst nextpoint
      then b\<lparr>b_minadd := b_add b + 1, b_omax := nmax\<rparr>
      else b\<lparr>b_maxadd := b_add b - 1, b_omin := nmin\<rparr>)"

text \<open>``The maximum valid deviation between two quadratic sequences.''\<close>

definition limit_deviation :: "stepcompress \<Rightarrow> int \<Rightarrow> bisect \<Rightarrow> bisect" where
  "limit_deviation sc count b =
     (if count > 1
      then let errdelta = uint32 (sc_max_error sc * QUADRATIC_DEV) div (count * count);
               minadd = (if b_minadd b < b_add b - errdelta then b_add b - errdelta else b_minadd b);
               maxadd = (if b_maxadd b > b_add b + errdelta then b_add b + errdelta else b_maxadd b)
           in b\<lparr>b_minadd := minadd, b_maxadd := maxadd\<rparr>
      else b)"

text \<open>``See if next point would further limit the add range.''\<close>

definition limit_nextpoint :: "int \<Rightarrow> int \<times> int \<Rightarrow> bisect \<Rightarrow> bisect" where
  "limit_nextpoint ncount nextpoint b =
     (let nextaddfactor = ncount * (ncount - 1) div 2;
          c = fst nextpoint - b_omax b * ncount;
          minadd = (if b_minadd b * nextaddfactor < c then idiv_up c nextaddfactor else b_minadd b);
          d = snd nextpoint - b_omin b * ncount;
          maxadd = (if b_maxadd b * nextaddfactor > d then idiv_down d nextaddfactor else b_maxadd b)
      in b\<lparr>b_minadd := minadd, b_maxadd := maxadd\<rparr>)"

definition bisect_limits ::
  "stepcompress \<Rightarrow> int \<Rightarrow> int \<Rightarrow> int \<Rightarrow> int \<Rightarrow> int \<times> int \<Rightarrow> bisect \<Rightarrow> bisect" where
  "bisect_limits sc nmin nmax interval ncount nextpoint b =
     limit_nextpoint ncount nextpoint
       (limit_deviation sc (ncount - 1) (limit_direction nmin nmax interval ncount nextpoint b))"

text \<open>
  One round of the outer loop: it returns a move at once, leaves the loop, or goes on with a
  new \<open>add\<close>.
\<close>

datatype round_exit = Returns step_move | Leaves bisect | Again bisect

definition bisect_round :: "stepcompress \<Rightarrow> nat \<Rightarrow> bisect \<Rightarrow> round_exit" where
  "bisect_round sc qlen b =
     (case bisect_inner sc qlen (b_add b) (b_omin b) (b_omax b) (b_omax b) 1 of
        Covers interval count \<Rightarrow> Returns (mk_move interval (int count) (b_add b))
      | Breaks nmin nmax interval ncount nextpoint \<Rightarrow>
          (let count = int ncount - 1;
               improves = bisect_improves interval count b;
               b = bisect_best interval count b
           in if improves \<and> count > 0x200 then Leaves b
              else
                let b = bisect_limits sc nmin nmax interval (int ncount) nextpoint b
                in if b_minadd b > b_maxadd b then Leaves b
                   else Again (b\<lparr>b_add := b_maxadd b - c_quot (b_maxadd b - b_minadd b) 4\<rparr>)))"

text \<open>``Prefer add=0 if it's similar to the best found sequence.''\<close>

definition bisect_choose :: "bisect \<Rightarrow> step_move" where
  "bisect_choose b =
     (if b_zerocount b + c_quot (b_zerocount b) 16 \<ge> b_bestcount b
      then mk_move (b_zerointerval b) (b_zerocount b) 0
      else mk_move (b_bestinterval b) (b_bestcount b) (b_bestadd b))"

text \<open>The outer loop; \<^const>\<open>None\<close> would be a search that never returns.\<close>

partial_function (option) bisect_outer :: "stepcompress \<Rightarrow> nat \<Rightarrow> bisect \<Rightarrow> step_move option" where
  "bisect_outer sc qlen b =
     (case bisect_round sc qlen b of
        Returns m \<Rightarrow> Some m
      | Leaves b' \<Rightarrow> Some (bisect_choose b')
      | Again b' \<Rightarrow> bisect_outer sc qlen b')"

declare bisect_outer.simps [code]

definition bisect_start :: "stepcompress \<Rightarrow> bisect" where
  "bisect_start sc =
     (let (minp, maxp) = minmax_point sc 0
      in \<lparr>b_omin = minp, b_omax = maxp, b_add = 0, b_minadd = - 0x8000, b_maxadd = 0x7fff,
          b_bestinterval = 0, b_bestcount = 1, b_bestadd = 1, b_bestreach = - 2147483648,
          b_zerointerval = 0, b_zerocount = 0\<rparr>)"

definition compress_bisect_add :: "stepcompress \<Rightarrow> step_move option" where
  "compress_bisect_add sc = bisect_outer sc (min (length (sc_queue sc)) 65535) (bisect_start sc)"

section \<open>Step compress checking\<close>

text \<open>
  The loop of \<open>check_line\<close>: \<open>n\<close> points are left, \<open>i\<close> have been checked, \<open>p\<close> and \<open>interval\<close> are the
  \<open>uint32_t\<close> accumulators.  The bounds are compared with \<open>p\<close> as unsigned words.
\<close>

fun check_points :: "stepcompress \<Rightarrow> int \<Rightarrow> nat \<Rightarrow> nat \<Rightarrow> int \<Rightarrow> int \<Rightarrow> bool" where
  "check_points sc ad i 0 interval p = True"
| "check_points sc ad i (Suc n) interval p =
     (let (minp, maxp) = minmax_point sc i;
          p = uint32 (p + interval)
      in if p < uint32 minp \<or> p > uint32 maxp then False
         else if interval \<ge> 0x80000000 then False
         else check_points sc ad (Suc i) n (uint32 (interval + ad)) p)"

definition check_line :: "stepcompress \<Rightarrow> step_move \<Rightarrow> bool" where
  "check_line sc move =
     (if sm_count move = 0
         \<or> sm_interval move = 0 \<and> sm_add move = 0 \<and> sm_count move > 1
         \<or> sm_interval move \<ge> 0x80000000
      then False
      else check_points sc (sm_add move) 0 (nat (sm_count move)) (sm_interval move) 0)"

section \<open>Arithmetic at width\<close>

lemma uint32_id [width_simps]: "0 \<le> x \<Longrightarrow> x < 4294967296 \<Longrightarrow> uint32 x = x"
  by (simp add: uint32_def)

lemma uint32_range [simp]: "0 \<le> uint32 x" "uint32 x < 4294967296"
  by (simp_all add: uint32_def)

lemma uint32_uint32 [simp]: "uint32 (uint32 x) = uint32 x"
  by (simp add: uint32_def)

lemma uint32_diff [simp]: "uint32 (uint32 x - uint32 y) = uint32 (x - y)"
  by (simp add: uint32_def mod_diff_eq)

lemma uint32_add [simp]:
  "uint32 (uint32 x + y) = uint32 (x + y)" "uint32 (x + uint32 y) = uint32 (x + y)"
  by (simp_all add: uint32_def mod_simps)

lemma to_int32_id [width_simps]: "- 2147483648 \<le> x \<Longrightarrow> x < 2147483648 \<Longrightarrow> to_int32 x = x"
  by (simp add: to_int32_def)

lemma uint16_id [width_simps]: "0 \<le> x \<Longrightarrow> x < 65536 \<Longrightarrow> uint16 x = x"
  by (simp add: uint16_def)

lemma to_int16_id [width_simps]: "- 32768 \<le> x \<Longrightarrow> x < 32768 \<Longrightarrow> to_int16 x = x"
  by (simp add: to_int16_def)

lemma to_int16_range: "- 32768 \<le> to_int16 x" "to_int16 x < 32768"
  by (simp_all add: to_int16_def)

text \<open>A word that reads as a small number, from a value close to that range, is that value.\<close>

lemma uint32_small_exact:
  assumes "uint32 v < 2147483648" and "- 2147483648 \<le> v" and "v < 4294967296"
  shows "uint32 v = v" and "0 \<le> v"
proof -
  have "0 \<le> v"
  proof (rule ccontr)
    assume "\<not> 0 \<le> v"
    then have "uint32 v = v + 4294967296"
      using assms(2) uint32_id [of "v + 4294967296"] by (simp add: uint32_def)
    then show False using assms by simp
  qed
  then show "0 \<le> v" and "uint32 v = v" using assms(3) by (simp_all add: uint32_id)
qed

lemma le_div_iff_mult: "0 < d \<Longrightarrow> x \<le> n div d \<longleftrightarrow> x * d \<le> (n::int)"
proof
  assume d: "0 < d" and "x \<le> n div d"
  then have "x * d \<le> n div d * d" by (simp add: mult_right_mono)
  also have "\<dots> \<le> n" using d pos_mod_sign [of d n] div_mult_mod_eq [of n d] by linarith
  finally show "x * d \<le> n" .
next
  assume d: "0 < d" and "x * d \<le> n"
  then have "x * d div d \<le> n div d" by (intro zdiv_mono1)
  then show "x \<le> n div d" using d by simp
qed

text \<open>\<open>idiv_down\<close> is the floor and \<open>idiv_up\<close> the ceiling of the quotient.\<close>

lemma le_idiv_down_iff: "0 < d \<Longrightarrow> x \<le> idiv_down n d \<longleftrightarrow> x * d \<le> n"
proof (cases "0 \<le> n")
  case False
  assume d: "0 < d"
  have "x \<le> idiv_down n d \<longleftrightarrow> \<not> 1 - x \<le> (- (n - d + 1)) div d"
    using False d by (auto simp: idiv_down_def c_quot_def)
  also have "\<dots> \<longleftrightarrow> x * d \<le> n"
    using d by (auto simp: le_div_iff_mult left_diff_distrib)
  finally show ?thesis .
qed (simp add: idiv_down_def c_quot_def le_div_iff_mult)

lemma idiv_up_le_iff: "0 < d \<Longrightarrow> idiv_up n d \<le> x \<longleftrightarrow> n \<le> x * d"
proof (cases "0 \<le> n")
  case True
  assume d: "0 < d"
  have "idiv_up n d \<le> x \<longleftrightarrow> \<not> x + 1 \<le> (n + d - 1) div d"
    using True d by (auto simp: idiv_up_def c_quot_def)
  also have "\<dots> \<longleftrightarrow> n \<le> x * d"
    using d by (auto simp: le_div_iff_mult distrib_right)
  finally show ?thesis .
next
  case False
  assume d: "0 < d"
  have "idiv_up n d \<le> x \<longleftrightarrow> - x \<le> (- n) div d"
    using False by (auto simp: idiv_up_def c_quot_def)
  then show ?thesis using d by (auto simp: le_div_iff_mult)
qed

section \<open>What the micro-controller does with a move\<close>

text \<open>
  The step events of a command, as the header of the source states them:
  \<open>next_wake_time = last_wake_time + interval; interval += add\<close>.
\<close>

fun step_times :: "int \<Rightarrow> int \<Rightarrow> int \<Rightarrow> nat \<Rightarrow> int list" where
  "step_times p v a 0 = []"
| "step_times p v a (Suc n) = (p + v) # step_times (p + v) (v + a) a n"

text \<open>The closed form the search works with.\<close>

definition quad :: "int \<Rightarrow> int \<Rightarrow> int \<Rightarrow> int" where
  "quad v a k = a * (k * (k - 1) div 2) + v * k"

lemma triangle_Suc: "(k + 1) * k div 2 = k * (k - 1) div 2 + (k::int)"
proof -
  have "(k + 1) * k = k * (k - 1) + k * 2" by (simp add: algebra_simps)
  then show ?thesis by simp
qed

lemma quad_simps [simp]: "quad v a 0 = 0" "quad v a 1 = v"
  by (simp_all add: quad_def)

lemma quad_Suc: "quad v a (k + 1) = quad v a k + (v + a * k)"
  using triangle_Suc [of k] by (simp add: quad_def algebra_simps)

lemma quad_shift: "v + quad (v + a) a k = quad v a (k + 1)"
  using triangle_Suc [of k] by (simp add: quad_def algebra_simps)

lemma bisect_reach_quad: "bisect_reach a v k = quad v a k"
  by (simp add: bisect_reach_def quad_def)

lemma length_step_times [simp]: "length (step_times p v a n) = n"
  by (induction n arbitrary: p v) auto

lemma nth_step_times:
  "k < n \<Longrightarrow> step_times p v a n ! k = p + quad v a (int k + 1)"
proof (induction n arbitrary: p v k)
  case (Suc n)
  show ?case
  proof (cases k)
    case (Suc j)
    then have "step_times p v a (Suc n) ! k = p + (v + quad (v + a) a (int j + 1))"
      using Suc.IH [of j "p + v" "v + a"] Suc.prems by simp
    also have "v + quad (v + a) a (int j + 1) = quad v a (int k + 1)"
      using quad_shift [of v a "int j + 1"] Suc by (simp add: ac_simps)
    finally show ?thesis .
  qed simp
qed simp

lemma last_step_times: "0 < n \<Longrightarrow> last (step_times p v a n) = p + quad v a (int n)"
  using nth_step_times [of "n - 1" n p v a]
  by (subst last_conv_nth) (auto simp: of_nat_diff simp flip: length_greater_0_conv)

section \<open>The windows of the queued steps\<close>

text \<open>
  \<open>queued sc ts\<close>: the queue holds the low words of the step clocks \<open>ts\<close>, which do not decrease
  and lie within \<^const>\<open>CLOCK_DIFF_MAX\<close> after the last step.
\<close>

definition queued :: "stepcompress \<Rightarrow> int list \<Rightarrow> bool" where
  "queued sc ts \<longleftrightarrow>
     sc_queue sc = map uint32 ts \<and> sorted ts \<and> 0 \<le> sc_max_error sc \<and>
     (\<forall>t \<in> set ts. sc_last_step_clock sc \<le> t \<and> t < sc_last_step_clock sc + CLOCK_DIFF_MAX)"

text \<open>The time of the step before the \<open>i\<close>th queued one, and the error the \<open>i\<close>th may have.\<close>

definition prev_time :: "stepcompress \<Rightarrow> int list \<Rightarrow> nat \<Rightarrow> int" where
  "prev_time sc ts i = (if 0 < i then ts ! (i - 1) else sc_last_step_clock sc)"

definition slack :: "stepcompress \<Rightarrow> int list \<Rightarrow> nat \<Rightarrow> int" where
  "slack sc ts i = min ((ts ! i - prev_time sc ts i) div 2) (sc_max_error sc)"

lemma queued_nth:
  assumes "queued sc ts" and "i < length ts"
  shows "sc_last_step_clock sc \<le> ts ! i" and "ts ! i < sc_last_step_clock sc + CLOCK_DIFF_MAX"
    and "sc_queue sc ! i = uint32 (ts ! i)"
  using assms by (auto simp: queued_def)

lemma prev_time_bounds:
  assumes "queued sc ts" and "i < length ts"
  shows "prev_time sc ts i \<le> ts ! i" and "sc_last_step_clock sc \<le> prev_time sc ts i"
  using assms queued_nth [OF assms(1), of "i - 1"]
  by (auto simp: prev_time_def queued_def sorted_iff_nth_mono)

lemma slack_bounds:
  assumes "queued sc ts" and "i < length ts"
  shows "0 \<le> slack sc ts i" and "slack sc ts i \<le> sc_max_error sc"
    and "2 * slack sc ts i \<le> ts ! i - prev_time sc ts i"
proof -
  have "0 \<le> sc_max_error sc" using assms by (simp add: queued_def)
  then show "0 \<le> slack sc ts i" "slack sc ts i \<le> sc_max_error sc"
    using prev_time_bounds [OF assms] by (auto simp: slack_def)
  show "2 * slack sc ts i \<le> ts ! i - prev_time sc ts i"
    by (simp add: slack_def min_def) linarith
qed

lemma minmax_point_exact:
  assumes "queued sc ts" and "i < length ts"
  shows "minmax_point sc i =
    (ts ! i - sc_last_step_clock sc - slack sc ts i, ts ! i - sc_last_step_clock sc)"
proof -
  let ?l = "sc_last_step_clock sc"
  note q = queued_nth [OF assms] prev_time_bounds [OF assms] slack_bounds [OF assms]
  have point: "uint32 (sc_queue sc ! i - uint32 ?l) = ts ! i - ?l"
    using q by (simp add: uint32_id CLOCK_DIFF_MAX_def)
  have prev: "(if 0 < i then uint32 (sc_queue sc ! (i - 1) - uint32 ?l) else 0)
      = prev_time sc ts i - ?l"
  proof (cases "0 < i")
    case True
    then have "i - 1 < length ts" using assms(2) by simp
    from queued_nth [OF assms(1) this] True show ?thesis
      by (simp add: prev_time_def uint32_id CLOCK_DIFF_MAX_def)
  qed (simp add: prev_time_def)
  have gap: "uint32 (ts ! i - ?l - (prev_time sc ts i - ?l)) = ts ! i - prev_time sc ts i"
    using q by (simp add: uint32_id CLOCK_DIFF_MAX_def)
  have err: "(if (ts ! i - prev_time sc ts i) div 2 > sc_max_error sc then sc_max_error sc
      else (ts ! i - prev_time sc ts i) div 2) = slack sc ts i"
    by (simp add: slack_def min_def)
  have "0 \<le> ts ! i - ?l - slack sc ts i" "ts ! i - ?l - slack sc ts i < 2147483648"
    using q by (auto simp: CLOCK_DIFF_MAX_def)
  then show ?thesis
    unfolding minmax_point_def Let_def point prev gap err
    using q by (simp add: uint32_id to_int32_id CLOCK_DIFF_MAX_def)
qed

text \<open>The upper end of a window is not beyond the lower end of the next one.\<close>

lemma window_order:
  assumes "queued sc ts" and "Suc i < length ts"
  shows "ts ! i \<le> ts ! Suc i - slack sc ts (Suc i)"
  using slack_bounds [OF assms] prev_time_bounds [OF assms] by (auto simp: prev_time_def)

section \<open>The guard\<close>

definition move_wf :: "step_move \<Rightarrow> bool" where
  "move_wf m \<longleftrightarrow>
     0 \<le> sm_interval m \<and> sm_interval m < 4294967296 \<and> 0 \<le> sm_count m \<and> sm_count m < 65536 \<and>
     - 32768 \<le> sm_add m \<and> sm_add m < 32768"

lemma move_wf_mk_move [simp]: "move_wf (mk_move v c a)"
  using to_int16_range [of a] by (simp add: move_wf_def mk_move_def uint16_def)

text \<open>
  What the guard checks: each of \<open>n\<close> step events that start after \<open>p\<close> lies in the window of
  its queued step, and no interval between two of them is negative.
\<close>

definition in_windows :: "stepcompress \<Rightarrow> int list \<Rightarrow> nat \<Rightarrow> int \<Rightarrow> int \<Rightarrow> int \<Rightarrow> nat \<Rightarrow> bool" where
  "in_windows sc ts i p v a n \<longleftrightarrow>
     (\<forall>k < n. ts ! (i + k) - slack sc ts (i + k) \<le> sc_last_step_clock sc + step_times p v a n ! k
            \<and> sc_last_step_clock sc + step_times p v a n ! k \<le> ts ! (i + k)
            \<and> 0 \<le> v + a * int k \<and> v + a * int k < 2147483648)"

lemma in_windows_0 [simp]: "in_windows sc ts i p v a 0"
  by (simp add: in_windows_def)

lemma in_windows_Suc:
  "in_windows sc ts i p v a (Suc n) \<longleftrightarrow>
     ts ! i - slack sc ts i \<le> sc_last_step_clock sc + (p + v)
     \<and> sc_last_step_clock sc + (p + v) \<le> ts ! i \<and> 0 \<le> v \<and> v < 2147483648
     \<and> in_windows sc ts (Suc i) (p + v) (v + a) a n"
  by (auto simp: in_windows_def All_less_Suc2 algebra_simps)

lemma check_points_windows:
  assumes "queued sc ts" and "i + n \<le> length ts"
    and "0 \<le> p" and "p < CLOCK_DIFF_MAX"
    and "- 32768 \<le> v" and "v < 2147483648 + 32768" and "- 32768 \<le> a" and "a < 32768"
  shows "check_points sc a i n (uint32 v) p \<longleftrightarrow> in_windows sc ts i p v a n"
  using assms
proof (induction n arbitrary: i p v)
  case (Suc n)
  let ?l = "sc_last_step_clock sc"
  have i: "i < length ts" using Suc.prems by simp
  note q = queued_nth [OF Suc.prems(1) i] prev_time_bounds [OF Suc.prems(1) i]
    slack_bounds [OF Suc.prems(1) i]
  have mm: "minmax_point sc i = (ts ! i - ?l - slack sc ts i, ts ! i - ?l)"
    by (rule minmax_point_exact [OF Suc.prems(1) i])
  have lo: "uint32 (ts ! i - ?l - slack sc ts i) = ts ! i - ?l - slack sc ts i"
    and hi: "uint32 (ts ! i - ?l) = ts ! i - ?l"
    using q by (auto intro!: uint32_id simp: CLOCK_DIFF_MAX_def)
  show ?case
  proof (cases "uint32 v < 2147483648")
    case True
    have v: "uint32 v = v" "0 \<le> v" "v < 2147483648"
      using uint32_small_exact [OF True] True Suc.prems by auto
    have p: "uint32 (p + v) = p + v"
      using Suc.prems v by (auto intro!: uint32_id simp: CLOCK_DIFF_MAX_def)
    have IH: "check_points sc a (Suc i) n (uint32 (v + a)) (p + v)
        \<longleftrightarrow> in_windows sc ts (Suc i) (p + v) (v + a) a n"
      if "p + v \<le> ts ! i - ?l"
      using Suc.IH [of "Suc i" "p + v" "v + a"] Suc.prems v q that
      by (simp add: CLOCK_DIFF_MAX_def)
    show ?thesis
      unfolding check_points.simps mm Let_def in_windows_Suc
      using IH v p lo hi by auto
  next
    case False
    then have "\<not> (0 \<le> v \<and> v < 2147483648)" using uint32_id [of v] by auto
    then show ?thesis
      unfolding check_points.simps mm Let_def in_windows_Suc using False by auto
  qed
qed simp

lemma check_line_windows:
  assumes "queued sc ts" and "move_wf m" and "sm_count m \<le> int (length ts)"
  shows "check_line sc m \<longleftrightarrow>
     0 < sm_count m \<and> \<not> (sm_interval m = 0 \<and> sm_add m = 0 \<and> sm_count m > 1)
     \<and> in_windows sc ts 0 0 (sm_interval m) (sm_add m) (nat (sm_count m))"
proof (cases "0 < sm_count m \<and> sm_interval m < 2147483648")
  case True
  have "uint32 (sm_interval m) = sm_interval m"
    using assms(2) by (simp add: move_wf_def uint32_id)
  then have "check_points sc (sm_add m) 0 (nat (sm_count m)) (sm_interval m) 0
      \<longleftrightarrow> in_windows sc ts 0 0 (sm_interval m) (sm_add m) (nat (sm_count m))"
    using check_points_windows [OF assms(1), of 0 "nat (sm_count m)" 0 "sm_interval m" "sm_add m"]
      assms(2,3) True by (simp add: move_wf_def CLOCK_DIFF_MAX_def)
  then show ?thesis using True by (auto simp: check_line_def)
next
  case False
  have "\<not> in_windows sc ts 0 0 (sm_interval m) (sm_add m) (nat (sm_count m))"
    if "0 < sm_count m"
  proof -
    have "0 < nat (sm_count m)" using that by simp
    then obtain n where "nat (sm_count m) = Suc n" using gr0_implies_Suc by blast
    then show ?thesis using False that by (simp add: in_windows_Suc)
  qed
  moreover have "0 \<le> sm_count m" using assms(2) by (simp add: move_wf_def)
  ultimately show ?thesis using False by (auto simp: check_line_def)
qed

section \<open>The search\<close>

text \<open>A sequence of \<open>n\<close> steps whose every point is in its window.\<close>

definition ok_seq :: "stepcompress \<Rightarrow> int \<Rightarrow> int \<Rightarrow> nat \<Rightarrow> bool" where
  "ok_seq sc v a n \<longleftrightarrow>
     (\<forall>k < n. fst (minmax_point sc k) \<le> quad v a (int k + 1)
            \<and> quad v a (int k + 1) \<le> snd (minmax_point sc k))"

lemma ok_seq_Suc:
  "ok_seq sc v a (Suc n) \<longleftrightarrow>
     ok_seq sc v a n \<and> fst (minmax_point sc n) \<le> quad v a (int n + 1)
     \<and> quad v a (int n + 1) \<le> snd (minmax_point sc n)"
  by (auto simp: ok_seq_def less_Suc_eq)

lemma ok_seq_1: "ok_seq sc v a (Suc 0) \<longleftrightarrow> fst (minmax_point sc 0) \<le> v \<and> v \<le> snd (minmax_point sc 0)"
  by (simp add: ok_seq_def)

text \<open>The interval range of the inner loop narrows exactly by the window of the next step.\<close>

lemma narrow_low:
  fixes n :: int
  assumes "0 < n"
  shows "(if lo * n < X then idiv_up X n else lo) \<le> x \<longleftrightarrow> lo \<le> x \<and> X \<le> x * n"
proof (cases "lo * n < X")
  case True
  have "lo \<le> x" if "X \<le> x * n"
    using True that assms mult_less_cancel_right_pos [of n lo x] by linarith
  then show ?thesis using True assms by (auto simp: idiv_up_le_iff)
next
  case False
  have "X \<le> x * n" if "lo \<le> x"
    using False mult_right_mono [OF that, of n] assms by linarith
  then show ?thesis using False by auto
qed

lemma narrow_high:
  fixes n :: int
  assumes "0 < n"
  shows "x \<le> (if hi * n > X then idiv_down X n else hi) \<longleftrightarrow> x \<le> hi \<and> x * n \<le> X"
proof (cases "hi * n > X")
  case True
  have "x \<le> hi" if "x * n \<le> X"
    using True that assms mult_less_cancel_right_pos [of n x hi] by linarith
  then show ?thesis using True assms by (auto simp: le_idiv_down_iff)
next
  case False
  have "x * n \<le> X" if "x \<le> hi"
    using False mult_right_mono [OF that, of n] assms by linarith
  then show ?thesis using False by auto
qed

text \<open>
  What the inner loop delivers: a sequence that fits, and on a break the two facts that keep
  the outer interval range inhabited.
\<close>

fun inner_post :: "stepcompress \<Rightarrow> nat \<Rightarrow> int \<Rightarrow> int \<Rightarrow> int \<Rightarrow> inner_exit \<Rightarrow> bool" where
  "inner_post sc qlen a omin omax (Covers v n) =
     (0 < n \<and> n \<le> qlen \<and> ok_seq sc v a n)"
| "inner_post sc qlen a omin omax (Breaks lo hi v n pt) =
     (1 < n \<and> n \<le> qlen \<and> ok_seq sc v a (n - 1) \<and> pt = minmax_point sc (n - 1) \<and>
      omin \<le> v \<and> v \<le> omax \<and>
      (if quad v a (int n) < fst pt then hi = v else omin \<le> lo \<and> lo \<le> v))"

lemma bisect_inner_post:
  assumes "\<And>x. lo \<le> x \<Longrightarrow> x \<le> hi \<Longrightarrow> ok_seq sc x a n" and "lo \<le> hi" and "v = hi"
    and "0 < n" and "n \<le> qlen" and "omin \<le> lo" and "hi \<le> omax"
    and "\<forall>i < qlen. fst (minmax_point sc i) \<le> snd (minmax_point sc i)"
  shows "inner_post sc qlen a omin omax (bisect_inner sc qlen a lo hi v n)"
  using assms
proof (induction "qlen - n" arbitrary: lo hi v n rule: less_induct)
  case less
  show ?case
  proof (cases "n \<ge> qlen")
    case True
    then have "bisect_inner sc qlen a lo hi v n = Covers v n"
      by (subst bisect_inner.simps) simp
    then show ?thesis using less.prems True by auto
  next
    case False
    obtain minp maxp where mm: "minmax_point sc n = (minp, maxp)" by fastforce
    define m where "m = int (n + 1)"
    define c where "c = a * (m * (m - 1) div 2)"
    define lo' where "lo' = (if lo * m < minp - c then idiv_up (minp - c) m else lo)"
    define hi' where "hi' = (if hi * m > maxp - c then idiv_down (maxp - c) m else hi)"
    have m: "0 < m" by (simp add: m_def)
    have quad: "quad x a m = c + x * m" for x by (simp add: quad_def c_def)
    have eq: "bisect_inner sc qlen a lo hi v n =
        (if lo' > hi' then Breaks lo' hi' v (n + 1) (minp, maxp)
         else bisect_inner sc qlen a lo' hi' hi' (n + 1))"
      using False mm
      by (subst bisect_inner.simps) (simp add: Let_def m_def c_def lo'_def hi'_def)
    have low: "lo' \<le> x \<longleftrightarrow> lo \<le> x \<and> minp - c \<le> x * m" for x
      unfolding lo'_def by (rule narrow_low [OF m])
    have high: "x \<le> hi' \<longleftrightarrow> x \<le> hi \<and> x * m \<le> maxp - c" for x
      unfolding hi'_def by (rule narrow_high [OF m])
    show ?thesis
    proof (cases "lo' > hi'")
      case True
      have "minp \<le> maxp" using less.prems(8) False mm by (metis fst_conv not_le snd_conv)
      then have "if quad v a m < minp then hi' = v else omin \<le> lo' \<and> lo' \<le> v"
        using low [of v] low [of lo'] less.prems(2,3,6) by (auto simp: quad hi'_def)
      then show ?thesis
        using True eq False less.prems mm by (auto simp: m_def)
    next
      case le: False
      have seq: "ok_seq sc x a (n + 1)" if "lo' \<le> x" "x \<le> hi'" for x
        using less.prems(1) [of x] that low [of x] high [of x] quad [of x] mm
        by (simp add: ok_seq_Suc m_def add.commute)
      have "inner_post sc qlen a omin omax (bisect_inner sc qlen a lo' hi' hi' (n + 1))"
      proof (rule less.hyps)
        show "omin \<le> lo'" using low [of lo'] less.prems(6) by simp
        show "hi' \<le> omax" using high [of hi'] less.prems(7) by simp
      qed (use le seq less.prems False in auto)
      then show ?thesis using le eq by simp
    qed
  qed
qed


text \<open>A move the search may return: a sequence of at least one step that fits its windows.\<close>

definition good_move :: "stepcompress \<Rightarrow> nat \<Rightarrow> int \<Rightarrow> int \<Rightarrow> int \<Rightarrow> bool" where
  "good_move sc qlen v c a \<longleftrightarrow>
     0 < c \<and> c \<le> int qlen \<and> ok_seq sc v a (nat c) \<and> - 32768 \<le> a \<and> a < 32768"

text \<open>
  The invariant of the outer loop: the interval range lies in the first window, \<open>add\<close> lies in
  its range, and what has been recorded as best is a sequence that fits (before the first
  round, nothing has been recorded).
\<close>

definition ranges_ok :: "stepcompress \<Rightarrow> bisect \<Rightarrow> bool" where
  "ranges_ok sc b \<longleftrightarrow>
     fst (minmax_point sc 0) \<le> b_omin b \<and> b_omin b \<le> b_omax b \<and>
     b_omax b \<le> snd (minmax_point sc 0) \<and>
     - 32768 \<le> b_minadd b \<and> b_maxadd b < 32768"

definition zero_ok :: "stepcompress \<Rightarrow> nat \<Rightarrow> bisect \<Rightarrow> bool" where
  "zero_ok sc qlen b \<longleftrightarrow>
     b_zerocount b = 0 \<or> good_move sc qlen (b_zerointerval b) (b_zerocount b) 0"

definition best_ok :: "stepcompress \<Rightarrow> nat \<Rightarrow> bisect \<Rightarrow> bool" where
  "best_ok sc qlen b \<longleftrightarrow> good_move sc qlen (b_bestinterval b) (b_bestcount b) (b_bestadd b)"

definition bisect_inv :: "stepcompress \<Rightarrow> nat \<Rightarrow> bisect \<Rightarrow> bool" where
  "bisect_inv sc qlen b \<longleftrightarrow>
     ranges_ok sc b \<and> b_minadd b \<le> b_add b \<and> b_add b \<le> b_maxadd b \<and>
     zero_ok sc qlen b \<and> (b_bestreach b = - 2147483648 \<or> best_ok sc qlen b)"

lemma add_update_keeps [simp]:
  "ranges_ok sc (b\<lparr>b_add := x\<rparr>) = ranges_ok sc b"
  "zero_ok sc qlen (b\<lparr>b_add := x\<rparr>) = zero_ok sc qlen b"
  "best_ok sc qlen (b\<lparr>b_add := x\<rparr>) = best_ok sc qlen b"
  by (simp_all add: ranges_ok_def zero_ok_def best_ok_def)

lemma bisect_best_keeps [simp]:
  "b_omin (bisect_best v c b) = b_omin b" "b_omax (bisect_best v c b) = b_omax b"
  "b_add (bisect_best v c b) = b_add b" "b_minadd (bisect_best v c b) = b_minadd b"
  "b_maxadd (bisect_best v c b) = b_maxadd b"
  by (simp_all add: bisect_best_def Let_def)

lemma bisect_best_ok:
  assumes "good_move sc qlen v c (b_add b)" and "0 \<le> quad v (b_add b) c"
    and "zero_ok sc qlen b" and "b_bestreach b = - 2147483648 \<or> best_ok sc qlen b"
  shows "zero_ok sc qlen (bisect_best v c b)" and "best_ok sc qlen (bisect_best v c b)"
proof -
  show "zero_ok sc qlen (bisect_best v c b)"
    using assms(1,3) by (auto simp: bisect_best_def zero_ok_def Let_def)
  show "best_ok sc qlen (bisect_best v c b)"
  proof (cases "bisect_improves v c b")
    case False
    then have "b_bestreach b \<noteq> - 2147483648"
      using assms(2) by (auto simp: bisect_improves_def Let_def bisect_reach_quad)
    then show ?thesis using assms(4) False by (simp add: bisect_best_def)
  qed (use assms(1) in \<open>auto simp: bisect_best_def best_ok_def Let_def\<close>)
qed

text \<open>The limits only shrink the ranges, and drop the current \<open>add\<close> from them.\<close>

lemma limit_keeps [simp]:
  "zero_ok sc qlen (limit_direction lo hi v n pt b) = zero_ok sc qlen b"
  "zero_ok sc qlen (limit_deviation sc' c b) = zero_ok sc qlen b"
  "zero_ok sc qlen (limit_nextpoint n pt b) = zero_ok sc qlen b"
  "best_ok sc qlen (limit_direction lo hi v n pt b) = best_ok sc qlen b"
  "best_ok sc qlen (limit_deviation sc' c b) = best_ok sc qlen b"
  "best_ok sc qlen (limit_nextpoint n pt b) = best_ok sc qlen b"
  by (simp_all add: limit_direction_def limit_deviation_def limit_nextpoint_def Let_def
      zero_ok_def best_ok_def)

lemma bisect_limits_keeps [simp]:
  "zero_ok sc qlen (bisect_limits sc' lo hi v n pt b) = zero_ok sc qlen b"
  "best_ok sc qlen (bisect_limits sc' lo hi v n pt b) = best_ok sc qlen b"
  by (simp_all add: bisect_limits_def)

lemma limit_outer [simp]:
  "b_omin (limit_deviation sc c b) = b_omin b" "b_omax (limit_deviation sc c b) = b_omax b"
  "b_omin (limit_nextpoint n pt b) = b_omin b" "b_omax (limit_nextpoint n pt b) = b_omax b"
  by (simp_all add: limit_deviation_def limit_nextpoint_def Let_def)

lemma bisect_limits_outer:
  "b_omin (bisect_limits sc lo hi v n pt b) = (if quad v (b_add b) n < fst pt then b_omin b else lo)"
  "b_omax (bisect_limits sc lo hi v n pt b) = (if quad v (b_add b) n < fst pt then hi else b_omax b)"
  by (simp_all add: bisect_limits_def limit_direction_def bisect_reach_quad)

lemma limit_low: "0 < f \<Longrightarrow> m \<le> (if m * f < X then idiv_up X f else (m::int))"
  using narrow_low [of f m X "if m * f < X then idiv_up X f else m"] by simp

lemma limit_high: "0 < f \<Longrightarrow> (if m * f > X then idiv_down X f else (m::int)) \<le> m"
  using narrow_high [where n = f and hi = m and X = X
      and x = "if m * f > X then idiv_down X f else m"] by simp

lemma limit_deviation_adds:
  "b_minadd b \<le> b_minadd (limit_deviation sc c b)" "b_maxadd (limit_deviation sc c b) \<le> b_maxadd b"
  by (simp_all add: limit_deviation_def Let_def)

lemma limit_nextpoint_adds:
  assumes "1 < n"
  shows "b_minadd b \<le> b_minadd (limit_nextpoint n pt b)"
    and "b_maxadd (limit_nextpoint n pt b) \<le> b_maxadd b"
proof -
  have f: "0 < n * (n - 1) div 2" using assms mult_mono [of 2 n 1 "n - 1"] by simp
  show "b_minadd b \<le> b_minadd (limit_nextpoint n pt b)"
    unfolding limit_nextpoint_def Let_def using limit_low [OF f] by simp
  show "b_maxadd (limit_nextpoint n pt b) \<le> b_maxadd b"
    unfolding limit_nextpoint_def Let_def using limit_high [OF f] by simp
qed

lemma bisect_limits_adds:
  assumes "1 < n"
  shows "(if quad v (b_add b) n < fst pt then b_add b + 1 else b_minadd b)
           \<le> b_minadd (bisect_limits sc lo hi v n pt b)"
    and "b_maxadd (bisect_limits sc lo hi v n pt b)
           \<le> (if quad v (b_add b) n < fst pt then b_maxadd b else b_add b - 1)"
proof -
  let ?b1 = "limit_direction lo hi v n pt b"
  let ?b2 = "limit_deviation sc (n - 1) ?b1"
  have "b_minadd ?b1 = (if quad v (b_add b) n < fst pt then b_add b + 1 else b_minadd b)"
    "b_maxadd ?b1 = (if quad v (b_add b) n < fst pt then b_maxadd b else b_add b - 1)"
    by (simp_all add: limit_direction_def bisect_reach_quad)
  moreover note limit_deviation_adds [where b = ?b1 and sc = sc and c = "n - 1"]
    limit_nextpoint_adds [OF assms, where b = ?b2 and pt = pt]
  ultimately show "(if quad v (b_add b) n < fst pt then b_add b + 1 else b_minadd b)
           \<le> b_minadd (bisect_limits sc lo hi v n pt b)"
    and "b_maxadd (bisect_limits sc lo hi v n pt b)
           \<le> (if quad v (b_add b) n < fst pt then b_maxadd b else b_add b - 1)"
    unfolding bisect_limits_def by linarith+
qed

lemma bisect_limits_ranges:
  assumes "ranges_ok sc b" and "b_minadd b \<le> b_add b" and "b_add b \<le> b_maxadd b" and "1 < n"
    and "b_omin b \<le> v" and "v \<le> b_omax b"
    and "if quad v (b_add b) n < fst pt then hi = v else b_omin b \<le> lo \<and> lo \<le> v"
  shows "ranges_ok sc (bisect_limits sc' lo hi v n pt b)"
    and "b_maxadd (bisect_limits sc' lo hi v n pt b) - b_minadd (bisect_limits sc' lo hi v n pt b)
           < b_maxadd b - b_minadd b"
  using assms bisect_limits_adds [OF assms(4), where v = v and b = b and pt = pt and sc = sc' and lo = lo and hi = hi]
  by (auto simp: ranges_ok_def bisect_limits_outer split: if_splits)

lemma next_add_range:
  assumes "lo \<le> hi"
  shows "lo \<le> hi - c_quot (hi - lo) 4" and "hi - c_quot (hi - lo) 4 \<le> hi"
  using assms by (auto simp: c_quot_def)

text \<open>One round keeps the invariant and shrinks the range of \<open>add\<close>; a round that ends the search has a fitting sequence.\<close>

fun round_post :: "stepcompress \<Rightarrow> nat \<Rightarrow> bisect \<Rightarrow> round_exit \<Rightarrow> bool" where
  "round_post sc qlen b (Returns m) =
     (\<exists>v c a. m = mk_move v c a \<and> good_move sc qlen v c a)"
| "round_post sc qlen b (Leaves b') = (zero_ok sc qlen b' \<and> best_ok sc qlen b')"
| "round_post sc qlen b (Again b') =
     (bisect_inv sc qlen b' \<and> b_maxadd b' - b_minadd b' < b_maxadd b - b_minadd b)"

definition windows_ok :: "stepcompress \<Rightarrow> nat \<Rightarrow> bool" where
  "windows_ok sc qlen \<longleftrightarrow>
     0 < qlen \<and> (\<forall>i < qlen. 0 \<le> fst (minmax_point sc i)
                          \<and> fst (minmax_point sc i) \<le> snd (minmax_point sc i))"

lemma ok_seq_nonneg:
  assumes "windows_ok sc qlen" and "good_move sc qlen v c a"
  shows "0 \<le> quad v a c"
proof -
  have c: "nat c - 1 < nat c" "int (nat c - 1) + 1 = c" "nat c - 1 < qlen"
    using assms(2) by (auto simp: good_move_def)
  then have "fst (minmax_point sc (nat c - 1)) \<le> quad v a c"
    using assms(2) unfolding good_move_def ok_seq_def by metis
  then show ?thesis using assms(1) c(3) by (force simp: windows_ok_def)
qed

lemma bisect_round_post:
  assumes "bisect_inv sc qlen b" and "windows_ok sc qlen"
  shows "round_post sc qlen b (bisect_round sc qlen b)"
proof -
  have r: "ranges_ok sc b" "b_minadd b \<le> b_add b" "b_add b \<le> b_maxadd b"
    and w: "zero_ok sc qlen b" "b_bestreach b = - 2147483648 \<or> best_ok sc qlen b"
    using assms(1) by (auto simp: bisect_inv_def)
  have post: "inner_post sc qlen (b_add b) (b_omin b) (b_omax b)
      (bisect_inner sc qlen (b_add b) (b_omin b) (b_omax b) (b_omax b) 1)"
    by (rule bisect_inner_post) (use r(1) assms(2) in \<open>auto simp: ok_seq_1 ranges_ok_def windows_ok_def\<close>)
  show ?thesis
  proof (cases "bisect_inner sc qlen (b_add b) (b_omin b) (b_omax b) (b_omax b) 1")
    case (Covers v n)
    then have "good_move sc qlen v (int n) (b_add b)"
      using post r by (auto simp: good_move_def ranges_ok_def)
    then show ?thesis using Covers by (auto simp: bisect_round_def)
  next
    case (Breaks lo hi v n pt)
    let ?c = "int n - 1"
    let ?b1 = "bisect_best v ?c b"
    let ?b2 = "bisect_limits sc lo hi v (int n) pt ?b1"
    have p: "1 < n" "n \<le> qlen" "ok_seq sc v (b_add b) (n - 1)" "b_omin b \<le> v" "v \<le> b_omax b"
      "if quad v (b_add b) (int n) < fst pt then hi = v else b_omin b \<le> lo \<and> lo \<le> v"
      using post unfolding Breaks by auto
    have g: "good_move sc qlen v ?c (b_add b)"
      using p r by (auto simp: good_move_def ranges_ok_def nat_diff_distrib)
    note best = bisect_best_ok [OF g ok_seq_nonneg [OF assms(2) g] w]
    have r1: "ranges_ok sc ?b1" using r(1) by (simp add: ranges_ok_def)
    have r2: "ranges_ok sc ?b2" "b_maxadd ?b2 - b_minadd ?b2 < b_maxadd b - b_minadd b"
      using bisect_limits_ranges [OF r1, of "int n" v pt hi lo sc] p r by auto
    show ?thesis
    proof (cases "bisect_improves v ?c b \<and> ?c > 0x200 \<or> b_minadd ?b2 > b_maxadd ?b2")
      case True
      then show ?thesis
        using best Breaks by (auto simp: bisect_round_def Let_def)
    next
      case False
      then have round: "bisect_round sc qlen b =
          Again (?b2\<lparr>b_add := b_maxadd ?b2 - c_quot (b_maxadd ?b2 - b_minadd ?b2) 4\<rparr>)"
        using Breaks by (auto simp: bisect_round_def Let_def)
      have "b_minadd ?b2 \<le> b_maxadd ?b2" using False by auto
      from next_add_range [OF this] show ?thesis
        unfolding round using r2 best by (simp add: bisect_inv_def)
    qed
  qed
qed

text \<open>The search returns.\<close>

lemma bisect_choose_good:
  assumes "zero_ok sc qlen b" and "best_ok sc qlen b"
  shows "\<exists>v c a. bisect_choose b = mk_move v c a \<and> good_move sc qlen v c a"
proof (cases "b_zerocount b + c_quot (b_zerocount b) 16 \<ge> b_bestcount b")
  case True
  then have "b_zerocount b \<noteq> 0" using assms(2) by (auto simp: best_ok_def good_move_def c_quot_def)
  then show ?thesis using True assms(1) by (auto simp: bisect_choose_def zero_ok_def)
qed (use assms(2) in \<open>auto simp: bisect_choose_def best_ok_def\<close>)

lemma bisect_outer_returns:
  assumes "bisect_inv sc qlen b" and "windows_ok sc qlen"
  shows "\<exists>v c a. bisect_outer sc qlen b = Some (mk_move v c a) \<and> good_move sc qlen v c a"
  using assms(1)
proof (induction "nat (b_maxadd b - b_minadd b)" arbitrary: b rule: less_induct)
  case less
  note post = bisect_round_post [OF less.prems assms(2)]
  show ?case
  proof (cases "bisect_round sc qlen b")
    case (Returns m)
    then show ?thesis using post by (subst bisect_outer.simps) simp
  next
    case (Leaves b')
    then show ?thesis using post bisect_choose_good [of sc qlen b']
      by (subst bisect_outer.simps) simp
  next
    case (Again b')
    have "bisect_inv sc qlen b'" "nat (b_maxadd b' - b_minadd b') < nat (b_maxadd b - b_minadd b)"
      using post Again less.prems by (auto simp: bisect_inv_def)
    from less.hyps [OF this(2,1)] Again show ?thesis
      by (subst bisect_outer.simps) simp
  qed
qed

section \<open>The search returns a move that passes the guard\<close>

lemma queued_windows_ok:
  assumes "queued sc ts" and "ts \<noteq> []"
  shows "windows_ok sc (min (length (sc_queue sc)) 65535)"
proof -
  have len: "length (sc_queue sc) = length ts" using assms(1) by (simp add: queued_def)
  have "0 \<le> fst (minmax_point sc i) \<and> fst (minmax_point sc i) \<le> snd (minmax_point sc i)"
    if "i < length ts" for i
    using slack_bounds [OF assms(1) that] prev_time_bounds [OF assms(1) that]
    by (simp add: minmax_point_exact [OF assms(1) that])
  then show ?thesis using len assms(2) by (simp add: windows_ok_def)
qed

lemma bisect_start_inv: "windows_ok sc qlen \<Longrightarrow> bisect_inv sc qlen (bisect_start sc)"
  by (auto simp: windows_ok_def bisect_inv_def bisect_start_def ranges_ok_def zero_ok_def
      split: prod.split)

lemma compress_returns:
  assumes "queued sc ts" and "ts \<noteq> []"
  shows "\<exists>v c a. compress_bisect_add sc = Some (mk_move v c a)
            \<and> good_move sc (min (length ts) 65535) v c a"
  using bisect_outer_returns [OF bisect_start_inv [OF queued_windows_ok [OF assms]]
      queued_windows_ok [OF assms]] assms(1)
  by (simp add: compress_bisect_add_def queued_def)

lemma good_move_windows:
  assumes "queued sc ts" and "good_move sc (min (length ts) 65535) v c a"
  shows "in_windows sc ts 0 0 v a (nat c)"
proof -
  let ?l = "sc_last_step_clock sc"
  have w: "ts ! k - slack sc ts k \<le> ?l + quad v a (int k + 1) \<and> ?l + quad v a (int k + 1) \<le> ts ! k"
    and len: "k < length ts" if "k < nat c" for k
  proof -
    show "k < length ts" using assms(2) that by (auto simp: good_move_def)
    from minmax_point_exact [OF assms(1) this]
    show "ts ! k - slack sc ts k \<le> ?l + quad v a (int k + 1) \<and> ?l + quad v a (int k + 1) \<le> ts ! k"
      using assms(2) that by (auto simp: good_move_def ok_seq_def)
  qed
  have d: "0 \<le> v + a * int k \<and> v + a * int k < 2147483648" if k: "k < nat c" for k
  proof -
    have "0 \<le> quad v a (int k + 1) - quad v a (int k)"
    proof (cases k)
      case 0
      then show ?thesis
        using w [OF k] slack_bounds [OF assms(1) len [OF k]] prev_time_bounds [OF assms(1) len [OF k]]
        by simp
    next
      case (Suc j)
      have "?l + quad v a (int k) \<le> ts ! j" using w [of j] k Suc by (simp add: add.commute)
      also have "\<dots> \<le> ts ! k - slack sc ts k"
        using window_order [OF assms(1)] len [OF k] Suc by simp
      also have "\<dots> \<le> ?l + quad v a (int k + 1)" using w [OF k] by simp
      finally show ?thesis by simp
    qed
    moreover have "0 \<le> quad v a (int k)"
    proof (cases k)
      case (Suc j)
      have j: "j < nat c" using k Suc by simp
      show ?thesis
        using w [OF j] slack_bounds [OF assms(1) len [OF j]] prev_time_bounds [OF assms(1) len [OF j]] Suc
        by (simp add: add.commute)
    qed simp
    moreover have "quad v a (int k + 1) < CLOCK_DIFF_MAX"
      using w [OF k] queued_nth [OF assms(1) len [OF k]] by simp
    ultimately show ?thesis using quad_Suc [of v a "int k"] by (simp add: CLOCK_DIFF_MAX_def)
  qed
  show ?thesis using w d by (simp add: in_windows_def nth_step_times)
qed

lemma in_windows_first:
  assumes "in_windows sc ts i p v a n" and "0 < n"
  shows "ts ! i - slack sc ts i \<le> sc_last_step_clock sc + (p + v)"
    and "sc_last_step_clock sc + (p + v) \<le> ts ! i" and "0 \<le> v" and "v < 2147483648"
  using assms by (cases n; simp add: in_windows_Suc)+

lemma good_move_exact:
  assumes "queued sc ts" and "good_move sc (min (length ts) 65535) v c a"
  shows "mk_move v c a = \<lparr>sm_interval = v, sm_count = c, sm_add = a\<rparr>" and "c \<le> int (length ts)"
proof -
  have "0 < nat c" using assms(2) by (simp add: good_move_def)
  then have "0 \<le> v" "v < 2147483648"
    using in_windows_first [OF good_move_windows [OF assms]] by auto
  then show "mk_move v c a = \<lparr>sm_interval = v, sm_count = c, sm_add = a\<rparr>"
    and "c \<le> int (length ts)"
    using assms(2) by (auto simp: good_move_def mk_move_def uint32_id uint16_id to_int16_id)
qed

text \<open>What a flush needs of the search, on any queue: a well-formed move that reads no step past the end.\<close>

lemma compress_safe:
  assumes "queued sc ts" and "ts \<noteq> []"
  obtains m where "compress_bisect_add sc = Some m" and "move_wf m" and "sm_count m \<le> int (length ts)"
  using compress_returns [OF assms] good_move_exact(2) [OF assms(1)] good_move_exact(1) [OF assms(1)]
  by (metis move_wf_mk_move step_move.select_convs(2))

theorem compress_passes_guard:
  assumes "queued sc ts" and "ts \<noteq> []" and "sc_last_step_clock sc < hd ts"
  shows "\<exists>m. compress_bisect_add sc = Some m \<and> check_line sc m"
proof -
  obtain v c a where m: "compress_bisect_add sc = Some (mk_move v c a)"
    and g: "good_move sc (min (length ts) 65535) v c a"
    using compress_returns [OF assms(1,2)] by blast
  note e = good_move_exact [OF assms(1) g]
  have w: "in_windows sc ts 0 0 v a (nat c)" by (rule good_move_windows [OF assms(1) g])
  have c: "0 < c" using g by (simp add: good_move_def)
  have "v \<noteq> 0"
  proof -
    have z: "0 < length ts" using assms(2) by simp
    have "ts ! 0 - slack sc ts 0 \<le> sc_last_step_clock sc + v"
      using in_windows_first(1) [OF w] c by simp
    moreover have "2 * slack sc ts 0 \<le> ts ! 0 - sc_last_step_clock sc"
      using slack_bounds(3) [OF assms(1) z] by (simp add: prev_time_def)
    moreover have "sc_last_step_clock sc < ts ! 0" using assms(2,3) by (simp add: hd_conv_nth)
    ultimately show ?thesis by auto
  qed
  then have "check_line sc (mk_move v c a)"
    using check_line_windows [OF assms(1) move_wf_mk_move, of v c a] w c e by auto
  then show ?thesis using m by blast
qed

text \<open>Whatever the queue holds, a returned move has the widths of its fields.\<close>

lemma bisect_round_returns: "bisect_round sc qlen b = Returns m \<Longrightarrow> move_wf m"
  by (auto simp: bisect_round_def Let_def split: inner_exit.splits if_splits)

lemma bisect_outer_wf:
  assumes "bisect_outer sc qlen b = Some m"
  shows "move_wf m"
proof (rule bisect_outer.raw_induct [where P = "\<lambda>sc qlen b m. move_wf m", OF _ assms])
  fix outer sc qlen b m
  assume IH: "\<And>sc qlen b m. outer sc qlen b = Some m \<Longrightarrow> move_wf m"
    and eq: "(case bisect_round sc qlen b of Returns m \<Rightarrow> Some m
      | Leaves b' \<Rightarrow> Some (bisect_choose b') | Again b' \<Rightarrow> outer sc qlen b') = Some m"
  show "move_wf m"
  proof (cases "bisect_round sc qlen b")
    case (Leaves b')
    then show ?thesis using eq by (auto simp: bisect_choose_def split: if_splits)
  qed (use eq IH bisect_round_returns in auto)
qed

lemma compress_wf: "compress_bisect_add sc = Some m \<Longrightarrow> move_wf m"
  unfolding compress_bisect_add_def by (rule bisect_outer_wf)

end
