(* ===== verification/StepQueue.thy ===== *)
theory StepQueue
  imports StepCompress "HOL-Library.Code_Target_Nat"
begin

text \<open>
  Step compression, second half (\<open>src/chelper/stepcompress.c\<close>, lines 252--686): the operations
  on a compressor.  Steps are appended one at a time, filtered, queued, compressed into
  \<open>queue_step\<close> commands and recorded in a history.

  An operation returns the compressor it leaves or an \<open>sc_error\<close>: \<open>ErrorRet\<close> is the
  \<open>ERROR_RET\<close> of the C code, \<open>OutOfBounds\<close> a write past the allocated queue, \<open>Diverges\<close> a search
  that does not return (which \<open>compress_returns\<close> excludes).

  The specification is written over what the host asked for and what the micro-controller does:
  \<open>mcu_run\<close> executes the queued commands, \<open>request\<close> is the step filter on absolute clocks alone.
  The theorems say that the executed steps are the requested ones, in order and in the requested
  direction, none early by more than \<open>max_error\<close> and none late, that no request in clock order
  makes the compressor fail, that the position it reports is the sum of all requests, and that
  a past position read from the history is the number of steps executed by then.
\<close>

unbundle bit_operations_syntax

datatype sc_error = ErrorRet | OutOfBounds | Diverges

type_synonym sc_result = "sc_error + stepcompress"

definition sc_bind :: "sc_result \<Rightarrow> (stepcompress \<Rightarrow> sc_result) \<Rightarrow> sc_result" where
  "sc_bind r f = (case r of Inl e \<Rightarrow> Inl e | Inr sc \<Rightarrow> f sc)"

lemma sc_bind_simps [simp]:
  "sc_bind (Inl e) f = Inl e" "sc_bind (Inr sc) f = f sc"
  by (simp_all add: sc_bind_def)

definition UINT64_MAX :: int where
  "UINT64_MAX = 18446744073709551615"

section \<open>Allocation and configuration\<close>

text \<open>
  The allocated object; a caller's message queue or the local one is the same list here.
\<close>

definition stepcompress_alloc :: "queue_message list \<Rightarrow> stepcompress" where
  "stepcompress_alloc msg_queue =
     \<lparr>sc_queue = [], sc_pos = 0, sc_cap = 0, sc_max_error = 0, sc_mcu_time_offset = 0,
      sc_mcu_freq = 0, sc_last_step_print_time = 0, sc_last_step_clock = 0,
      sc_msg_queue = msg_queue, sc_oid = 0, sc_queue_step_msgtag = 0,
      sc_set_next_step_dir_msgtag = 0, sc_sdir = - 1, sc_invert_sdir = 0,
      sc_next_step_clock = 0, sc_next_step_dir = 0, sc_last_position = 0, sc_history = []\<rparr>"

definition stepcompress_alloc_compat :: "int \<Rightarrow> stepcompress" where
  "stepcompress_alloc_compat oid = (stepcompress_alloc [])\<lparr>sc_oid := oid\<rparr>"

definition stepcompress_fill :: "stepcompress \<Rightarrow> int \<Rightarrow> int \<Rightarrow> int \<Rightarrow> int \<Rightarrow> stepcompress" where
  "stepcompress_fill sc oid max_error queue_step_msgtag set_next_step_dir_msgtag =
     sc\<lparr>sc_oid := oid, sc_max_error := max_error, sc_queue_step_msgtag := queue_step_msgtag,
        sc_set_next_step_dir_msgtag := set_next_step_dir_msgtag\<rparr>"

definition stepcompress_set_invert_sdir :: "stepcompress \<Rightarrow> int \<Rightarrow> stepcompress" where
  "stepcompress_set_invert_sdir sc invert_sdir =
     (let invert_sdir = (if invert_sdir \<noteq> 0 then 1 else 0)
      in if invert_sdir \<noteq> sc_invert_sdir sc
         then let sc = sc\<lparr>sc_invert_sdir := invert_sdir\<rparr>
              in if sc_sdir sc \<ge> 0 then sc\<lparr>sc_sdir := sc_sdir sc XOR 1\<rparr> else sc
         else sc)"

text \<open>The history is freed from its oldest entry, the last of the list.\<close>

definition free_history :: "stepcompress \<Rightarrow> int \<Rightarrow> stepcompress" where
  "free_history sc end_clock =
     sc\<lparr>sc_history := rev (dropWhile (\<lambda>hs. hs_last_clock hs \<le> end_clock) (rev (sc_history sc)))\<rparr>"

definition stepcompress_history_expire :: "stepcompress \<Rightarrow> int \<Rightarrow> stepcompress" where
  "stepcompress_history_expire sc end_clock = free_history sc end_clock"

definition stepcompress_get_step_dir :: "stepcompress \<Rightarrow> int" where
  "stepcompress_get_step_dir sc = sc_next_step_dir sc"

definition calc_last_step_print_time :: "stepcompress \<Rightarrow> stepcompress" where
  "calc_last_step_print_time sc =
     sc\<lparr>sc_last_step_print_time :=
          sc_mcu_time_offset sc + (of_int (sc_last_step_clock sc) - 1 / 2) / sc_mcu_freq sc\<rparr>"

definition stepcompress_set_time :: "stepcompress \<Rightarrow> real \<Rightarrow> real \<Rightarrow> stepcompress" where
  "stepcompress_set_time sc time_offset mcu_freq =
     calc_last_step_print_time (sc\<lparr>sc_mcu_time_offset := time_offset, sc_mcu_freq := mcu_freq\<rparr>)"

section \<open>From moves to commands\<close>

text \<open>
  A message carries its unencoded words; both clocks are zero until the caller sets them.
\<close>

definition message_alloc_and_encode :: "int list \<Rightarrow> queue_message" where
  "message_alloc_and_encode words =
     \<lparr>qm_data = map uint32 words, qm_min_clock = 0, qm_req_clock = 0\<rparr>"

definition move_ticks :: "step_move \<Rightarrow> int" where
  "move_ticks move =
     (let addfactor = c_quot (to_int32 (sm_count move * (sm_count move - 1))) 2
      in uint32 (sm_add move * addfactor + sm_interval move * (sm_count move - 1)))"

definition add_move :: "stepcompress \<Rightarrow> int \<Rightarrow> step_move \<Rightarrow> stepcompress" where
  "add_move sc first_clock move =
     (let last_clock = first_clock + move_ticks move;
          qm = message_alloc_and_encode
                 [sc_queue_step_msgtag sc, sc_oid sc, sm_interval move, sm_count move, sm_add move];
          qm = qm\<lparr>qm_min_clock := sc_last_step_clock sc, qm_req_clock := sc_last_step_clock sc\<rparr>;
          qm = (if sm_count move = 1 \<and> first_clock \<ge> sc_last_step_clock sc + CLOCK_DIFF_MAX
                then qm\<lparr>qm_req_clock := first_clock\<rparr> else qm);
          hs = \<lparr>hs_first_clock = first_clock, hs_last_clock = last_clock,
                hs_start_position = sc_last_position sc,
                hs_step_count = (if sc_sdir sc \<noteq> 0 then sm_count move else - sm_count move),
                hs_interval = to_int32 (sm_interval move), hs_add = sm_add move\<rparr>
      in sc\<lparr>sc_msg_queue := sc_msg_queue sc @ [qm], sc_last_step_clock := last_clock,
            sc_last_position := sc_last_position sc + hs_step_count hs,
            sc_history := hs # sc_history sc\<rparr>)"

text \<open>
  The loop of \<open>queue_flush\<close>.  The last conjunct of the recursion's guard is the negation of the
  source's \<open>queue_pos + count >= queue_next\<close>.
\<close>

function flush_loop :: "stepcompress \<Rightarrow> int \<Rightarrow> sc_result" where
  "flush_loop sc move_clock =
     (if sc_last_step_clock sc < move_clock
      then case compress_bisect_add sc of
             None \<Rightarrow> Inl Diverges
           | Some move \<Rightarrow>
               if \<not> check_line sc move then Inl ErrorRet
               else
                 let n = nat (sm_count move);
                     sc' = add_move sc (sc_last_step_clock sc + sm_interval move) move
                 in if n \<ge> length (sc_queue sc)
                    then Inr (sc'\<lparr>sc_queue := [], sc_pos := 0\<rparr>)
                    else flush_loop
                           (sc'\<lparr>sc_queue := drop n (sc_queue sc), sc_pos := sc_pos sc + n\<rparr>) move_clock
      else Inr sc)"
  by pat_completeness auto
termination
proof (relation "measure (\<lambda>(sc, move_clock). length (sc_queue sc))", goal_cases)
  case (2 sc move_clock move n sc')
  then have "0 \<le> sm_count move" "sm_count move \<noteq> 0"
    using compress_wf [of sc move] by (auto simp: move_wf_def check_line_def)
  then have "0 < n" using 2 by simp
  then show ?case using 2 by auto
qed simp

declare flush_loop.simps [simp del]

definition queue_flush :: "stepcompress \<Rightarrow> int \<Rightarrow> sc_result" where
  "queue_flush sc move_clock =
     (if sc_queue sc = [] then Inr sc
      else sc_bind (flush_loop sc move_clock) (\<lambda>sc. Inr (calc_last_step_print_time sc)))"

definition stepcompress_flush_far :: "stepcompress \<Rightarrow> int \<Rightarrow> sc_result" where
  "stepcompress_flush_far sc abs_step_clock =
     (let move = mk_move (abs_step_clock - sc_last_step_clock sc) 1 0
      in Inr (calc_last_step_print_time (add_move sc abs_step_clock move)))"

definition set_next_step_dir :: "stepcompress \<Rightarrow> int \<Rightarrow> sc_result" where
  "set_next_step_dir sc sdir =
     (if sc_sdir sc = sdir then Inr sc
      else sc_bind (queue_flush sc UINT64_MAX) (\<lambda>sc.
        let sc = sc\<lparr>sc_sdir := sdir\<rparr>;
            qm = message_alloc_and_encode
                   [sc_set_next_step_dir_msgtag sc, sc_oid sc, sdir XOR sc_invert_sdir sc];
            qm = qm\<lparr>qm_req_clock := sc_last_step_clock sc\<rparr>
        in Inr (sc\<lparr>sc_msg_queue := sc_msg_queue sc @ [qm]\<rparr>)))"

section \<open>The step queue\<close>

text \<open>The write \<open>queue_next->clock32 = clock; queue_next++\<close>.\<close>

definition queue_push :: "stepcompress \<Rightarrow> int \<Rightarrow> sc_result" where
  "queue_push sc clock =
     (if sc_pos sc + length (sc_queue sc) < sc_cap sc
      then Inr (sc\<lparr>sc_queue := sc_queue sc @ [uint32 clock]\<rparr>)
      else Inl OutOfBounds)"

definition queue_append_far :: "stepcompress \<Rightarrow> sc_result" where
  "queue_append_far sc =
     (let step_clock = sc_next_step_clock sc;
          sc = sc\<lparr>sc_next_step_clock := 0\<rparr>
      in sc_bind (queue_flush sc (step_clock - CLOCK_DIFF_MAX + 1)) (\<lambda>sc.
           if step_clock \<ge> sc_last_step_clock sc + CLOCK_DIFF_MAX
           then stepcompress_flush_far sc step_clock
           else queue_push sc step_clock))"

definition QUEUE_START_SIZE :: nat where
  "QUEUE_START_SIZE = 1024"

text \<open>\<open>while (in_use >= alloc) alloc *= 2\<close>; the source calls it with a positive \<open>alloc\<close>.\<close>

function grow_alloc :: "nat \<Rightarrow> nat \<Rightarrow> nat" where
  "grow_alloc in_use alloc =
     (if 0 < alloc \<and> in_use \<ge> alloc then grow_alloc in_use (alloc * 2) else alloc)"
  by pat_completeness auto
termination
  by (relation "measure (\<lambda>(in_use, alloc). in_use + 1 - alloc)") auto

declare grow_alloc.simps [simp del]

definition queue_append_room :: "stepcompress \<Rightarrow> stepcompress" where
  "queue_append_room sc =
     (let in_use = length (sc_queue sc)
      in if sc_pos sc + in_use \<ge> sc_cap sc
         then if 0 < sc_pos sc then sc\<lparr>sc_pos := 0\<rparr>
              else let alloc = (if sc_cap sc = 0 then QUEUE_START_SIZE else sc_cap sc)
                   in sc\<lparr>sc_cap := grow_alloc in_use alloc, sc_pos := 0\<rparr>
         else sc)"

definition queue_append_extend :: "stepcompress \<Rightarrow> sc_result" where
  "queue_append_extend sc =
     sc_bind
       (let n = length (sc_queue sc)
        in if n > 65535 + 2000
           then queue_flush sc
                  (sc_last_step_clock sc
                   + uint32 (sc_queue sc ! (n - 65535) - uint32 (sc_last_step_clock sc)))
           else Inr sc)
       (\<lambda>sc. sc_bind (queue_push (queue_append_room sc) (sc_next_step_clock sc))
               (\<lambda>sc. Inr (sc\<lparr>sc_next_step_clock := 0\<rparr>)))"

definition queue_append :: "stepcompress \<Rightarrow> sc_result" where
  "queue_append sc =
     sc_bind
       (if sc_next_step_dir sc \<noteq> sc_sdir sc then set_next_step_dir sc (sc_next_step_dir sc)
        else Inr sc)
       (\<lambda>sc.
         if sc_next_step_clock sc \<ge> sc_last_step_clock sc + CLOCK_DIFF_MAX
         then queue_append_far sc
         else if sc_pos sc + length (sc_queue sc) \<ge> sc_cap sc then queue_append_extend sc
         else sc_bind (queue_push sc (sc_next_step_clock sc))
                (\<lambda>sc. Inr (sc\<lparr>sc_next_step_clock := 0\<rparr>)))"

section \<open>Interface\<close>

definition SDS_FILTER_TIME :: real where
  "SDS_FILTER_TIME = 750 / 1000000"

text \<open>Conversions of a \<open>double\<close>: truncation to an integer, then the unsigned or signed 64-bit word.\<close>

definition c_trunc :: "real \<Rightarrow> int" where
  "c_trunc x = (if 0 \<le> x then \<lfloor>x\<rfloor> else - \<lfloor>- x\<rfloor>)"

definition uint64 :: "int \<Rightarrow> int" where
  "uint64 x = x mod 18446744073709551616"

definition to_int64 :: "int \<Rightarrow> int" where
  "to_int64 x = (x + 9223372036854775808) mod 18446744073709551616 - 9223372036854775808"

definition stepcompress_append :: "stepcompress \<Rightarrow> int \<Rightarrow> real \<Rightarrow> real \<Rightarrow> sc_result" where
  "stepcompress_append sc sdir print_time step_time =
     (let offset = print_time - sc_last_step_print_time sc;
          rel_sc = (step_time + offset) * sc_mcu_freq sc;
          step_clock = uint64 (sc_last_step_clock sc + uint64 (c_trunc rel_sc))
      in if sc_next_step_clock sc \<noteq> 0 \<and> sdir \<noteq> sc_next_step_dir sc
            \<and> of_int (to_int64 (step_clock - sc_next_step_clock sc)) < SDS_FILTER_TIME * sc_mcu_freq sc
         then Inr (sc\<lparr>sc_next_step_clock := 0, sc_next_step_dir := sdir\<rparr>)
         else sc_bind (if sc_next_step_clock sc \<noteq> 0 then queue_append sc else Inr sc)
                (\<lambda>sc. Inr (sc\<lparr>sc_next_step_clock := step_clock, sc_next_step_dir := sdir\<rparr>)))"

definition stepcompress_commit :: "stepcompress \<Rightarrow> sc_result" where
  "stepcompress_commit sc = (if sc_next_step_clock sc \<noteq> 0 then queue_append sc else Inr sc)"

definition stepcompress_flush :: "stepcompress \<Rightarrow> int \<Rightarrow> sc_result" where
  "stepcompress_flush sc move_clock =
     sc_bind (if sc_next_step_clock sc \<noteq> 0 \<and> move_clock \<ge> sc_next_step_clock sc
              then queue_append sc else Inr sc)
       (\<lambda>sc. queue_flush sc move_clock)"

definition stepcompress_reset :: "stepcompress \<Rightarrow> int \<Rightarrow> sc_result" where
  "stepcompress_reset sc last_step_clock =
     sc_bind (stepcompress_flush sc UINT64_MAX) (\<lambda>sc.
       Inr (calc_last_step_print_time (sc\<lparr>sc_last_step_clock := last_step_clock, sc_sdir := - 1\<rparr>)))"

definition stepcompress_set_last_position :: "stepcompress \<Rightarrow> int \<Rightarrow> int \<Rightarrow> sc_result" where
  "stepcompress_set_last_position sc clock last_position =
     sc_bind (stepcompress_flush sc UINT64_MAX) (\<lambda>sc.
       let hs = \<lparr>hs_first_clock = clock, hs_last_clock = clock, hs_start_position = last_position,
                 hs_step_count = 0, hs_interval = 0, hs_add = 0\<rparr>
       in Inr (sc\<lparr>sc_last_position := last_position, sc_history := hs # sc_history sc\<rparr>))"

text \<open>The steps of a history entry executed before or at \<open>clock\<close>, by division or by the quadratic formula.\<close>

definition past_offset :: "history_steps \<Rightarrow> int \<Rightarrow> int" where
  "past_offset hs clock =
     (let interval = hs_interval hs;
          ad = hs_add hs;
          ticks = to_int32 (clock - hs_first_clock hs) + interval
      in if ad = 0 then c_quot ticks interval
         else let a = 1 / 2 * of_int ad;
                  b = of_int interval - 1 / 2 * of_int ad;
                  c = - of_int ticks
              in c_trunc ((sqrt (b * b - 4 * a * c) - b) / (2 * a)))"

fun find_past :: "int \<Rightarrow> history_steps list \<Rightarrow> int \<Rightarrow> int" where
  "find_past last_position [] clock = last_position"
| "find_past last_position (hs # rest) clock =
     (if clock < hs_first_clock hs then find_past (hs_start_position hs) rest clock
      else if clock \<ge> hs_last_clock hs then hs_start_position hs + hs_step_count hs
      else if hs_step_count hs < 0 then hs_start_position hs - past_offset hs clock
      else hs_start_position hs + past_offset hs clock)"

definition stepcompress_find_past_position :: "stepcompress \<Rightarrow> int \<Rightarrow> int" where
  "stepcompress_find_past_position sc clock = find_past (sc_last_position sc) (sc_history sc) clock"

definition stepcompress_queue_msg :: "stepcompress \<Rightarrow> int list \<Rightarrow> sc_result" where
  "stepcompress_queue_msg sc data =
     sc_bind (stepcompress_flush sc UINT64_MAX) (\<lambda>sc.
       let qm = (message_alloc_and_encode data)\<lparr>qm_req_clock := sc_last_step_clock sc\<rparr>
       in Inr (sc\<lparr>sc_msg_queue := sc_msg_queue sc @ [qm]\<rparr>))"

text \<open>The entries copied out, newest first; \<open>res\<close> counts them.\<close>

fun extract_old :: "history_steps list \<Rightarrow> nat \<Rightarrow> nat \<Rightarrow> int \<Rightarrow> int \<Rightarrow> history_steps list" where
  "extract_old [] res mx start_clock end_clock = []"
| "extract_old (hs # rest) res mx start_clock end_clock =
     (if start_clock \<ge> hs_last_clock hs \<or> res \<ge> mx then []
      else if end_clock \<le> hs_first_clock hs then extract_old rest res mx start_clock end_clock
      else hs # extract_old rest (Suc res) mx start_clock end_clock)"

definition stepcompress_extract_old ::
  "stepcompress \<Rightarrow> nat \<Rightarrow> int \<Rightarrow> int \<Rightarrow> history_steps list" where
  "stepcompress_extract_old sc mx start_clock end_clock =
     extract_old (sc_history sc) 0 mx start_clock end_clock"

section \<open>Requests and their execution\<close>

text \<open>
  The micro-controller: its 32-bit step clock, the level of the direction pin and the steps it
  has made, each with the level and the clock.
\<close>

record mcu_stepper =
  ms_clock :: int
  ms_dir :: int
  ms_steps :: "(int \<times> int) list"

definition mcu_queue_step :: "int \<Rightarrow> int \<Rightarrow> int \<Rightarrow> mcu_stepper \<Rightarrow> mcu_stepper" where
  "mcu_queue_step interval count ad s =
     (let ps = step_times (ms_clock s) interval (to_int16 ad) (nat count)
      in s\<lparr>ms_clock := (if ps = [] then ms_clock s else uint32 (last ps)),
           ms_steps := ms_steps s @ map (\<lambda>p. (ms_dir s, uint32 p)) ps\<rparr>)"

fun mcu_command :: "int \<Rightarrow> int \<Rightarrow> int list \<Rightarrow> mcu_stepper \<Rightarrow> mcu_stepper" where
  "mcu_command qtag dtag [tag, oid, dir] s = (if tag = dtag then s\<lparr>ms_dir := dir\<rparr> else s)"
| "mcu_command qtag dtag [tag, oid, interval, count, ad] s =
     (if tag = qtag then mcu_queue_step interval count ad s else s)"
| "mcu_command qtag dtag _ s = s"

definition mcu_run :: "stepcompress \<Rightarrow> mcu_stepper \<Rightarrow> mcu_stepper" where
  "mcu_run sc s =
     fold (\<lambda>qm. mcu_command (uint32 (sc_queue_step_msgtag sc)) (uint32 (sc_set_next_step_dir_msgtag sc))
                  (qm_data qm)) (sc_msg_queue sc) s"

text \<open>The calls a stepper makes, and the clock a step time stands for.\<close>

datatype sc_call = Append int real real | Commit | Flush int

primrec sc_step :: "sc_call \<Rightarrow> stepcompress \<Rightarrow> sc_result" where
  "sc_step (Append sdir print_time step_time) sc = stepcompress_append sc sdir print_time step_time"
| "sc_step Commit sc = stepcompress_commit sc"
| "sc_step (Flush move_clock) sc = stepcompress_flush sc move_clock"

primrec sc_run :: "sc_call list \<Rightarrow> stepcompress \<Rightarrow> sc_result" where
  "sc_run [] sc = Inr sc"
| "sc_run (c # cs) sc = sc_bind (sc_step c sc) (sc_run cs)"

definition clock_of :: "real \<Rightarrow> real \<Rightarrow> real \<Rightarrow> int" where
  "clock_of off freq time = \<lfloor>(time - off) * freq + 1 / 2\<rfloor>"

text \<open>
  The specification of the interface: a pending step and the committed steps, each a direction
  and an absolute clock.
\<close>

record requests =
  rq_pending :: "(int \<times> int) option"
  rq_steps :: "(int \<times> int) list"

definition rq_commit :: "requests \<Rightarrow> requests" where
  "rq_commit r = (case rq_pending r of None \<Rightarrow> r
     | Some p \<Rightarrow> r\<lparr>rq_pending := None, rq_steps := rq_steps r @ [p]\<rparr>)"

primrec request :: "real \<Rightarrow> real \<Rightarrow> sc_call \<Rightarrow> requests \<Rightarrow> requests" where
  "request off freq (Append sdir print_time step_time) r =
     (let t = clock_of off freq (print_time + step_time)
      in case rq_pending r of
           None \<Rightarrow> r\<lparr>rq_pending := Some (sdir, t)\<rparr>
         | Some (d, c) \<Rightarrow>
             if sdir \<noteq> d \<and> of_int (t - c) < SDS_FILTER_TIME * freq then r\<lparr>rq_pending := None\<rparr>
             else (rq_commit r)\<lparr>rq_pending := Some (sdir, t)\<rparr>)"
| "request off freq Commit r = rq_commit r"
| "request off freq (Flush move_clock) r =
     (case rq_pending r of None \<Rightarrow> r | Some (d, c) \<Rightarrow> if move_clock \<ge> c then rq_commit r else r)"

text \<open>Requests in clock order: what a stepper's motion solver hands over.\<close>

fun in_order :: "real \<Rightarrow> real \<Rightarrow> int \<Rightarrow> sc_call list \<Rightarrow> bool" where
  "in_order off freq c [] = True"
| "in_order off freq c (Append sdir print_time step_time # cs) =
     (let t = clock_of off freq (print_time + step_time)
      in (sdir = 0 \<or> sdir = 1) \<and> c < t \<and> t < 9223372036854775808 \<and> in_order off freq t cs)"
| "in_order off freq c (_ # cs) = in_order off freq c cs"

text \<open>The signed sum of steps, and of all requested steps.\<close>

definition net :: "(int \<times> int) list \<Rightarrow> int" where
  "net ps = (\<Sum>(d, t) \<leftarrow> ps. if d \<noteq> 0 then 1 else - 1)"

fun requested :: "sc_call list \<Rightarrow> int" where
  "requested [] = 0"
| "requested (Append sdir print_time step_time # cs) = (if sdir \<noteq> 0 then 1 else - 1) + requested cs"
| "requested (_ # cs) = requested cs"

text \<open>An executed step matches a request: its direction, and a clock at most \<open>err\<close> early and not late.\<close>

definition executes :: "int \<Rightarrow> int \<Rightarrow> int \<times> int \<Rightarrow> int \<times> int \<Rightarrow> bool" where
  "executes err invert done req \<longleftrightarrow>
     fst done = fst req XOR invert \<and>
     (\<exists>early. 0 \<le> early \<and> early \<le> err \<and> snd done = uint32 (snd req - early))"

section \<open>One move\<close>

lemma step_times_shift: "step_times (q + p) v a n = map ((+) q) (step_times p v a n)"
  by (induction n arbitrary: p v) (auto simp: add.assoc)

lemma step_times_uint32:
  "map uint32 (step_times (uint32 p) v a n) = map uint32 (step_times p v a n)"
proof -
  have "uint32 (uint32 p + x) = uint32 (p + x)" for x by simp
  then show ?thesis using step_times_shift [of "uint32 p" 0] step_times_shift [of p 0] by simp
qed

lemma in_windows_nth:
  assumes "in_windows sc ts 0 0 v a n" and "k < n"
  shows "ts ! k - slack sc ts k \<le> sc_last_step_clock sc + quad v a (int k + 1)"
    and "sc_last_step_clock sc + quad v a (int k + 1) \<le> ts ! k" and "0 \<le> v + a * int k"
  using assms by (auto simp: in_windows_def nth_step_times)

lemma quad_mono:
  assumes "\<And>k. k < n \<Longrightarrow> 0 \<le> v + a * int k" and "i \<le> j" and "j \<le> n"
  shows "quad v a (int i) \<le> quad v a (int j)"
  using assms(2,3)
proof (induction j)
  case (Suc j)
  have "quad v a (int j) \<le> quad v a (int (Suc j))"
    using quad_Suc [of v a "int j"] assms(1) [of j] Suc.prems by (simp add: add.commute)
  then show ?case using Suc by (cases "i = Suc j") auto
qed simp

text \<open>
  The tick count \<open>add_move\<close> computes is exact, although \<open>count*(count-1)\<close> may exceed an
  \<open>int32_t\<close>: a sequence that long has \<open>add = 0\<close>, or it would leave the queue's clock range.
\<close>

lemma long_sequence_flat:
  assumes "quad v a c < CLOCK_DIFF_MAX" and "0 \<le> v" and "0 \<le> v + a * (c - 1)" and "0 < c"
    and "2147483648 \<le> c * (c - 1)"
  shows "a = 0"
proof (rule ccontr)
  assume "a \<noteq> 0"
  define f where "f = c * (c - 1) div 2"
  have f: "c * (c - 1) = 2 * f" by (simp add: f_def)
  have quad: "quad v a c = a * f + v * c" by (simp add: quad_def f_def)
  have big: "1073741824 \<le> f" using assms(5) f by simp
  have "f \<le> quad v a c"
  proof (cases "0 < a")
    case True
    then have "f \<le> a * f" using big by simp
    then show ?thesis using quad assms(2,4) by (simp add: add_increasing2)
  next
    case False
    have "(- a) * (c - 1) * c \<le> v * c" using assms(3,4) by (intro mult_right_mono) auto
    also have "(- a) * (c - 1) * c = (- a) * (2 * f)" using f by (simp add: algebra_simps)
    finally have "(- a) * f \<le> quad v a c" using quad by simp
    moreover have "1 * f \<le> (- a) * f" using False \<open>a \<noteq> 0\<close> big by (intro mult_right_mono) auto
    ultimately show ?thesis by simp
  qed
  then show False using assms(1) big by (simp add: CLOCK_DIFF_MAX_def)
qed

lemma move_ticks_exact:
  assumes "queued sc ts" and "in_windows sc ts 0 0 (sm_interval m) (sm_add m) (nat (sm_count m))"
    and "0 < sm_count m" and "sm_count m \<le> int (length ts)"
  shows "sm_interval m + move_ticks m = quad (sm_interval m) (sm_add m) (sm_count m)"
proof -
  let ?v = "sm_interval m" and ?a = "sm_add m" and ?c = "sm_count m"
  define n where "n = nat ?c"
  have n: "int n = ?c" "0 < n" "n - 1 < length ts" "n - 1 < n" "int (n - 1) = ?c - 1"
    using assms(3,4) by (auto simp: n_def)
  note w = in_windows_nth [OF assms(2), folded n_def]
  have lt: "quad ?v ?a ?c < CLOCK_DIFF_MAX"
    using w(2) [OF n(4)] queued_nth [OF assms(1) n(3)] n(5) by simp
  have ge: "?v \<le> quad ?v ?a ?c"
    using quad_mono [of n ?v ?a 1 n] w(3) n by simp
  have v: "0 \<le> ?v" using w(3) [OF n(2)] by simp
  have rest: "?a * (?c * (?c - 1) div 2) + ?v * (?c - 1) = quad ?v ?a ?c - ?v"
    by (simp add: quad_def algebra_simps)
  have "move_ticks m = uint32 (quad ?v ?a ?c - ?v)"
  proof (cases "?c * (?c - 1) < 2147483648")
    case True
    have "0 \<le> ?c * (?c - 1)" using assms(3) by simp
    then have "c_quot (to_int32 (?c * (?c - 1))) 2 = ?c * (?c - 1) div 2"
      using True by (simp add: to_int32_id c_quot_def)
    then show ?thesis using rest by (simp add: move_ticks_def)
  next
    case False
    have "?a = 0"
      by (rule long_sequence_flat [OF lt v _ assms(3)]) (use w(3) [OF n(4)] n(5) False in auto)
    then show ?thesis using rest by (simp add: move_ticks_def)
  qed
  then show ?thesis using ge lt v by (simp add: uint32_id CLOCK_DIFF_MAX_def)
qed

section \<open>The history\<close>

text \<open>
  The absolute clocks of the steps of an entry, and the steps of a whole history (newest entry
  first) with their directions.
\<close>

definition hs_clocks :: "history_steps \<Rightarrow> int list" where
  "hs_clocks hs = step_times (hs_first_clock hs - hs_interval hs) (hs_interval hs) (hs_add hs)
     (nat \<bar>hs_step_count hs\<bar>)"

definition hs_dir :: "history_steps \<Rightarrow> int" where
  "hs_dir hs = (if hs_step_count hs < 0 then 0 else 1)"

definition history_moves :: "history_steps list \<Rightarrow> (int \<times> int) list" where
  "history_moves hist = concat (map (\<lambda>hs. map (Pair (hs_dir hs)) (hs_clocks hs)) (rev hist))"

lemma history_moves_Cons:
  "history_moves (hs # hist) = history_moves hist @ map (Pair (hs_dir hs)) (hs_clocks hs)"
  by (simp add: history_moves_def)

text \<open>The position after the steps made at or before \<open>clock\<close>.\<close>

definition net_until :: "history_steps list \<Rightarrow> int \<Rightarrow> int" where
  "net_until hist clock =
     (\<Sum>hs \<leftarrow> hist. sgn (hs_step_count hs) * int (length (filter (\<lambda>p. p \<le> clock) (hs_clocks hs))))"

definition hs_wf :: "history_steps \<Rightarrow> bool" where
  "hs_wf hs \<longleftrightarrow>
     (let n = nat \<bar>hs_step_count hs\<bar>; v = hs_interval hs; a = hs_add hs
      in 0 < n \<and> (n = 1 \<or> (\<forall>k < n. 0 \<le> v + a * int k)) \<and>
         hs_last_clock hs = hs_first_clock hs - v + quad v a (int n) \<and>
         hs_last_clock hs - hs_first_clock hs < 2147483648)"

text \<open>A history that starts at position zero, ends at \<open>pos\<close> and has no step after \<open>clk\<close>.\<close>

fun history_ok :: "history_steps list \<Rightarrow> int \<Rightarrow> int \<Rightarrow> bool" where
  "history_ok [] pos clk = (pos = 0)"
| "history_ok (hs # rest) pos clk =
     (hs_wf hs \<and> pos = hs_start_position hs + hs_step_count hs \<and> hs_last_clock hs \<le> clk \<and>
      history_ok rest (hs_start_position hs) (hs_first_clock hs))"

lemma hs_wf_mono:
  assumes "hs_wf hs" and "i \<le> j" and "j \<le> nat \<bar>hs_step_count hs\<bar>" and "0 < i"
  shows "quad (hs_interval hs) (hs_add hs) (int i) \<le> quad (hs_interval hs) (hs_add hs) (int j)"
proof (cases "nat \<bar>hs_step_count hs\<bar> = 1")
  case True
  then have "i = j" using assms(2-4) by simp
  then show ?thesis by simp
next
  case False
  then show ?thesis
    using assms(1) by (intro quad_mono [OF _ assms(2,3)]) (simp add: hs_wf_def Let_def)
qed

text \<open>How many steps are made by \<open>clock\<close>: the largest index whose step is not later.\<close>

lemma length_filter_prefix:
  assumes "k \<le> length xs" and "\<And>i. i < k \<Longrightarrow> P (xs ! i)" and "\<And>i. k \<le> i \<Longrightarrow> i < length xs \<Longrightarrow> \<not> P (xs ! i)"
  shows "length (filter P xs) = k"
proof -
  have "filter P (take k xs) = take k xs" "filter P (drop k xs) = []"
    using assms by (auto simp: filter_id_conv filter_empty_conv in_set_conv_nth)
  then show ?thesis
    using append_take_drop_id [of k xs] assms(1)
    by (metis append_Nil2 filter_append length_take min.absorb2)
qed

lemma steps_by_clock:
  assumes "hs_wf hs" and "hs_first_clock hs \<le> clock" and "clock < hs_last_clock hs"
  defines "v \<equiv> hs_interval hs" and "a \<equiv> hs_add hs" and "T \<equiv> clock - hs_first_clock hs + hs_interval hs"
  obtains k where "0 < k" and "k < nat \<bar>hs_step_count hs\<bar>"
    and "length (filter (\<lambda>p. p \<le> clock) (hs_clocks hs)) = k"
    and "quad v a (int k) \<le> T" and "T < quad v a (int k + 1)"
proof -
  let ?n = "nat \<bar>hs_step_count hs\<bar>"
  define k where "k = (GREATEST k. k \<le> ?n \<and> 0 < k \<and> quad v a (int k) \<le> T)"
  have n: "0 < ?n" "T < quad v a (int ?n)"
    using assms(1,3) by (auto simp: hs_wf_def Let_def v_def a_def T_def)
  have one: "(1::nat) \<le> ?n \<and> 0 < (1::nat) \<and> quad v a (int 1) \<le> T"
    using n assms(2) by (auto simp: T_def v_def)
  have "k \<le> ?n \<and> 0 < k \<and> quad v a (int k) \<le> T"
    unfolding k_def
    by (rule GreatestI_nat [where P = "\<lambda>k. k \<le> ?n \<and> 0 < k \<and> quad v a (int k) \<le> T" and k = 1 and b = ?n])
      (use one in auto)
  then have k: "k \<le> ?n" "0 < k" "quad v a (int k) \<le> T" by blast+
  have kn: "k < ?n" using k n by (metis le_neq_implies_less linorder_not_less)
  have beyond: "T < quad v a (int j)" if "k < j" "j \<le> ?n" for j
  proof (rule ccontr)
    assume "\<not> T < quad v a (int j)"
    then have "j \<le> k" unfolding k_def
      by (intro Greatest_le_nat [where b = ?n]) (use that in auto)
    then show False using that by simp
  qed
  have "length (filter (\<lambda>p. p \<le> clock) (hs_clocks hs)) = k"
  proof (rule length_filter_prefix)
    show "k \<le> length (hs_clocks hs)" using k by (simp add: hs_clocks_def)
    fix i
    show "hs_clocks hs ! i \<le> clock" if "i < k"
    proof -
      have "quad v a (int (Suc i)) \<le> quad v a (int k)"
        unfolding v_def a_def by (rule hs_wf_mono [OF assms(1)]) (use that k in auto)
      then show ?thesis using that k kn by (simp add: hs_clocks_def nth_step_times v_def a_def T_def add.commute)
    qed
    show "\<not> hs_clocks hs ! i \<le> clock" if "k \<le> i" "i < length (hs_clocks hs)"
      using beyond [of "Suc i"] that
      by (simp add: hs_clocks_def nth_step_times v_def a_def T_def add.commute)
  qed
  moreover have "T < quad v a (int k + 1)" using beyond [of "Suc k"] kn by (simp add: add.commute)
  ultimately show ?thesis using that k kn by blast
qed

text \<open>The quadratic formula finds that index.\<close>

lemma quadratic_root:
  fixes A b t :: real and k :: nat
  defines "g \<equiv> \<lambda>x. A / 2 * x * x + b * x"
  assumes "A \<noteq> 0" and "g k \<le> t" and "t < g (k + 1)" and "0 \<le> A * k + b" and "0 < A \<longrightarrow> 0 \<le> A * (k + 1) + b"
  shows "\<lfloor>(sqrt (b * b + 2 * A * t) - b) / A\<rfloor> = int k"
proof -
  let ?D = "b * b + 2 * A * t"
  have sq: "(A * x + b) * (A * x + b) = b * b + 2 * A * g x" for x
    by (simp add: g_def algebra_simps)
  have "real k \<le> (sqrt ?D - b) / A \<and> (sqrt ?D - b) / A < real k + 1"
  proof (cases "0 < A")
    case True
    have lo: "(A * k + b)\<^sup>2 \<le> ?D"
      using True assms(3) sq [of k] by (simp add: power2_eq_square)
    then have "A * k + b \<le> sqrt ?D" by (rule real_le_rsqrt)
    moreover have "?D < (A * (k + 1) + b)\<^sup>2"
      using True assms(4) sq [of "real k + 1"] by (simp add: power2_eq_square add.commute)
    then have "sqrt ?D < A * (k + 1) + b"
      using True assms(6) by (intro real_less_lsqrt) (auto intro: order_trans [OF zero_le_power2 lo])
    ultimately show ?thesis using True by (simp add: field_simps)
  next
    case False
    then have neg: "A < 0" using assms(2) by simp
    have hi: "(A * (k + 1) + b)\<^sup>2 < ?D"
      using neg assms(4) sq [of "real k + 1"] by (simp add: power2_eq_square add.commute)
    then have "A * (k + 1) + b < sqrt ?D"
      by (intro real_less_rsqrt)
    moreover have "?D \<le> (A * k + b)\<^sup>2"
      using neg assms(3) sq [of k] by (simp add: power2_eq_square)
    then have "sqrt ?D \<le> A * k + b"
      using assms(5) by (intro real_le_lsqrt) (auto intro: order_trans [OF zero_le_power2 less_imp_le [OF hi]])
    ultimately show ?thesis using neg by (simp add: field_simps)
  qed
  then show ?thesis by (simp add: floor_eq_iff)
qed

lemma quad_real: "2 * real_of_int (quad v a k) = of_int a * of_int k * (of_int k - 1) + 2 * of_int v * of_int k"
proof -
  have "2 * quad v a k = a * (k * (k - 1)) + 2 * v * k"
  proof -
    have "2 * (k * (k - 1) div 2) = k * (k - 1)" by simp
    then have "2 * (a * (k * (k - 1) div 2)) = a * (k * (k - 1))" by (metis mult.left_commute)
    then show ?thesis by (simp add: quad_def)
  qed
  then show ?thesis by (metis (mono_tags, opaque_lifting) mult.assoc of_int_1 of_int_add of_int_diff of_int_mult of_int_numeral)
qed

lemma past_offset_exact:
  assumes "hs_wf hs" and "hs_first_clock hs \<le> clock" and "clock < hs_last_clock hs"
  shows "past_offset hs clock = int (length (filter (\<lambda>p. p \<le> clock) (hs_clocks hs)))"
proof -
  let ?v = "hs_interval hs" and ?a = "hs_add hs"
  define T where "T = clock - hs_first_clock hs + ?v"
  obtain k where k: "0 < k" "k < nat \<bar>hs_step_count hs\<bar>"
    and cnt: "length (filter (\<lambda>p. p \<le> clock) (hs_clocks hs)) = k"
    and lo: "quad ?v ?a (int k) \<le> T" and hi: "T < quad ?v ?a (int k + 1)"
    unfolding T_def by (rule steps_by_clock [OF assms])
  have ticks: "to_int32 (clock - hs_first_clock hs) + ?v = T"
    using assms by (simp add: T_def to_int32_id hs_wf_def Let_def)
  have all: "0 \<le> ?v + ?a * int j" if "j < nat \<bar>hs_step_count hs\<bar>" for j
    using assms(1) k that by (auto simp: hs_wf_def Let_def)
  have "int (k - 1) = int k - 1" using k by simp
  with all [of "k - 1"] all [of k] k have iv: "0 \<le> ?v + ?a * (int k - 1)" "0 \<le> ?v + ?a * int k" by simp_all
  have "past_offset hs clock = int k"
  proof (cases "?a = 0")
    case True
    have q: "?v * int k \<le> T" "T < ?v * int k + ?v"
      using lo hi by (simp_all add: quad_def True distrib_left)
    then have "T div ?v = int k" by (intro int_div_pos_eq [of _ _ _ "T - ?v * int k"]) auto
    moreover have "0 \<le> T" using q iv True by (simp add: order_trans [OF _ q(1)])
    ultimately show ?thesis using True ticks by (simp add: past_offset_def Let_def c_quot_def)
  next
    case False
    define A b t where "A = real_of_int ?a" and "b = real_of_int ?v - A / 2" and "t = real_of_int T"
    have g: "A / 2 * x * x + b * x = A * x * (x - 1) / 2 + real_of_int ?v * x" for x
      by (simp add: b_def field_simps)
    have quad: "A / 2 * real_of_int i * real_of_int i + b * real_of_int i = real_of_int (quad ?v ?a i)" for i
      unfolding g using quad_real [of ?v ?a i] by (simp add: A_def)
    have "\<lfloor>(sqrt (b * b + 2 * A * t) - b) / A\<rfloor> = int k"
    proof (rule quadratic_root)
      show "A \<noteq> 0" using False by (simp add: A_def)
      show "A / 2 * real k * real k + b * real k \<le> t" using quad [of "int k"] lo by (simp add: t_def)
      show "t < A / 2 * (real (k + 1)) * (real (k + 1)) + b * (real (k + 1))"
        using quad [of "int k + 1"] hi by (simp add: t_def add.commute)
      have "2 * (A * real k + b) = real_of_int ((?v + ?a * (int k - 1)) + (?v + ?a * int k))"
        by (simp add: A_def b_def algebra_simps)
      also have "\<dots> \<ge> 0" using iv by (simp only: of_int_0_le_iff add_nonneg_nonneg)
      finally show pos: "0 \<le> A * real k + b" by simp
      show "0 < A \<longrightarrow> 0 \<le> A * real (k + 1) + b" using pos by (simp add: algebra_simps)
    qed
    moreover have "0 \<le> (sqrt (b * b + 2 * A * t) - b) / A" using calculation by linarith
    moreover have "past_offset hs clock = c_trunc ((sqrt (b * b + 2 * A * t) - b) / A)"
      unfolding past_offset_def Let_def ticks using False by (simp add: A_def b_def t_def)
    ultimately show ?thesis by (simp add: c_trunc_def)
  qed
  then show ?thesis using cnt by simp
qed

lemma hs_clocks_bounds:
  assumes "hs_wf hs" and "p \<in> set (hs_clocks hs)"
  shows "hs_first_clock hs \<le> p" and "p \<le> hs_last_clock hs"
proof -
  obtain i where i: "i < nat \<bar>hs_step_count hs\<bar>"
    "p = hs_first_clock hs - hs_interval hs + quad (hs_interval hs) (hs_add hs) (int (Suc i))"
    using assms(2) by (auto simp: hs_clocks_def in_set_conv_nth nth_step_times add.commute)
  show "hs_first_clock hs \<le> p"
    using hs_wf_mono [OF assms(1), of 1 "Suc i"] i by simp
  show "p \<le> hs_last_clock hs"
    using hs_wf_mono [OF assms(1), of "Suc i" "nat \<bar>hs_step_count hs\<bar>"] i assms(1)
    by (simp add: hs_wf_def Let_def)
qed

lemma hs_wf_order: "hs_wf hs \<Longrightarrow> hs_first_clock hs \<le> hs_last_clock hs"
proof -
  assume wf: "hs_wf hs"
  then have "1 \<le> nat \<bar>hs_step_count hs\<bar>" by (auto simp: hs_wf_def Let_def)
  from hs_wf_mono [OF wf this] wf show ?thesis by (simp add: hs_wf_def Let_def)
qed

lemma net_append [simp]: "net (xs @ ys) = net xs + net ys"
  by (simp add: net_def)

lemma net_same_dir: "net (map (Pair d) ts) = (if d \<noteq> 0 then int (length ts) else - int (length ts))"
  by (induction ts) (auto simp: net_def)

lemma net_until_all:
  "history_ok hist pos clk \<Longrightarrow> clk \<le> clock \<Longrightarrow> net_until hist clock = pos"
proof (induction hist arbitrary: pos clk)
  case (Cons hs rest)
  then have wf: "hs_wf hs" and last: "hs_last_clock hs \<le> clock"
    and rest: "history_ok rest (hs_start_position hs) (hs_first_clock hs)"
    and pos: "pos = hs_start_position hs + hs_step_count hs" by auto
  have "filter (\<lambda>p. p \<le> clock) (hs_clocks hs) = hs_clocks hs"
    using hs_clocks_bounds(2) [OF wf] last by (fastforce simp: filter_id_conv)
  moreover have "hs_first_clock hs \<le> clock" using hs_wf_order [OF wf] last by simp
  ultimately show ?case
    using Cons.IH [OF rest] pos
    by (simp add: net_until_def hs_clocks_def sgn_if)
qed (simp add: net_until_def)

lemma history_ok_later: "history_ok hist pos clk \<Longrightarrow> clk \<le> clk' \<Longrightarrow> history_ok hist pos clk'"
  by (cases hist) auto

lemma net_until_net: "net_until hist clock = net (filter (\<lambda>(d, p). p \<le> clock) (history_moves hist))"
proof (induction hist)
  case (Cons hs rest)
  have "filter (\<lambda>(d, p). p \<le> clock) (map (Pair (hs_dir hs)) (hs_clocks hs))
      = map (Pair (hs_dir hs)) (filter (\<lambda>p. p \<le> clock) (hs_clocks hs))"
    by (simp add: filter_map comp_def)
  moreover have "sgn (hs_step_count hs) = (if hs_step_count hs < 0 then - 1 else 1) \<or> hs_clocks hs = []"
    by (auto simp: sgn_if hs_clocks_def)
  ultimately show ?case
    using Cons.IH
    by (auto simp: net_until_def history_moves_Cons net_append net_same_dir hs_dir_def)
qed (simp add: net_until_def history_moves_def net_def)

lemma find_past_exact:
  "history_ok hist pos clk \<Longrightarrow> find_past pos hist clock = net_until hist clock"
proof (induction hist arbitrary: pos clk)
  case (Cons hs rest)
  then have wf: "hs_wf hs" and rest: "history_ok rest (hs_start_position hs) (hs_first_clock hs)"
    and pos: "pos = hs_start_position hs + hs_step_count hs" by auto
  have split: "net_until (hs # rest) clock =
      sgn (hs_step_count hs) * int (length (filter (\<lambda>p. p \<le> clock) (hs_clocks hs))) + net_until rest clock"
    by (simp add: net_until_def)
  have nz: "hs_step_count hs \<noteq> 0" using wf by (auto simp: hs_wf_def Let_def)
  consider "clock < hs_first_clock hs" | "hs_last_clock hs \<le> clock" "hs_first_clock hs \<le> clock"
    | "hs_first_clock hs \<le> clock" "clock < hs_last_clock hs"
    using hs_wf_order [OF wf] by linarith
  then show ?case
  proof cases
    case 1
    then have "filter (\<lambda>p. p \<le> clock) (hs_clocks hs) = []"
      using hs_clocks_bounds(1) [OF wf] by (fastforce simp: filter_empty_conv)
    then show ?thesis using 1 split Cons.IH [OF rest] by simp
  next
    case 2
    then show ?thesis
      using net_until_all [OF Cons.prems, of clock] Cons.prems net_until_all [of "hs # rest" pos "hs_last_clock hs" clock] pos
      by simp
  next
    case 3
    then show ?thesis
      using split net_until_all [OF rest 3(1)] past_offset_exact [OF wf 3] nz
      by (simp add: sgn_if)
  qed
qed (simp add: net_until_def)

section \<open>The compressor and its requests\<close>

text \<open>The history records the executed steps.\<close>

definition logged :: "mcu_stepper \<Rightarrow> stepcompress \<Rightarrow> bool" where
  "logged s0 sc \<longleftrightarrow>
     history_ok (sc_history sc) (sc_last_position sc) (sc_last_step_clock sc) \<and>
     ms_steps (mcu_run sc s0) =
       map (\<lambda>(d, p). (d XOR sc_invert_sdir sc, uint32 p)) (history_moves (sc_history sc))"

text \<open>
  \<open>tracks s0 sc reqs ts\<close>: executing the queued commands from \<open>s0\<close> makes the steps \<open>reqs\<close>, the
  steps \<open>ts\<close> are still in the queue, and clock, direction, position and history agree.
\<close>

definition tracks :: "mcu_stepper \<Rightarrow> stepcompress \<Rightarrow> (int \<times> int) list \<Rightarrow> int list \<Rightarrow> bool" where
  "tracks s0 sc reqs ts \<longleftrightarrow>
     queued sc ts \<and> sorted_wrt (<) (sc_last_step_clock sc # ts) \<and>
     uint32 (sc_queue_step_msgtag sc) \<noteq> uint32 (sc_set_next_step_dir_msgtag sc) \<and>
     (sc_invert_sdir sc = 0 \<or> sc_invert_sdir sc = 1) \<and>
     (sc_sdir sc = - 1 \<or> sc_sdir sc = 0 \<or> sc_sdir sc = 1) \<and> (ts \<noteq> [] \<longrightarrow> sc_sdir sc \<noteq> - 1) \<and>
     ms_clock (mcu_run sc s0) = uint32 (sc_last_step_clock sc) \<and>
     (sc_sdir sc \<noteq> - 1 \<longrightarrow> ms_dir (mcu_run sc s0) = sc_sdir sc XOR sc_invert_sdir sc) \<and>
     list_all2 (executes (sc_max_error sc) (sc_invert_sdir sc)) (ms_steps (mcu_run sc s0)) reqs \<and>
     sc_last_position sc = net reqs \<and>
     logged s0 sc"

lemma mcu_run_snoc:
  "mcu_run (sc\<lparr>sc_msg_queue := sc_msg_queue sc @ [qm]\<rparr>) s0 =
     mcu_command (uint32 (sc_queue_step_msgtag sc)) (uint32 (sc_set_next_step_dir_msgtag sc))
       (qm_data qm) (mcu_run sc s0)"
  by (simp add: mcu_run_def)

lemma mcu_run_eq:
  assumes "sc_msg_queue sc' = sc_msg_queue sc" and "sc_queue_step_msgtag sc' = sc_queue_step_msgtag sc"
    and "sc_set_next_step_dir_msgtag sc' = sc_set_next_step_dir_msgtag sc"
  shows "mcu_run sc' s0 = mcu_run sc s0"
  using assms by (simp add: mcu_run_def)

lemma to_int16_uint32:
  assumes "- 32768 \<le> a" and "a < 32768"
  shows "to_int16 (uint32 a) = a"
proof -
  have "a mod 4294967296 mod 65536 = a mod 65536" by (rule mod_mod_cancel) simp
  then have "(uint32 a + 32768) mod 65536 = (a + 32768) mod 65536"
    unfolding uint32_def by (metis mod_add_left_eq)
  then show ?thesis using assms by (simp add: to_int16_def)
qed

lemma add_move_fields [simp]:
  "sc_queue (add_move sc fc m) = sc_queue sc" "sc_pos (add_move sc fc m) = sc_pos sc"
  "sc_cap (add_move sc fc m) = sc_cap sc" "sc_max_error (add_move sc fc m) = sc_max_error sc"
  "sc_mcu_time_offset (add_move sc fc m) = sc_mcu_time_offset sc"
  "sc_mcu_freq (add_move sc fc m) = sc_mcu_freq sc"
  "sc_last_step_clock (add_move sc fc m) = fc + move_ticks m"
  "sc_queue_step_msgtag (add_move sc fc m) = sc_queue_step_msgtag sc"
  "sc_set_next_step_dir_msgtag (add_move sc fc m) = sc_set_next_step_dir_msgtag sc"
  "sc_sdir (add_move sc fc m) = sc_sdir sc" "sc_invert_sdir (add_move sc fc m) = sc_invert_sdir sc"
  "sc_next_step_clock (add_move sc fc m) = sc_next_step_clock sc"
  "sc_next_step_dir (add_move sc fc m) = sc_next_step_dir sc"
  "sc_last_position (add_move sc fc m) =
     sc_last_position sc + (if sc_sdir sc \<noteq> 0 then sm_count m else - sm_count m)"
  by (simp_all add: add_move_def Let_def)

lemma add_move_history:
  "sc_history (add_move sc fc m) =
     \<lparr>hs_first_clock = fc, hs_last_clock = fc + move_ticks m, hs_start_position = sc_last_position sc,
      hs_step_count = (if sc_sdir sc \<noteq> 0 then sm_count m else - sm_count m),
      hs_interval = to_int32 (sm_interval m), hs_add = sm_add m\<rparr> # sc_history sc"
  by (simp add: add_move_def Let_def)

lemma add_move_message:
  "\<exists>qm. sc_msg_queue (add_move sc fc m) = sc_msg_queue sc @ [qm] \<and>
     qm_data qm = map uint32
       [sc_queue_step_msgtag sc, sc_oid sc, sm_interval m, sm_count m, sm_add m]"
  by (simp add: add_move_def Let_def message_alloc_and_encode_def)

lemma mcu_run_add_move:
  assumes "move_wf m" and "uint32 (sc_queue_step_msgtag sc) \<noteq> uint32 (sc_set_next_step_dir_msgtag sc)"
  shows "mcu_run (add_move sc fc m) s0 =
    (let s = mcu_run sc s0;
         ps = step_times (ms_clock s) (sm_interval m) (sm_add m) (nat (sm_count m))
     in s\<lparr>ms_clock := (if ps = [] then ms_clock s else uint32 (last ps)),
          ms_steps := ms_steps s @ map (\<lambda>p. (ms_dir s, uint32 p)) ps\<rparr>)"
proof -
  obtain qm where qm: "sc_msg_queue (add_move sc fc m) = sc_msg_queue sc @ [qm]"
    and data: "qm_data qm = map uint32
      [sc_queue_step_msgtag sc, sc_oid sc, sm_interval m, sm_count m, sm_add m]"
    using add_move_message by blast
  have snoc: "mcu_run (add_move sc fc m) s0 =
      mcu_command (uint32 (sc_queue_step_msgtag sc)) (uint32 (sc_set_next_step_dir_msgtag sc))
        (qm_data qm) (mcu_run sc s0)"
    using qm by (simp add: mcu_run_def)
  have "uint32 (sm_interval m) = sm_interval m" "uint32 (sm_count m) = sm_count m"
    "to_int16 (uint32 (sm_add m)) = sm_add m"
    using assms(1) by (auto simp: move_wf_def uint32_id to_int16_uint32)
  then show ?thesis
    unfolding snoc data by (simp add: mcu_queue_step_def Let_def)
qed

text \<open>The steps of a checked move, one by one, and the queue it leaves.\<close>

lemma windows_execute:
  assumes "queued sc ts" and "in_windows sc ts 0 0 v a n" and "n \<le> length ts"
  shows "list_all2 (executes (sc_max_error sc) iv)
      (map (\<lambda>p. (d XOR iv, uint32 p)) (step_times (sc_last_step_clock sc) v a n))
      (map (Pair d) (take n ts))"
proof (rule list_all2_all_nthI)
  let ?l = "sc_last_step_clock sc"
  fix k
  assume "k < length (map (\<lambda>p. (d XOR iv, uint32 p)) (step_times ?l v a n))"
  then have k: "k < n" by simp
  have "slack sc ts k \<le> sc_max_error sc" using slack_bounds(2) [OF assms(1), of k] k assms(3) by simp
  with in_windows_nth(1,2) [OF assms(2) k] k assms(3)
  show "executes (sc_max_error sc) iv
      (map (\<lambda>p. (d XOR iv, uint32 p)) (step_times ?l v a n) ! k) (map (Pair d) (take n ts) ! k)"
    by (auto simp: executes_def nth_step_times
        intro!: exI [of _ "ts ! k - (?l + quad v a (int k + 1))"])
qed (use assms(3) in simp)

lemma queued_drop:
  assumes "queued sc ts" and "sorted_wrt (<) (sc_last_step_clock sc # ts)" and "0 < n" and "n \<le> length ts"
    and "sc_last_step_clock sc \<le> l'" and "l' \<le> ts ! (n - 1)"
    and "sc_queue sc' = drop n (sc_queue sc)" and "sc_last_step_clock sc' = l'"
    and "sc_max_error sc' = sc_max_error sc"
  shows "queued sc' (drop n ts)" and "sorted_wrt (<) (l' # drop n ts)"
proof -
  have later: "l' < t" if "t \<in> set (drop n ts)" for t
  proof -
    obtain k where "k < length (drop n ts)" "t = drop n ts ! k"
      using \<open>t \<in> set (drop n ts)\<close> by (auto simp: in_set_conv_nth)
    then have "n - 1 < n + k" "n + k < length ts" "t = ts ! (n + k)" using assms(3) by auto
    moreover have "sorted_wrt (<) ts" using assms(2) by simp
    ultimately have "ts ! (n - 1) < t" by (simp add: sorted_wrt_iff_nth_less)
    then show ?thesis using assms(6) by simp
  qed
  then show "sorted_wrt (<) (l' # drop n ts)" using assms(2) by (auto intro: sorted_wrt_drop)
  have "t < l' + CLOCK_DIFF_MAX" if "t \<in> set (drop n ts)" for t
    using assms(1,5) in_set_dropD [OF that] by (fastforce simp: queued_def)
  then show "queued sc' (drop n ts)"
    using assms(1,7-9) later by (auto simp: queued_def drop_map sorted_wrt_drop less_imp_le)
qed

lemma checked_move:
  assumes "queued sc ts" and "move_wf m" and "check_line sc m" and "sm_count m \<le> int (length ts)"
  defines "n \<equiv> nat (sm_count m)"
  shows "0 < n" and "n \<le> length ts" and "int n = sm_count m"
    and "in_windows sc ts 0 0 (sm_interval m) (sm_add m) n"
    and "sm_interval m + move_ticks m = quad (sm_interval m) (sm_add m) (int n)"
    and "sc_last_step_clock sc + (sm_interval m + move_ticks m) \<le> ts ! (n - 1)"
    and "0 \<le> sm_interval m + move_ticks m"
proof -
  have c: "0 < sm_count m"
    and w: "in_windows sc ts 0 0 (sm_interval m) (sm_add m) (nat (sm_count m))"
    using check_line_windows [OF assms(1,2,4)] assms(3) by auto
  show n: "0 < n" "n \<le> length ts" "int n = sm_count m" using c assms(4) by (auto simp: n_def)
  show w': "in_windows sc ts 0 0 (sm_interval m) (sm_add m) n" using w by (simp add: n_def)
  show t: "sm_interval m + move_ticks m = quad (sm_interval m) (sm_add m) (int n)"
    using move_ticks_exact [OF assms(1) w c assms(4)] n(3) by simp
  have "int (n - 1) + 1 = int n" "n - 1 < n" using n(1) by auto
  then show "sc_last_step_clock sc + (sm_interval m + move_ticks m) \<le> ts ! (n - 1)"
    using in_windows_nth(2) [OF w', of "n - 1"] t by simp
  show "0 \<le> sm_interval m + move_ticks m"
    using quad_mono [of n "sm_interval m" "sm_add m" 0 n] in_windows_nth(3) [OF w'] t by simp
qed

lemma checked_move_run:
  assumes "tracks s0 sc reqs ts" and "move_wf m" and "check_line sc m"
    and "sm_count m \<le> int (length ts)"
  defines "l' \<equiv> sc_last_step_clock sc + (sm_interval m + move_ticks m)"
  shows "mcu_run (add_move sc fc m) s0 =
    (mcu_run sc s0)\<lparr>ms_clock := uint32 l',
      ms_steps := ms_steps (mcu_run sc s0) @
        map (\<lambda>p. (sc_sdir sc XOR sc_invert_sdir sc, uint32 p))
          (step_times (sc_last_step_clock sc) (sm_interval m) (sm_add m) (nat (sm_count m)))\<rparr>"
proof -
  let ?l = "sc_last_step_clock sc" and ?v = "sm_interval m" and ?a = "sm_add m"
  let ?n = "nat (sm_count m)"
  have q: "queued sc ts" and tag: "uint32 (sc_queue_step_msgtag sc) \<noteq> uint32 (sc_set_next_step_dir_msgtag sc)"
    and clk: "ms_clock (mcu_run sc s0) = uint32 ?l"
    using assms(1) by (auto simp: tracks_def)
  note m = checked_move [OF q assms(2-4)]
  have dir: "ms_dir (mcu_run sc s0) = sc_sdir sc XOR sc_invert_sdir sc"
    using assms(1) m(1,2) by (auto simp: tracks_def)
  have "uint32 (last (step_times (uint32 ?l) ?v ?a ?n)) = uint32 l'"
    using m(1) by (simp only: last_step_times l'_def m(5)) simp
  moreover have "map (\<lambda>p. (d, uint32 p)) (step_times (uint32 ?l) ?v ?a ?n)
      = map (\<lambda>p. (d, uint32 p)) (step_times ?l ?v ?a ?n)" for d :: int
    using arg_cong [OF step_times_uint32 [of ?l ?v ?a ?n], of "map (Pair d)"] by (simp add: comp_def)
  moreover have "step_times (uint32 ?l) ?v ?a ?n \<noteq> []"
    using m(1) by (metis length_0_conv length_step_times less_irrefl)
  ultimately show ?thesis
    unfolding mcu_run_add_move [OF assms(2) tag] Let_def clk dir by simp
qed

lemma move_history:
  assumes "tracks s0 sc reqs ts" and "move_wf m" and "check_line sc m"
    and "sm_count m \<le> int (length ts)"
  defines "sc' \<equiv> add_move sc (sc_last_step_clock sc + sm_interval m) m"
  shows "history_ok (sc_history sc') (sc_last_position sc') (sc_last_step_clock sc')"
    and "history_moves (sc_history sc') = history_moves (sc_history sc) @ map (Pair (sc_sdir sc))
      (step_times (sc_last_step_clock sc) (sm_interval m) (sm_add m) (nat (sm_count m)))"
proof -
  have q: "queued sc ts" using assms(1) by (simp add: tracks_def)
  note m = checked_move [OF q assms(2-4)]
  have iv: "0 \<le> sm_interval m" "sm_interval m < 2147483648"
    using in_windows_first(3,4) [OF m(4,1)] by auto
  have int: "to_int32 (sm_interval m) = sm_interval m" using iv by (simp add: to_int32_id)
  have n: "nat \<bar>if sc_sdir sc \<noteq> 0 then sm_count m else - sm_count m\<bar> = nat (sm_count m)"
    using m(1) by simp
  have "nat (sm_count m) - 1 < length ts" using m(1,2) by linarith
  from queued_nth(2) [OF q this] m(6) iv have "move_ticks m < 2147483648"
    by (simp add: CLOCK_DIFF_MAX_def)
  moreover have "history_ok (sc_history sc) (sc_last_position sc) (sc_last_step_clock sc + sm_interval m)"
    by (rule history_ok_later [of _ _ "sc_last_step_clock sc"])
      (use assms(1) iv in \<open>auto simp: tracks_def logged_def\<close>)
  ultimately show "history_ok (sc_history sc') (sc_last_position sc') (sc_last_step_clock sc')"
    using m(1,3,5) in_windows_nth(3) [OF m(4)] n
    by (simp add: sc'_def add_move_history hs_wf_def Let_def int)
  have "sc_sdir sc = 0 \<or> sc_sdir sc = 1" using assms(1) m(1,2) by (auto simp: tracks_def)
  then show "history_moves (sc_history sc') = history_moves (sc_history sc) @ map (Pair (sc_sdir sc))
      (step_times (sc_last_step_clock sc) (sm_interval m) (sm_add m) (nat (sm_count m)))"
    using n m(1) by (auto simp: sc'_def add_move_history history_moves_Cons hs_clocks_def hs_dir_def int)
qed

lemma tracks_after_move:
  assumes "tracks s0 sc reqs ts" and "move_wf m" and "check_line sc m"
    and "sm_count m \<le> int (length ts)"
  defines "n \<equiv> nat (sm_count m)"
  shows "tracks s0 ((add_move sc (sc_last_step_clock sc + sm_interval m) m)
             \<lparr>sc_queue := drop n (sc_queue sc), sc_pos := i\<rparr>)
           (reqs @ map (Pair (sc_sdir sc)) (take n ts)) (drop n ts)" (is "tracks s0 ?sc' _ _")
proof -
  let ?l' = "sc_last_step_clock sc + (sm_interval m + move_ticks m)"
  have q: "queued sc ts" and strict: "sorted_wrt (<) (sc_last_step_clock sc # ts)"
    using assms(1) by (auto simp: tracks_def)
  note m = checked_move [OF q assms(2-4), folded n_def]
  have l': "sc_last_step_clock ?sc' = ?l'" by simp
  have "queued ?sc' (drop n ts)" "sorted_wrt (<) (?l' # drop n ts)"
    using queued_drop [OF q strict m(1,2), of ?l' ?sc'] m(6,7) by auto
  moreover have "mcu_run ?sc' s0 = mcu_run (add_move sc (sc_last_step_clock sc + sm_interval m) m) s0"
    by (rule mcu_run_eq) simp_all
  moreover note windows_execute [OF q m(4,2), of "sc_invert_sdir sc" "sc_sdir sc"]
  moreover have "sc_last_position ?sc' = net (reqs @ map (Pair (sc_sdir sc)) (take n ts))"
    using assms(1) m(2,3) by (simp add: tracks_def net_same_dir)
  moreover have "logged s0 ?sc'"
    using move_history [OF assms(1-4)] assms(1) calculation(3) checked_move_run [OF assms(1-4)]
    by (simp add: logged_def tracks_def comp_def)
  ultimately show ?thesis
    using assms(1) unfolding tracks_def l' checked_move_run [OF assms(1-4)]
    by (auto simp: n_def intro!: list_all2_appendI)
qed

section \<open>Flushing\<close>

text \<open>What a flush leaves alone.\<close>

definition same_setup :: "stepcompress \<Rightarrow> stepcompress \<Rightarrow> bool" where
  "same_setup sc sc' \<longleftrightarrow>
     sc_mcu_time_offset sc' = sc_mcu_time_offset sc \<and> sc_mcu_freq sc' = sc_mcu_freq sc \<and>
     sc_max_error sc' = sc_max_error sc \<and> sc_invert_sdir sc' = sc_invert_sdir sc"

definition same_pending :: "stepcompress \<Rightarrow> stepcompress \<Rightarrow> bool" where
  "same_pending sc sc' \<longleftrightarrow>
     sc_sdir sc' = sc_sdir sc \<and> sc_next_step_clock sc' = sc_next_step_clock sc \<and>
     sc_next_step_dir sc' = sc_next_step_dir sc \<and> sc_cap sc' = sc_cap sc"

lemma same_refl [simp]: "same_setup sc sc" "same_pending sc sc"
  by (simp_all add: same_setup_def same_pending_def)

lemma same_trans:
  "same_setup a b \<Longrightarrow> same_setup b c \<Longrightarrow> same_setup a c"
  "same_pending a b \<Longrightarrow> same_pending b c \<Longrightarrow> same_pending a c"
  by (simp_all add: same_setup_def same_pending_def)

definition timed :: "stepcompress \<Rightarrow> bool" where
  "timed sc \<longleftrightarrow> sc_last_step_print_time sc =
     sc_mcu_time_offset sc + (of_int (sc_last_step_clock sc) - 1 / 2) / sc_mcu_freq sc"

definition buffered :: "stepcompress \<Rightarrow> bool" where
  "buffered sc \<longleftrightarrow>
     sc_pos sc + length (sc_queue sc) \<le> sc_cap sc \<and> (sc_cap sc = 0 \<or> QUEUE_START_SIZE \<le> sc_cap sc)"

text \<open>The invariant of a compressor none of whose steps is later than \<open>c\<close>.\<close>

definition sc_inv :: "mcu_stepper \<Rightarrow> int \<Rightarrow> stepcompress \<Rightarrow> (int \<times> int) list \<Rightarrow> int list \<Rightarrow> bool" where
  "sc_inv s0 c sc reqs ts \<longleftrightarrow>
     tracks s0 sc reqs ts \<and> buffered sc \<and> sc_pos sc \<le> length reqs \<and>
     sc_last_step_clock sc \<le> c \<and> (\<forall>t \<in> set ts. t \<le> c)"

lemma tracks_update [simp]:
  "tracks s0 (sc\<lparr>sc_pos := i\<rparr>) reqs ts = tracks s0 sc reqs ts"
  "tracks s0 (sc\<lparr>sc_cap := i\<rparr>) reqs ts = tracks s0 sc reqs ts"
  "tracks s0 (sc\<lparr>sc_last_step_print_time := x\<rparr>) reqs ts = tracks s0 sc reqs ts"
  "tracks s0 (sc\<lparr>sc_next_step_clock := j\<rparr>) reqs ts = tracks s0 sc reqs ts"
  "tracks s0 (sc\<lparr>sc_next_step_dir := j\<rparr>) reqs ts = tracks s0 sc reqs ts"
  by (simp_all add: tracks_def logged_def queued_def mcu_run_def)

lemma sc_inv_update [simp]:
  "sc_inv s0 c (sc\<lparr>sc_last_step_print_time := x\<rparr>) reqs ts = sc_inv s0 c sc reqs ts"
  "sc_inv s0 c (sc\<lparr>sc_next_step_clock := j\<rparr>) reqs ts = sc_inv s0 c sc reqs ts"
  "sc_inv s0 c (sc\<lparr>sc_next_step_dir := j\<rparr>) reqs ts = sc_inv s0 c sc reqs ts"
  by (simp_all add: sc_inv_def buffered_def)

lemma sc_inv_queue_len: "sc_inv s0 c sc reqs ts \<Longrightarrow> length (sc_queue sc) = length ts"
  by (simp add: sc_inv_def tracks_def queued_def)

lemma sc_inv_later: "sc_inv s0 c sc reqs ts \<Longrightarrow> c \<le> c' \<Longrightarrow> sc_inv s0 c' sc reqs ts"
  by (fastforce simp: sc_inv_def)

text \<open>One round of the loop: it cannot fail, and it takes at least one step off the queue.\<close>

lemma flush_round:
  assumes "sc_inv s0 c sc reqs ts" and "ts \<noteq> []" and "sc_last_step_clock sc < move_clock"
  obtains n sc' where "0 < n" and "n \<le> length ts"
    and "sc_inv s0 c sc' (reqs @ map (Pair (sc_sdir sc)) (take n ts)) (drop n ts)"
    and "same_setup sc sc'" and "same_pending sc sc'" and "sc_last_step_clock sc \<le> sc_last_step_clock sc'"
    and "flush_loop sc move_clock = (if drop n ts = [] then Inr sc' else flush_loop sc' move_clock)"
proof -
  have tr: "tracks s0 sc reqs ts" and q: "queued sc ts"
    using assms(1) by (auto simp: sc_inv_def tracks_def)
  have "sc_last_step_clock sc < hd ts" using tr assms(2) by (cases ts) (auto simp: tracks_def)
  then obtain m where m: "compress_bisect_add sc = Some m" "check_line sc m"
    using compress_passes_guard [OF q assms(2)] by blast
  have wf: "move_wf m" "sm_count m \<le> int (length ts)"
    using compress_safe [OF q assms(2)] m(1) by (metis option.inject)+
  define n where "n = nat (sm_count m)"
  note chk = checked_move [OF q wf(1) m(2) wf(2), folded n_def]
  have len: "length (sc_queue sc) = length ts" by (rule sc_inv_queue_len [OF assms(1)])
  define sc' where "sc' = (add_move sc (sc_last_step_clock sc + sm_interval m) m)
    \<lparr>sc_queue := drop n (sc_queue sc), sc_pos := if n \<ge> length ts then 0 else sc_pos sc + n\<rparr>"
  have "tracks s0 sc' (reqs @ map (Pair (sc_sdir sc)) (take n ts)) (drop n ts)"
    unfolding sc'_def n_def by (rule tracks_after_move [OF tr wf(1) m(2) wf(2)])
  moreover have "ts ! (n - 1) \<le> c" using assms(1) chk(1,2) by (auto simp: sc_inv_def)
  moreover have "length (take n ts) = n" using chk(2) by simp
  ultimately have inv: "sc_inv s0 c sc' (reqs @ map (Pair (sc_sdir sc)) (take n ts)) (drop n ts)"
    using assms(1) chk(2,6) len
    by (auto simp: sc_inv_def buffered_def sc'_def add.assoc dest: in_set_dropD)
  have eq: "flush_loop sc move_clock = (if drop n ts = [] then Inr sc' else flush_loop sc' move_clock)"
    using assms(3) m chk(2) len
    by (subst flush_loop.simps) (simp add: Let_def n_def [symmetric] sc'_def)
  have "same_setup sc sc'" "same_pending sc sc'" "sc_last_step_clock sc \<le> sc_last_step_clock sc'"
    using chk(7) by (simp_all add: same_setup_def same_pending_def sc'_def)
  with that chk(1,2) inv eq show ?thesis by blast
qed

lemma flush_loop_ok:
  assumes "sc_inv s0 c sc reqs ts" and "ts \<noteq> []"
  obtains n sc' where "flush_loop sc move_clock = Inr sc'"
    and "sc_inv s0 c sc' (reqs @ map (Pair (sc_sdir sc)) (take n ts)) (drop n ts)"
    and "same_setup sc sc'" and "same_pending sc sc'" and "sc_last_step_clock sc \<le> sc_last_step_clock sc'"
    and "drop n ts = [] \<or> move_clock \<le> sc_last_step_clock sc'"
  using assms
proof (induction "length ts" arbitrary: sc reqs ts thesis rule: less_induct)
  case less
  show ?case
  proof (cases "sc_last_step_clock sc < move_clock")
    case False
    then have "flush_loop sc move_clock = Inr sc" by (subst flush_loop.simps) simp
    then show ?thesis using less.prems(1) [of sc 0] less.prems(2) False by simp
  next
    case True
    obtain n sc' where n: "0 < n" "n \<le> length ts"
      and inv: "sc_inv s0 c sc' (reqs @ map (Pair (sc_sdir sc)) (take n ts)) (drop n ts)"
      and same: "same_setup sc sc'" "same_pending sc sc'" "sc_last_step_clock sc \<le> sc_last_step_clock sc'"
      and eq: "flush_loop sc move_clock = (if drop n ts = [] then Inr sc' else flush_loop sc' move_clock)"
      by (rule flush_round [OF less.prems(2,3) True])
    show ?thesis
    proof (cases "drop n ts = []")
      case True
      then show ?thesis using less.prems(1) [of sc' n] inv same eq by simp
    next
      case False
      have lt: "length (drop n ts) < length ts" using n by simp
      have sdir: "sc_sdir sc' = sc_sdir sc" using same(2) by (simp add: same_pending_def)
      obtain k sc'' where k: "flush_loop sc' move_clock = Inr sc''"
        "sc_inv s0 c sc'' (reqs @ map (Pair (sc_sdir sc)) (take n ts)
            @ map (Pair (sc_sdir sc)) (take k (drop n ts))) (drop k (drop n ts))"
        "same_setup sc' sc''" "same_pending sc' sc''" "sc_last_step_clock sc' \<le> sc_last_step_clock sc''"
        "drop k (drop n ts) = [] \<or> move_clock \<le> sc_last_step_clock sc''"
        by (rule less.hyps [OF lt _ inv False, unfolded sdir append_assoc])
      have "map (Pair (sc_sdir sc)) (take n ts) @ map (Pair (sc_sdir sc)) (take k (drop n ts))
          = map (Pair (sc_sdir sc)) (take (n + k) ts)"
        by (simp add: take_add)
      then show ?thesis
        using less.prems(1) [of sc'' "n + k"] k eq False same_trans(1) [OF same(1) k(3)]
          same_trans(2) [OF same(2) k(4)] order_trans [OF same(3) k(5)]
        by (simp add: drop_drop add.commute)
    qed
  qed
qed

lemma calc_timed [simp]: "timed (calc_last_step_print_time sc)"
  by (simp add: timed_def calc_last_step_print_time_def)

lemma calc_fields [simp]:
  "sc_last_step_clock (calc_last_step_print_time sc) = sc_last_step_clock sc"
  "sc_inv s0 c (calc_last_step_print_time sc) reqs ts = sc_inv s0 c sc reqs ts"
  "same_setup sc' (calc_last_step_print_time sc) = same_setup sc' sc"
  "same_pending sc' (calc_last_step_print_time sc) = same_pending sc' sc"
  by (simp_all add: calc_last_step_print_time_def same_setup_def same_pending_def)

lemma queue_flush_ok:
  assumes "sc_inv s0 c sc reqs ts" and "timed sc"
  obtains n sc' where "queue_flush sc move_clock = Inr sc'"
    and "sc_inv s0 c sc' (reqs @ map (Pair (sc_sdir sc)) (take n ts)) (drop n ts)" and "timed sc'"
    and "same_setup sc sc'" and "same_pending sc sc'" and "sc_last_step_clock sc \<le> sc_last_step_clock sc'"
    and "drop n ts = [] \<or> move_clock \<le> sc_last_step_clock sc'"
proof (cases "ts = []")
  case True
  then have "sc_queue sc = []" using sc_inv_queue_len [OF assms(1)] by simp
  then show ?thesis using that [of sc 0] assms True by (simp add: queue_flush_def)
next
  case False
  then have ne: "sc_queue sc \<noteq> []" using sc_inv_queue_len [OF assms(1)] by auto
  obtain n sc' where "flush_loop sc move_clock = Inr sc'"
    "sc_inv s0 c sc' (reqs @ map (Pair (sc_sdir sc)) (take n ts)) (drop n ts)"
    "same_setup sc sc'" "same_pending sc sc'" "sc_last_step_clock sc \<le> sc_last_step_clock sc'"
    "drop n ts = [] \<or> move_clock \<le> sc_last_step_clock sc'"
    by (rule flush_loop_ok [OF assms(1) False])
  then show ?thesis
    using that [of "calc_last_step_print_time sc'" n] ne by (simp add: queue_flush_def)
qed

section \<open>Appending\<close>

text \<open>
  What every way of queueing the pending step \<open>(d, p)\<close> achieves: the request is added at the
  end, or the write leaves the buffer.
\<close>

definition appended ::
  "mcu_stepper \<Rightarrow> stepcompress \<Rightarrow> (int \<times> int) list \<Rightarrow> int \<Rightarrow> int \<Rightarrow> sc_result \<Rightarrow> bool" where
  "appended s0 sc steps d p r \<longleftrightarrow>
     r = Inl OutOfBounds \<and> QUEUE_START_SIZE \<le> length steps \<or>
     (\<exists>sc' reqs ts. r = Inr sc' \<and> sc_inv s0 p sc' reqs ts \<and> timed sc' \<and> same_setup sc sc' \<and>
        sc_next_step_clock sc' = 0 \<and> reqs @ map (Pair (sc_sdir sc')) ts = steps @ [(d, p)])"

lemma appendedI:
  assumes "r = Inr sc'" and "sc_inv s0 p sc' reqs ts" and "timed sc'" and "same_setup sc sc'"
    and "sc_next_step_clock sc' = 0" and "reqs @ map (Pair (sc_sdir sc')) ts = steps @ [(d, p)]"
  shows "appended s0 sc steps d p r"
  using assms unfolding appended_def by blast

lemma queue_push_ok:
  assumes "sc_inv s0 c sc reqs ts" and "timed sc" and "c < p" and "p < sc_last_step_clock sc + CLOCK_DIFF_MAX"
    and "sc_sdir sc = d" and "d = 0 \<or> d = 1" and "same_setup sc0 sc" and "0 < sc_cap sc"
  shows "appended s0 sc0 (reqs @ map (Pair d) ts) d p
           (sc_bind (queue_push sc p) (\<lambda>sc. Inr (sc\<lparr>sc_next_step_clock := 0\<rparr>)))"
proof (cases "sc_pos sc + length (sc_queue sc) < sc_cap sc")
  case True
  let ?sc = "sc\<lparr>sc_queue := sc_queue sc @ [uint32 p]\<rparr>"
  have tr: "tracks s0 sc reqs ts" and le: "sc_last_step_clock sc \<le> c" "\<forall>t \<in> set ts. t \<le> c"
    using assms(1) by (auto simp: sc_inv_def)
  have "queued ?sc (ts @ [p])"
    using tr assms(3,4) le by (fastforce simp: tracks_def queued_def sorted_append)
  moreover have "sorted_wrt (<) (sc_last_step_clock ?sc # ts @ [p])"
    using tr assms(3) le by (fastforce simp: tracks_def sorted_wrt_append)
  moreover have "mcu_run ?sc s0 = mcu_run sc s0" by (rule mcu_run_eq) simp_all
  moreover have "logged s0 ?sc = logged s0 sc" by (simp add: logged_def calculation(3))
  ultimately have "tracks s0 ?sc reqs (ts @ [p])"
    using tr assms(5,6) by (auto simp: tracks_def)
  moreover have "\<forall>t \<in> set ts. t \<le> p" using le(2) assms(3) by fastforce
  ultimately have "sc_inv s0 p ?sc reqs (ts @ [p])"
    using True le assms(1,3) by (simp add: sc_inv_def buffered_def)
  then show ?thesis
    using True assms(2,5,7)
    by (intro appendedI [of _ "?sc\<lparr>sc_next_step_clock := 0\<rparr>" s0 p reqs "ts @ [p]"])
      (simp_all add: queue_push_def timed_def same_setup_def)
next
  case False
  have "QUEUE_START_SIZE \<le> length reqs + length ts"
    using False assms(1,8) sc_inv_queue_len [OF assms(1)] by (auto simp: sc_inv_def buffered_def)
  then show ?thesis using False by (simp add: appended_def queue_push_def)
qed

text \<open>A step far ahead is only sent alone once the queue is empty.\<close>

lemma mcu_run_calc [simp]: "mcu_run (calc_last_step_print_time sc) s0 = mcu_run sc s0"
  by (rule mcu_run_eq) (simp_all add: calc_last_step_print_time_def)

lemma flush_far_ok:
  assumes "sc_inv s0 c sc reqs []" and "c < p" and "sc_sdir sc = d" and "d = 0 \<or> d = 1"
    and "same_setup sc0 sc" and "sc_next_step_clock sc = 0"
  shows "appended s0 sc0 reqs d p (stepcompress_flush_far sc p)"
proof -
  let ?m = "mk_move (p - sc_last_step_clock sc) 1 0"
  let ?sc = "calc_last_step_print_time (add_move sc p ?m)"
  have tr: "tracks s0 sc reqs []" using assms(1) by (simp add: sc_inv_def)
  have m: "sm_interval ?m = uint32 (p - sc_last_step_clock sc)" "sm_count ?m = 1" "sm_add ?m = 0"
    by (simp_all add: mk_move_def uint16_def to_int16_def)
  have ticks: "move_ticks ?m = 0" by (simp add: move_ticks_def m c_quot_def to_int32_def uint32_def)
  have clk: "ms_clock (mcu_run sc s0) = uint32 (sc_last_step_clock sc)"
    and dir: "ms_dir (mcu_run sc s0) = d XOR sc_invert_sdir sc"
    and tag: "uint32 (sc_queue_step_msgtag sc) \<noteq> uint32 (sc_set_next_step_dir_msgtag sc)"
    using tr assms(3,4) by (auto simp: tracks_def)
  have run: "mcu_run ?sc s0 = (mcu_run sc s0)\<lparr>ms_clock := uint32 p,
      ms_steps := ms_steps (mcu_run sc s0) @ [(d XOR sc_invert_sdir sc, uint32 p)]\<rparr>"
    using mcu_run_add_move [OF move_wf_mk_move tag, of p "p - sc_last_step_clock sc" 1 0 s0] clk dir
    by (simp add: m Let_def)
  have "history_ok (sc_history ?sc) (sc_last_position ?sc) (sc_last_step_clock ?sc)"
  proof -
    have "history_ok (sc_history sc) (sc_last_position sc) p"
      by (rule history_ok_later [of _ _ "sc_last_step_clock sc"])
        (use tr assms(1,2) in \<open>auto simp: tracks_def logged_def sc_inv_def\<close>)
    then show ?thesis
      by (simp add: calc_last_step_print_time_def add_move_history hs_wf_def Let_def m ticks)
  qed
  moreover have "history_moves (sc_history ?sc) = history_moves (sc_history sc) @ [(d, p)]"
    using assms(3,4)
    by (auto simp: calc_last_step_print_time_def add_move_history history_moves_Cons hs_clocks_def hs_dir_def m)
  ultimately have "logged s0 ?sc" using tr unfolding logged_def run
    by (simp add: tracks_def logged_def calc_last_step_print_time_def)
  moreover have "executes (sc_max_error sc) (sc_invert_sdir sc) (d XOR sc_invert_sdir sc, uint32 p) (d, p)"
    using tr by (auto simp: executes_def tracks_def queued_def intro!: exI [of _ 0])
  ultimately have "tracks s0 ?sc (reqs @ [(d, p)]) []"
    unfolding tracks_def run using tr assms(3,4) ticks m
    by (auto simp: tracks_def queued_def calc_last_step_print_time_def net_def intro!: list_all2_appendI)
  then have "sc_inv s0 p ?sc (reqs @ [(d, p)]) []"
    using assms(1) ticks by (simp add: sc_inv_def buffered_def calc_last_step_print_time_def)
  moreover have "sc_next_step_clock ?sc = 0" using assms(6) by (simp add: calc_last_step_print_time_def)
  moreover have "same_setup sc0 ?sc" using assms(5) by (simp add: same_setup_def calc_last_step_print_time_def)
  ultimately show ?thesis
    by (intro appendedI [of _ ?sc s0 p "reqs @ [(d, p)]" "[]"])
      (simp_all add: stepcompress_flush_far_def)
qed

lemma same_setup_next [simp]: "same_setup sc (sc'\<lparr>sc_next_step_clock := j\<rparr>) = same_setup sc sc'"
  by (simp add: same_setup_def)

lemma timed_next [simp]: "timed (sc\<lparr>sc_next_step_clock := j\<rparr>) = timed sc"
  by (simp add: timed_def)

lemma queue_push_next:
  "sc_next_step_clock sc = 0 \<Longrightarrow>
     sc_bind (queue_push sc p) (\<lambda>sc. Inr (sc\<lparr>sc_next_step_clock := 0\<rparr>)) = queue_push sc p"
  by (simp add: queue_push_def)

lemma queue_append_far_ok:
  assumes "sc_inv s0 c sc reqs ts" and "timed sc" and "c < p" and "sc_next_step_clock sc = p"
    and "sc_sdir sc = d" and "d = 0 \<or> d = 1" and "same_setup sc0 sc"
    and "sc_last_step_clock sc + CLOCK_DIFF_MAX \<le> p"
  shows "appended s0 sc0 (reqs @ map (Pair d) ts) d p (queue_append_far sc)"
proof -
  let ?z = "sc\<lparr>sc_next_step_clock := 0\<rparr>"
  have z: "sc_inv s0 c ?z reqs ts" "timed ?z" "sc_sdir ?z = d" using assms(1,2,5) by simp_all
  obtain n sc' where fl: "queue_flush ?z (p - CLOCK_DIFF_MAX + 1) = Inr sc'"
    and inv: "sc_inv s0 c sc' (reqs @ map (Pair d) (take n ts)) (drop n ts)" and tm: "timed sc'"
    and same: "same_setup ?z sc'" "same_pending ?z sc'"
    and fin: "drop n ts = [] \<or> p - CLOCK_DIFF_MAX + 1 \<le> sc_last_step_clock sc'"
    by (rule queue_flush_ok [OF z(1,2), unfolded z(3)])
  have sc': "sc_sdir sc' = d" "sc_next_step_clock sc' = 0" "same_setup sc0 sc'"
    using same assms(5,7) by (auto simp: same_pending_def same_setup_def)
  have all: "(reqs @ map (Pair d) (take n ts)) @ map (Pair d) (drop n ts) = reqs @ map (Pair d) ts"
    by (simp flip: map_append)
  show ?thesis
  proof (cases "p \<ge> sc_last_step_clock sc' + CLOCK_DIFF_MAX")
    case True
    then have "drop n ts = []" using fin by auto
    with flush_far_ok [OF _ assms(3) sc'(1) assms(6) sc'(3,2), of s0 "reqs @ map (Pair d) (take n ts)"]
      inv all True fl assms(4)
    show ?thesis by (simp add: queue_append_far_def Let_def)
  next
    case False
    have "sc_queue sc \<noteq> []"
    proof
      assume "sc_queue sc = []"
      then have "sc' = ?z" using fl by (simp add: queue_flush_def)
      then show False using False assms(8) by simp
    qed
    then have "0 < sc_cap sc'"
      using assms(1) same(2)
      by (cases "sc_queue sc") (auto simp: sc_inv_def buffered_def same_pending_def)
    with False queue_push_ok [OF inv tm assms(3) _ sc'(1) assms(6) sc'(3)] fl assms(4) all
      queue_push_next [OF sc'(2), of p]
    show ?thesis by (simp add: queue_append_far_def Let_def)
  qed
qed

lemma grow_alloc_ge: "alloc \<le> grow_alloc in_use alloc"
proof (induction in_use alloc rule: grow_alloc.induct)
  case (1 in_use alloc)
  then show ?case by (subst grow_alloc.simps) auto
qed

lemma grow_alloc_gt: "0 < alloc \<Longrightarrow> in_use < grow_alloc in_use alloc"
proof (induction in_use alloc rule: grow_alloc.induct)
  case (1 in_use alloc)
  then show ?case by (subst grow_alloc.simps) auto
qed

text \<open>After making room there is room.\<close>

lemma queue_append_room_fits:
  assumes "buffered sc"
  shows "sc_pos (queue_append_room sc) + length (sc_queue (queue_append_room sc)) < sc_cap (queue_append_room sc)"
proof -
  have "length (sc_queue sc) < grow_alloc (length (sc_queue sc))
      (if sc_cap sc = 0 then QUEUE_START_SIZE else sc_cap sc)"
    by (rule grow_alloc_gt) (simp add: QUEUE_START_SIZE_def)
  then show ?thesis using assms by (auto simp: queue_append_room_def Let_def buffered_def)
qed

lemma queue_append_room_keeps:
  assumes "sc_inv s0 c sc reqs ts"
  shows "sc_inv s0 c (queue_append_room sc) reqs ts"
    and "timed (queue_append_room sc) = timed sc" and "same_setup sc0 (queue_append_room sc) = same_setup sc0 sc"
    and "sc_sdir (queue_append_room sc) = sc_sdir sc"
    and "sc_last_step_clock (queue_append_room sc) = sc_last_step_clock sc"
proof -
  have "tracks s0 (queue_append_room sc) reqs ts"
    using assms by (auto simp: queue_append_room_def Let_def sc_inv_def)
  moreover have "buffered (queue_append_room sc)"
  proof -
    have "sc_cap (queue_append_room sc) = 0 \<or> QUEUE_START_SIZE \<le> sc_cap (queue_append_room sc)"
      using assms order_trans [OF _ grow_alloc_ge]
      by (auto simp: queue_append_room_def Let_def sc_inv_def buffered_def)
    then show ?thesis
      using queue_append_room_fits [of sc] assms by (auto simp: buffered_def sc_inv_def)
  qed
  ultimately show "sc_inv s0 c (queue_append_room sc) reqs ts"
    using assms by (auto simp: sc_inv_def queue_append_room_def Let_def)
qed (simp_all add: queue_append_room_def Let_def timed_def same_setup_def)

lemma queue_append_extend_ok:
  assumes "sc_inv s0 c sc reqs ts" and "timed sc" and "c < p" and "sc_next_step_clock sc = p"
    and "p < sc_last_step_clock sc + CLOCK_DIFF_MAX" and "sc_sdir sc = d" and "d = 0 \<or> d = 1"
    and "same_setup sc0 sc"
  shows "appended s0 sc0 (reqs @ map (Pair d) ts) d p (queue_append_extend sc)"
proof -
  let ?r = "let n = length (sc_queue sc)
    in if n > 65535 + 2000
       then queue_flush sc (sc_last_step_clock sc
              + uint32 (sc_queue sc ! (n - 65535) - uint32 (sc_last_step_clock sc)))
       else Inr sc"
  obtain sc' n where r: "?r = Inr sc'"
    and inv: "sc_inv s0 c sc' (reqs @ map (Pair d) (take n ts)) (drop n ts)" and tm: "timed sc'"
    and same: "same_setup sc sc'" "same_pending sc sc'"
    and le: "sc_last_step_clock sc \<le> sc_last_step_clock sc'"
  proof (cases "length (sc_queue sc) > 65535 + 2000")
    case True
    let ?mc = "sc_last_step_clock sc
      + uint32 (sc_queue sc ! (length (sc_queue sc) - 65535) - uint32 (sc_last_step_clock sc))"
    show ?thesis
      using queue_flush_ok [OF assms(1,2), where move_clock = ?mc] that True assms(6) by (auto simp: Let_def)
  next
    case False
    then show ?thesis using that [of sc 0] assms by simp
  qed
  have "appended s0 sc0 ((reqs @ map (Pair d) (take n ts)) @ map (Pair d) (drop n ts)) d p
      (sc_bind (queue_push (queue_append_room sc') p) (\<lambda>sc. Inr (sc\<lparr>sc_next_step_clock := 0\<rparr>)))"
    using queue_append_room_keeps [OF inv] queue_append_room_fits [of sc'] inv tm same assms le
    by (intro queue_push_ok) (auto simp: same_pending_def same_setup_def sc_inv_def)
  moreover have "sc_next_step_clock sc' = p" using same(2) assms(4) by (simp add: same_pending_def)
  ultimately show ?thesis
    using r by (simp add: queue_append_extend_def flip: map_append)
qed

text \<open>A direction change empties the queue first.\<close>

lemma set_next_step_dir_ok:
  assumes "sc_inv s0 c sc reqs ts" and "timed sc" and "c < 9223372036854775808"
    and "d = 0 \<or> d = 1" and "sc_sdir sc \<noteq> d"
  obtains sc' where "set_next_step_dir sc d = Inr sc'"
    and "sc_inv s0 c sc' (reqs @ map (Pair (sc_sdir sc)) ts) []" and "timed sc'" and "same_setup sc sc'"
    and "sc_sdir sc' = d" and "sc_next_step_clock sc' = sc_next_step_clock sc"
    and "sc_next_step_dir sc' = sc_next_step_dir sc"
proof -
  obtain n sc1 where fl: "queue_flush sc UINT64_MAX = Inr sc1"
    and inv: "sc_inv s0 c sc1 (reqs @ map (Pair (sc_sdir sc)) (take n ts)) (drop n ts)" and tm: "timed sc1"
    and same: "same_setup sc sc1" "same_pending sc sc1"
    and fin: "drop n ts = [] \<or> UINT64_MAX \<le> sc_last_step_clock sc1"
    by (rule queue_flush_ok [OF assms(1,2)])
  have e: "drop n ts = []" using fin inv assms(3) by (auto simp: sc_inv_def UINT64_MAX_def)
  then have tk: "take n ts = ts" by simp
  define qm where "qm = (message_alloc_and_encode
      [sc_set_next_step_dir_msgtag sc1, sc_oid sc1, d XOR sc_invert_sdir sc1])
    \<lparr>qm_req_clock := sc_last_step_clock sc1\<rparr>"
  define sc' where "sc' = sc1\<lparr>sc_sdir := d, sc_msg_queue := sc_msg_queue sc1 @ [qm]\<rparr>"
  have tr: "tracks s0 sc1 (reqs @ map (Pair (sc_sdir sc)) ts) []"
    using inv e tk by (simp add: sc_inv_def)
  have "uint32 (d XOR sc_invert_sdir sc1) = d XOR sc_invert_sdir sc1"
    using tr assms(4) by (auto simp: tracks_def uint32_def)
  moreover have "mcu_run sc' s0 = mcu_command (uint32 (sc_queue_step_msgtag sc1))
      (uint32 (sc_set_next_step_dir_msgtag sc1)) (qm_data qm) (mcu_run sc1 s0)"
    by (simp add: mcu_run_def sc'_def)
  ultimately have run: "mcu_run sc' s0 = (mcu_run sc1 s0)\<lparr>ms_dir := d XOR sc_invert_sdir sc1\<rparr>"
    by (simp add: qm_def message_alloc_and_encode_def)
  have "logged s0 sc' = logged s0 sc1" unfolding logged_def run by (simp add: sc'_def)
  then have "tracks s0 sc' (reqs @ map (Pair (sc_sdir sc)) ts) []"
    unfolding tracks_def run using tr assms(4) by (auto simp: tracks_def queued_def sc'_def)
  then have "sc_inv s0 c sc' (reqs @ map (Pair (sc_sdir sc)) ts) []"
    using inv tk by (simp add: sc_inv_def buffered_def sc'_def)
  moreover have "set_next_step_dir sc d = Inr sc'"
    using assms(5) fl by (simp add: set_next_step_dir_def Let_def sc'_def qm_def)
  moreover have "timed sc'" using tm by (simp add: timed_def sc'_def)
  ultimately show ?thesis
    using that same by (auto simp: same_setup_def same_pending_def sc'_def)
qed

lemma queue_append_ok:
  assumes "sc_inv s0 c sc reqs ts" and "timed sc" and "c < p" and "p < 9223372036854775808"
    and "sc_next_step_clock sc = p" and "sc_next_step_dir sc = d" and "d = 0 \<or> d = 1"
  shows "appended s0 sc (reqs @ map (Pair (sc_sdir sc)) ts) d p (queue_append sc)"
proof -
  obtain sc' reqs' ts' where sd: "(if d \<noteq> sc_sdir sc then set_next_step_dir sc d else Inr sc) = Inr sc'"
    and inv: "sc_inv s0 c sc' reqs' ts'" and tm: "timed sc'" and same: "same_setup sc sc'"
    and d: "sc_sdir sc' = d" and nx: "sc_next_step_clock sc' = p"
    and all: "reqs' @ map (Pair d) ts' = reqs @ map (Pair (sc_sdir sc)) ts"
  proof (cases "d = sc_sdir sc")
    case True
    show ?thesis
      by (rule that [OF _ assms(1,2)]) (use True assms(5) in simp_all)
  next
    case False
    then have "sc_sdir sc \<noteq> d" by simp
    moreover have "c < 9223372036854775808" using assms(3,4) by simp
    ultimately obtain sc' where "set_next_step_dir sc d = Inr sc'"
      "sc_inv s0 c sc' (reqs @ map (Pair (sc_sdir sc)) ts) []" "timed sc'" "same_setup sc sc'"
      "sc_sdir sc' = d" "sc_next_step_clock sc' = sc_next_step_clock sc"
      using set_next_step_dir_ok [OF assms(1,2) _ assms(7)] by metis
    then show ?thesis
      by (intro that [of sc' "reqs @ map (Pair (sc_sdir sc)) ts" "[]"]) (use False assms(5) in simp_all)
  qed
  have "appended s0 sc (reqs' @ map (Pair d) ts') d p
     (if p \<ge> sc_last_step_clock sc' + CLOCK_DIFF_MAX then queue_append_far sc'
      else if sc_pos sc' + length (sc_queue sc') \<ge> sc_cap sc' then queue_append_extend sc'
      else sc_bind (queue_push sc' p) (\<lambda>sc. Inr (sc\<lparr>sc_next_step_clock := 0\<rparr>)))"
    using queue_append_far_ok [OF inv tm assms(3) nx d assms(7) same]
      queue_append_extend_ok [OF inv tm assms(3) nx _ d assms(7) same]
      queue_push_ok [OF inv tm assms(3) _ d assms(7) same]
    by (cases "p \<ge> sc_last_step_clock sc' + CLOCK_DIFF_MAX";
        cases "sc_pos sc' + length (sc_queue sc') \<ge> sc_cap sc'"; simp)
  then show ?thesis unfolding queue_append_def assms(6) sd sc_bind_simps nx all .
qed

section \<open>The interface\<close>

text \<open>
  \<open>serves s0 c sc r\<close>: the compressor has taken the requests \<open>r\<close>, none of which is later than
  \<open>c\<close>.
\<close>

fun pending_ok :: "int \<Rightarrow> int \<Rightarrow> stepcompress \<Rightarrow> (int \<times> int) option \<Rightarrow> bool" where
  "pending_ok c0 c sc None = (sc_next_step_clock sc = 0)"
| "pending_ok c0 c sc (Some (d, p)) =
     (sc_next_step_clock sc = p \<and> sc_next_step_dir sc = d \<and> (d = 0 \<or> d = 1) \<and> c0 < p \<and> p \<le> c)"

definition serves :: "mcu_stepper \<Rightarrow> int \<Rightarrow> stepcompress \<Rightarrow> requests \<Rightarrow> bool" where
  "serves s0 c sc r \<longleftrightarrow>
     (\<exists>c0 reqs ts. sc_inv s0 c0 sc reqs ts \<and> rq_steps r = reqs @ map (Pair (sc_sdir sc)) ts \<and>
        pending_ok c0 c sc (rq_pending r) \<and> 0 \<le> c0 \<and> c0 \<le> c) \<and>
     c < 9223372036854775808 \<and> timed sc \<and> 0 < sc_mcu_freq sc"

lemma servesI:
  assumes "sc_inv s0 c0 sc reqs ts" and "rq_steps r = reqs @ map (Pair (sc_sdir sc)) ts"
    and "pending_ok c0 c sc (rq_pending r)" and "0 \<le> c0" and "c0 \<le> c"
    and "c < 9223372036854775808" and "timed sc" and "0 < sc_mcu_freq sc"
  shows "serves s0 c sc r"
  using assms unfolding serves_def by blast

lemma serves_later:
  "serves s0 c sc r \<Longrightarrow> c \<le> c' \<Longrightarrow> c' < 9223372036854775808 \<Longrightarrow> serves s0 c' sc r"
proof -
  assume s: "serves s0 c sc r" and "c \<le> c'" "c' < 9223372036854775808"
  moreover have "pending_ok c0 c' sc o'" if "pending_ok c0 c sc o'" "c \<le> c'" for c0 o'
    using that by (cases o') auto
  ultimately show ?thesis unfolding serves_def by (meson order_trans)
qed

text \<open>What a call achieves.\<close>

definition served :: "mcu_stepper \<Rightarrow> int \<Rightarrow> stepcompress \<Rightarrow> requests \<Rightarrow> sc_result \<Rightarrow> bool" where
  "served s0 c sc r res \<longleftrightarrow>
     res = Inl OutOfBounds \<and> QUEUE_START_SIZE \<le> length (rq_steps r) \<or>
     (\<exists>sc'. res = Inr sc' \<and> serves s0 c sc' r \<and> same_setup sc sc')"

lemma commit_length: "length (rq_steps r) \<le> length (rq_steps (rq_commit r))"
  by (simp add: rq_commit_def split: option.split)

lemma request_length: "length (rq_steps r) \<le> length (rq_steps (request off freq call r))"
  by (cases call) (auto simp: Let_def commit_length split: option.split)

lemma requests_length: "length (rq_steps r) \<le> length (rq_steps (fold (request off freq) calls r))"
  by (induction calls arbitrary: r) (auto intro: order_trans [OF request_length])

lemma commit_served:
  assumes "serves s0 c sc r" and "rq_pending r = Some (d, p)"
  shows "served s0 c sc (rq_commit r) (queue_append sc)"
proof -
  obtain c0 reqs ts where inv: "sc_inv s0 c0 sc reqs ts"
    and steps: "rq_steps r = reqs @ map (Pair (sc_sdir sc)) ts"
    and pend: "sc_next_step_clock sc = p" "sc_next_step_dir sc = d" "d = 0 \<or> d = 1" "c0 < p" "p \<le> c"
    and c: "0 \<le> c0" "c < 9223372036854775808" and tm: "timed sc" and f: "0 < sc_mcu_freq sc"
    using assms by (auto simp: serves_def)
  have "appended s0 sc (reqs @ map (Pair (sc_sdir sc)) ts) d p (queue_append sc)"
    by (rule queue_append_ok [OF inv tm pend(4) _ pend(1-3)]) (use pend(5) c(2) in simp)
  then consider "queue_append sc = Inl OutOfBounds" "QUEUE_START_SIZE \<le> length (rq_steps r)"
    | sc' reqs' ts' where "queue_append sc = Inr sc'" "sc_inv s0 p sc' reqs' ts'" "timed sc'"
      "same_setup sc sc'" "sc_next_step_clock sc' = 0"
      "reqs' @ map (Pair (sc_sdir sc')) ts' = rq_steps r @ [(d, p)]"
    unfolding appended_def steps by blast
  then show ?thesis
  proof cases
    case 2
    have "serves s0 c sc' (rq_commit r)"
      using 2 c pend(4,5) f
      by (intro servesI [of s0 p sc' reqs' ts']) (simp_all add: same_setup_def rq_commit_def assms(2))
    then show ?thesis using 2 by (simp add: served_def)
  qed (use order_trans [OF _ commit_length] in \<open>auto simp: served_def\<close>)
qed

lemma commit_none [simp]: "rq_pending r = None \<Longrightarrow> rq_commit r = r"
  by (simp add: rq_commit_def)

lemma serves_pending:
  assumes "serves s0 c sc r"
  shows "rq_pending r = None \<Longrightarrow> sc_next_step_clock sc = 0"
    and "rq_pending r = Some (d, p) \<Longrightarrow>
      sc_next_step_clock sc = p \<and> sc_next_step_dir sc = d \<and> (d = 0 \<or> d = 1) \<and> 0 < p \<and> p \<le> c"
  using assms by (auto simp: serves_def)

lemma served_same: "serves s0 c sc r \<Longrightarrow> served s0 c sc r (Inr sc)"
  by (simp add: served_def)

lemma stepcompress_commit_served:
  assumes "serves s0 c sc r"
  shows "served s0 c sc (rq_commit r) (stepcompress_commit sc)"
proof (cases "rq_pending r")
  case None
  then show ?thesis
    using assms serves_pending(1) [OF assms] by (simp add: stepcompress_commit_def served_same)
next
  case (Some q)
  obtain d p where q: "q = (d, p)" by fastforce
  then show ?thesis
    using commit_served [OF assms] serves_pending(2) [OF assms] Some by (simp add: stepcompress_commit_def)
qed

lemma served_bind:
  assumes "served s0 c sc r res"
    and "\<And>sc'. res = Inr sc' \<Longrightarrow> serves s0 c sc' r \<Longrightarrow> same_setup sc sc' \<Longrightarrow> served s0 c' sc' r' (f sc')"
    and "length (rq_steps r) \<le> length (rq_steps r')"
  shows "served s0 c' sc r' (sc_bind res f)"
proof (cases res)
  case (Inl e)
  then show ?thesis using assms(1,3) by (auto simp: served_def)
next
  case (Inr sc')
  then have s: "serves s0 c sc' r" "same_setup sc sc'" using assms(1) by (auto simp: served_def)
  from assms(2) [OF Inr s] s(2) same_trans(1) show ?thesis
    unfolding served_def Inr by auto
qed

lemma queue_flush_served:
  assumes "serves s0 c sc r"
  shows "served s0 c sc r (queue_flush sc move_clock)"
proof -
  obtain c0 reqs ts where inv: "sc_inv s0 c0 sc reqs ts"
    and steps: "rq_steps r = reqs @ map (Pair (sc_sdir sc)) ts"
    and pend: "pending_ok c0 c sc (rq_pending r)" and c: "0 \<le> c0" "c0 \<le> c" "c < 9223372036854775808"
    and tm: "timed sc" and f: "0 < sc_mcu_freq sc"
    using assms by (auto simp: serves_def)
  obtain n sc' where fl: "queue_flush sc move_clock = Inr sc'"
    and inv': "sc_inv s0 c0 sc' (reqs @ map (Pair (sc_sdir sc)) (take n ts)) (drop n ts)"
    and tm': "timed sc'" and same: "same_setup sc sc'" "same_pending sc sc'"
    by (rule queue_flush_ok [OF inv tm])
  have "pending_ok c0 c sc' (rq_pending r)"
    using pend same(2) by (cases "rq_pending r") (auto simp: same_pending_def)
  moreover have steps': "rq_steps r = (reqs @ map (Pair (sc_sdir sc)) (take n ts))
      @ map (Pair (sc_sdir sc')) (drop n ts)"
    using steps same(2) by (simp add: same_pending_def flip: map_append)
  moreover have "0 < sc_mcu_freq sc'" using f same(1) by (simp add: same_setup_def)
  ultimately have "serves s0 c sc' r"
    using servesI [OF inv' steps'] tm' c by blast
  then show ?thesis using fl same(1) by (simp add: served_def)
qed

lemma stepcompress_flush_served:
  assumes "serves s0 c sc r"
  shows "served s0 c sc (request off freq (Flush move_clock) r) (stepcompress_flush sc move_clock)"
proof -
  have "served s0 c sc (request off freq (Flush move_clock) r)
      (if sc_next_step_clock sc \<noteq> 0 \<and> move_clock \<ge> sc_next_step_clock sc then queue_append sc else Inr sc)"
  proof (cases "rq_pending r")
    case None
    then show ?thesis using assms serves_pending(1) [OF assms] by (simp add: served_same)
  next
    case (Some q)
    obtain d p where q: "q = (d, p)" by fastforce
    then show ?thesis
      using commit_served [OF assms] serves_pending(2) [OF assms] Some assms by (simp add: served_same)
  qed
  then show ?thesis
    unfolding stepcompress_flush_def by (rule served_bind) (rule queue_flush_served, simp_all)
qed

text \<open>The clock of an appended step is the rounded step time, whatever the last step was.\<close>

lemma append_clock:
  assumes "timed sc" and "0 < sc_mcu_freq sc"
    and "t = clock_of (sc_mcu_time_offset sc) (sc_mcu_freq sc) (print_time + step_time)"
    and "sc_last_step_clock sc \<le> t" and "0 \<le> t" and "t < 9223372036854775808"
  shows "uint64 (sc_last_step_clock sc +
      uint64 (c_trunc ((step_time + (print_time - sc_last_step_print_time sc)) * sc_mcu_freq sc))) = t"
proof -
  let ?l = "sc_last_step_clock sc" and ?f = "sc_mcu_freq sc" and ?o = "sc_mcu_time_offset sc"
  have "(step_time + (print_time - sc_last_step_print_time sc)) * ?f
      = ((print_time + step_time - ?o) * ?f + 1 / 2) - of_int ?l"
    using assms(1,2) by (simp add: timed_def field_simps)
  moreover have "\<lfloor>((print_time + step_time - ?o) * ?f + 1 / 2) - of_int ?l\<rfloor> = t - ?l"
    unfolding assms(3) clock_of_def by (rule floor_diff_of_int)
  ultimately have fl: "\<lfloor>(step_time + (print_time - sc_last_step_print_time sc)) * ?f\<rfloor> = t - ?l" by simp
  then have "0 \<le> (step_time + (print_time - sc_last_step_print_time sc)) * ?f"
    using assms(4) by (metis diff_ge_0_iff_ge zero_le_floor)
  then have "c_trunc ((step_time + (print_time - sc_last_step_print_time sc)) * ?f) = t - ?l"
    using fl by (simp add: c_trunc_def)
  then show ?thesis using assms(5,6) by (simp add: uint64_def mod_add_right_eq)
qed

lemma to_int64_id: "- 9223372036854775808 \<le> x \<Longrightarrow> x < 9223372036854775808 \<Longrightarrow> to_int64 x = x"
  by (simp add: to_int64_def)

text \<open>Storing a later step as the pending one.\<close>

lemma store_pending:
  assumes "serves s0 c sc r" and "rq_pending r = None" and "c < t" and "t < 9223372036854775808"
    and "d = 0 \<or> d = 1"
  shows "serves s0 t (sc\<lparr>sc_next_step_clock := t, sc_next_step_dir := d\<rparr>) (r\<lparr>rq_pending := Some (d, t)\<rparr>)"
proof -
  obtain c0 reqs ts where "sc_inv s0 c0 sc reqs ts" "rq_steps r = reqs @ map (Pair (sc_sdir sc)) ts"
    "0 \<le> c0" "c0 \<le> c" "timed sc" "0 < sc_mcu_freq sc"
    using assms(1) by (auto simp: serves_def)
  then show ?thesis
    using assms(3-5)
    by (intro servesI [of s0 c0 _ reqs ts]) (auto simp: timed_def)
qed

lemma stepcompress_append_served:
  assumes "serves s0 c sc r" and "sc_mcu_time_offset sc = off" and "sc_mcu_freq sc = freq"
    and "t = clock_of off freq (print_time + step_time)" and "c < t" and "t < 9223372036854775808"
    and "d = 0 \<or> d = 1"
  shows "served s0 t sc (request off freq (Append d print_time step_time) r)
           (stepcompress_append sc d print_time step_time)"
proof -
  have f: "timed sc" "0 < sc_mcu_freq sc" "0 \<le> c" "sc_last_step_clock sc \<le> c"
    using assms(1) by (auto simp: serves_def sc_inv_def)
  have clk: "uint64 (sc_last_step_clock sc +
      uint64 (c_trunc ((step_time + (print_time - sc_last_step_print_time sc)) * sc_mcu_freq sc))) = t"
    by (rule append_clock) (use f assms in auto)
  have same: "same_setup sc (sc'\<lparr>sc_next_step_clock := i, sc_next_step_dir := j\<rparr>) = same_setup sc sc'"
    for sc' i j by (simp add: same_setup_def)
  have later: "serves s0 t sc r" by (rule serves_later [OF assms(1)]) (use assms(5,6) in simp_all)
  show ?thesis
  proof (cases "rq_pending r")
    case None
    have "sc_next_step_clock sc = 0" by (rule serves_pending(1) [OF assms(1) None])
    then show ?thesis
      using store_pending [OF assms(1) None assms(5-7)] None assms(4) clk
      by (simp add: stepcompress_append_def Let_def served_def same)
  next
    case (Some q)
    obtain e p where q: "q = (e, p)" by fastforce
    have p: "sc_next_step_clock sc = p" "sc_next_step_dir sc = e" "0 < p" "p \<le> c"
      using serves_pending(2) [OF assms(1), of e p] Some q by auto
    have diff: "to_int64 (t - p) = t - p" using p assms(5,6) by (intro to_int64_id) auto
    show ?thesis
    proof (cases "d \<noteq> e \<and> of_int (t - p) < SDS_FILTER_TIME * freq")
      case True
      have "serves s0 t (sc\<lparr>sc_next_step_clock := 0, sc_next_step_dir := d\<rparr>) (r\<lparr>rq_pending := None\<rparr>)"
        using later by (auto simp: serves_def timed_def)
      then show ?thesis
        using True p Some q assms(3,4) clk diff
        by (simp add: stepcompress_append_def Let_def served_def same)
    next
      case False
      have "served s0 t sc ((rq_commit r)\<lparr>rq_pending := Some (d, t)\<rparr>)
          (sc_bind (queue_append sc) (\<lambda>sc. Inr (sc\<lparr>sc_next_step_clock := t, sc_next_step_dir := d\<rparr>)))"
      proof (rule served_bind [OF commit_served [OF assms(1)]])
        show "rq_pending r = Some (e, p)" using Some q by simp
        fix sc'
        assume "serves s0 c sc' (rq_commit r)"
        moreover have "rq_pending (rq_commit r) = None" using Some by (simp add: rq_commit_def)
        ultimately show "served s0 t sc' ((rq_commit r)\<lparr>rq_pending := Some (d, t)\<rparr>)
            (Inr (sc'\<lparr>sc_next_step_clock := t, sc_next_step_dir := d\<rparr>))"
          using store_pending assms(5-7) by (simp add: served_def same_setup_def)
      qed simp
      then show ?thesis
        using False p Some q assms(3,4) clk diff by (auto simp: stepcompress_append_def Let_def)
    qed
  qed
qed

text \<open>The whole history of calls.\<close>

lemma sc_step_served:
  assumes "serves s0 c sc r" and "sc_mcu_time_offset sc = off" and "sc_mcu_freq sc = freq"
    and "in_order off freq c (call # calls)"
  obtains c1 where "c \<le> c1" and "in_order off freq c1 calls"
    and "served s0 c1 sc (request off freq call r) (sc_step call sc)"
proof (cases call)
  case (Append d pt st)
  let ?t = "clock_of off freq (pt + st)"
  have h: "d = 0 \<or> d = 1" "c < ?t" "?t < 9223372036854775808" "in_order off freq ?t calls"
    using assms(4) unfolding Append by (simp_all add: Let_def)
  have "served s0 ?t sc (request off freq call r) (sc_step call sc)"
    unfolding Append sc_step.simps
    by (rule stepcompress_append_served [OF assms(1-3) refl h(2,3,1)])
  with h that [of ?t] show ?thesis by simp
next
  case Commit
  have "served s0 c sc (request off freq call r) (sc_step call sc)"
    unfolding Commit sc_step.simps request.simps by (rule stepcompress_commit_served [OF assms(1)])
  with that [of c] assms(4) Commit show ?thesis by simp
next
  case (Flush mc)
  have "served s0 c sc (request off freq call r) (sc_step call sc)"
    unfolding Flush sc_step.simps by (rule stepcompress_flush_served [OF assms(1)])
  with that [of c] assms(4) Flush show ?thesis by simp
qed

lemma sc_run_served:
  assumes "serves s0 c sc r" and "sc_mcu_time_offset sc = off" and "sc_mcu_freq sc = freq"
    and "in_order off freq c calls"
  shows "\<exists>c'. c \<le> c' \<and> served s0 c' sc (fold (request off freq) calls r) (sc_run calls sc)"
  using assms
proof (induction calls arbitrary: c sc r)
  case Nil
  then show ?case by (auto simp: served_def)
next
  case (Cons call calls)
  obtain c1 where c1: "c \<le> c1" "in_order off freq c1 calls"
    "served s0 c1 sc (request off freq call r) (sc_step call sc)"
    by (rule sc_step_served [OF Cons.prems])
  show ?case
  proof (cases "sc_step call sc")
    case (Inl e)
    then have "served s0 c1 sc (fold (request off freq) (call # calls) r) (sc_run (call # calls) sc)"
      using c1(3) order_trans [OF _ requests_length] by (auto simp: served_def)
    then show ?thesis using c1(1) by blast
  next
    case (Inr sc1)
    then have s1: "serves s0 c1 sc1 (request off freq call r)" "same_setup sc sc1"
      using c1(3) by (auto simp: served_def)
    have conf: "sc_mcu_time_offset sc1 = off" "sc_mcu_freq sc1 = freq"
      using s1(2) Cons.prems(2,3) by (simp_all add: same_setup_def)
    obtain c' where c': "c1 \<le> c'"
      "served s0 c' sc1 (fold (request off freq) (call # calls) r) (sc_run calls sc1)"
      using Cons.IH [OF s1(1) conf c1(2)] by auto
    have "served s0 c' sc (fold (request off freq) (call # calls) r) (sc_run calls sc1)"
      using c'(2) same_trans(1) [OF s1(2)] unfolding served_def by blast
    then show ?thesis using Inr c1(1) c'(1) by (intro exI [of _ c']) simp
  qed
qed

text \<open>A compressor as the stepper code sets it up, and a micro-controller that has made no step.\<close>

definition new_stepcompress :: "int \<Rightarrow> int \<Rightarrow> int \<Rightarrow> int \<Rightarrow> int \<Rightarrow> real \<Rightarrow> real \<Rightarrow> stepcompress" where
  "new_stepcompress oid max_error qtag dtag invert off freq =
     stepcompress_set_time
       (stepcompress_set_invert_sdir
         (stepcompress_fill (stepcompress_alloc_compat oid) oid max_error qtag dtag) invert) off freq"

definition mcu_idle :: "int \<Rightarrow> mcu_stepper" where
  "mcu_idle level = \<lparr>ms_clock = 0, ms_dir = level, ms_steps = []\<rparr>"

definition no_requests :: requests where
  "no_requests = \<lparr>rq_pending = None, rq_steps = []\<rparr>"

lemmas new_defs = new_stepcompress_def stepcompress_set_time_def stepcompress_set_invert_sdir_def
  stepcompress_fill_def stepcompress_alloc_compat_def stepcompress_alloc_def calc_last_step_print_time_def

lemma new_serves:
  fixes oid max_error qtag dtag invert level :: int and off freq :: real
  assumes "0 < freq" and "0 \<le> max_error" and "uint32 qtag \<noteq> uint32 dtag"
  defines "sc \<equiv> new_stepcompress oid max_error qtag dtag invert off freq"
  shows "serves (mcu_idle level) 0 sc no_requests"
    and "sc_mcu_time_offset sc = off" and "sc_mcu_freq sc = freq" and "sc_max_error sc = max_error"
    and "sc_invert_sdir sc = (if invert = 0 then 0 else 1)"
proof -
  have "tracks (mcu_idle level) sc [] []"
    using assms(2,3)
    by (simp add: tracks_def logged_def history_moves_def queued_def sc_def new_defs Let_def
        mcu_run_def mcu_idle_def uint32_def net_def)
  then have "sc_inv (mcu_idle level) 0 sc [] []"
    by (simp add: sc_inv_def buffered_def sc_def new_defs Let_def)
  then show "serves (mcu_idle level) 0 sc no_requests"
    using assms(1)
    by (intro servesI [of _ 0 sc "[]" "[]"])
      (simp_all add: no_requests_def timed_def sc_def new_defs Let_def)
qed (simp_all add: sc_def new_defs Let_def)

lemma sc_run_append: "sc_run (cs @ ds) sc = sc_bind (sc_run cs sc) (sc_run ds)"
  by (induction cs arbitrary: sc) (auto simp: sc_bind_def split: sum.split)

lemma sc_bind_Inr [simp]: "sc_bind r Inr = r"
  by (simp add: sc_bind_def split: sum.split)

text \<open>Every request is counted: a filtered pair of steps cancels.\<close>

definition pending_net :: "requests \<Rightarrow> int" where
  "pending_net r = (case rq_pending r of None \<Rightarrow> 0 | Some p \<Rightarrow> net [p])"

lemma commit_net: "net (rq_steps (rq_commit r)) + pending_net (rq_commit r) = net (rq_steps r) + pending_net r"
  by (simp add: rq_commit_def pending_net_def split: option.split)

lemma requested_net:
  assumes "in_order off freq c calls" and "\<forall>d p. rq_pending r = Some (d, p) \<longrightarrow> d = 0 \<or> d = 1"
  shows "net (rq_steps (fold (request off freq) calls r)) + pending_net (fold (request off freq) calls r)
           = net (rq_steps r) + pending_net r + requested calls"
  using assms
proof (induction calls arbitrary: c r)
  case (Cons call calls)
  let ?r = "request off freq call r"
  have one: "net (rq_steps ?r) + pending_net ?r = net (rq_steps r) + pending_net r + requested [call]"
    and dir: "\<forall>d p. rq_pending ?r = Some (d, p) \<longrightarrow> d = 0 \<or> d = 1"
    using Cons.prems
    by (cases call; cases "rq_pending r";
        force simp: Let_def pending_net_def rq_commit_def net_def split: if_splits)+
  obtain c1 where "in_order off freq c1 calls" using Cons.prems(1) by (cases call) (auto simp: Let_def)
  from Cons.IH [OF this dir] one show ?case by (cases call) simp_all
qed simp

text \<open>A full flush leaves nothing behind.\<close>

lemma full_flush_empty:
  assumes "serves s0 c sc r" and "stepcompress_flush sc UINT64_MAX = Inr sc'"
  shows "sc_queue sc' = []" and "rq_pending (request off freq (Flush UINT64_MAX) r) = None"
proof -
  show "rq_pending (request off freq (Flush UINT64_MAX) r) = None"
    using assms(1)
    by (cases "rq_pending r") (auto simp: serves_def UINT64_MAX_def rq_commit_def)
  obtain sc1 r1 where fl: "queue_flush sc1 UINT64_MAX = Inr sc'" and s1: "serves s0 c sc1 r1"
  proof (cases "sc_next_step_clock sc \<noteq> 0 \<and> UINT64_MAX \<ge> sc_next_step_clock sc")
    case True
    then obtain d p where "rq_pending r = Some (d, p)"
      using serves_pending(1) [OF assms(1)] by (cases "rq_pending r") auto
    from commit_served [OF assms(1) this] that assms(2) True show ?thesis
      by (auto simp: served_def stepcompress_flush_def)
  next
    case False
    then have "stepcompress_flush sc UINT64_MAX = queue_flush sc UINT64_MAX"
      by (auto simp: stepcompress_flush_def)
    then show ?thesis using that [of sc r] assms by simp
  qed
  obtain c0 reqs ts where inv: "sc_inv s0 c0 sc1 reqs ts" and tm: "timed sc1" and c: "c0 < 9223372036854775808"
    using s1 by (auto simp: serves_def)
  obtain n sc2 where "queue_flush sc1 UINT64_MAX = Inr sc2"
    and inv': "sc_inv s0 c0 sc2 (reqs @ map (Pair (sc_sdir sc1)) (take n ts)) (drop n ts)"
    and fin: "drop n ts = [] \<or> UINT64_MAX \<le> sc_last_step_clock sc2"
    by (rule queue_flush_ok [OF inv tm])
  moreover have "sc_last_step_clock sc2 \<le> c0" using inv' by (simp add: sc_inv_def)
  ultimately show "sc_queue sc' = []"
    using fl c sc_inv_queue_len [OF inv'] by (auto simp: UINT64_MAX_def)
qed


text \<open>
  A run that meets the filter: of four requests the second and third are a reversal within
  750 microseconds and cancel; the other two steps are executed one and four ticks early.
\<close>

definition sample_calls :: "sc_call list" where
  "sample_calls = [Append 1 (1 / 1000) 0, Append 1 (2 / 1000) 0, Append 0 (21 / 10000) 0,
     Append 1 (4 / 1000) 0, Commit]"

lemma sample_run:
  "case sc_run (sample_calls @ [Flush UINT64_MAX]) (new_stepcompress 3 5 1 2 0 0 1000000) of
     Inl e \<Rightarrow> False
   | Inr sc \<Rightarrow> ms_steps (mcu_run sc (mcu_idle 0)) = [(1, 996), (1, 3999)]"
  by code_simp


section \<open>Past positions\<close>

text \<open>Expiring the history keeps every position from the expiry clock on.\<close>

lemma keep_Cons:
  "rev (dropWhile P (rev (x # xs))) =
     (if rev (dropWhile P (rev xs)) = [] then (if P x then [] else [x])
      else x # rev (dropWhile P (rev xs)))"
  by (simp add: dropWhile_append)

lemma find_past_expire:
  assumes "history_ok hist pos clk" and "end_clock \<le> clock"
  shows "find_past pos (rev (dropWhile (\<lambda>hs. hs_last_clock hs \<le> end_clock) (rev hist))) clock
           = find_past pos hist clock"
  using assms(1)
proof (induction hist arbitrary: pos clk)
  case (Cons hs rest)
  let ?keep = "rev (dropWhile (\<lambda>hs. hs_last_clock hs \<le> end_clock) (rev rest))"
  have wf: "hs_wf hs" and pos: "pos = hs_start_position hs + hs_step_count hs"
    and rest: "history_ok rest (hs_start_position hs) (hs_first_clock hs)"
    using Cons.prems by auto
  note IH = Cons.IH [OF rest]
  show ?case
  proof (cases "?keep = []")
    case True
    have "find_past (hs_start_position hs) rest clock = hs_start_position hs"
      using IH unfolding True by simp
    then show ?thesis
      unfolding keep_Cons using True pos hs_wf_order [OF wf] assms(2) by auto
  next
    case False
    then have "rev (dropWhile (\<lambda>hs. hs_last_clock hs \<le> end_clock) (rev (hs # rest))) = hs # ?keep"
      unfolding keep_Cons by (simp only: if_False)
    then show ?thesis using IH by simp
  qed
qed simp

text \<open>
  C37.  The past position the host reads back is the position the stepper had.  After any
  requests in clock order, commits and flushes, the history holds the executed steps with their
  absolute clocks, and the position reported for a clock, found by integer division or by the
  quadratic formula inside a command, is exactly the signed count of the steps executed at or
  before that clock.  Expiring the history changes no answer from the expiry clock on.
\<close>

theorem past_position_of_executed_steps:
  assumes "0 < freq" and "0 \<le> max_error" and "uint32 qtag \<noteq> uint32 dtag"
    and "in_order off freq 0 calls"
    and "sc_run calls (new_stepcompress oid max_error qtag dtag invert off freq) = Inr sc"
  shows "ms_steps (mcu_run sc (mcu_idle level)) =
           map (\<lambda>(d, p). (d XOR (if invert = 0 then 0 else 1), uint32 p)) (history_moves (sc_history sc))
       \<and> stepcompress_find_past_position sc clock =
           net (filter (\<lambda>(d, p). p \<le> clock) (history_moves (sc_history sc)))
       \<and> (end_clock \<le> clock \<longrightarrow>
            stepcompress_find_past_position (stepcompress_history_expire sc end_clock) clock =
              stepcompress_find_past_position sc clock)"
proof -
  let ?s0 = "mcu_idle level" and ?sc0 = "new_stepcompress oid max_error qtag dtag invert off freq"
  have new: "serves ?s0 0 ?sc0 no_requests" "sc_mcu_time_offset ?sc0 = off" "sc_mcu_freq ?sc0 = freq"
    "sc_invert_sdir ?sc0 = (if invert = 0 then 0 else 1)"
    by (rule new_serves [OF assms(1-3)])+
  obtain c r where "served ?s0 c ?sc0 r (sc_run calls ?sc0)"
    using sc_run_served [OF new(1-3) assms(4)] by blast
  then have "serves ?s0 c sc r" "same_setup ?sc0 sc" using assms(5) by (auto simp: served_def)
  then have lg: "logged ?s0 sc" and iv: "sc_invert_sdir sc = (if invert = 0 then 0 else 1)"
    using new(4) by (auto simp: serves_def sc_inv_def tracks_def same_setup_def)
  have ok: "history_ok (sc_history sc) (sc_last_position sc) (sc_last_step_clock sc)"
    using lg by (simp add: logged_def)
  show ?thesis
    using lg iv find_past_exact [OF ok, of clock] find_past_expire [OF ok, of end_clock clock]
    by (simp add: logged_def stepcompress_find_past_position_def stepcompress_history_expire_def
        free_history_def net_until_net)
qed

lemma sample_history:
  "case sc_run (sample_calls @ [Flush UINT64_MAX]) (new_stepcompress 3 5 1 2 0 0 1000000) of
     Inl e \<Rightarrow> False
   | Inr sc \<Rightarrow> history_moves (sc_history sc) = [(1, 996), (1, 3999)]"
  by code_simp

theorem past_position_of_executed_steps_witness:
  "\<exists>sc. sc_run (sample_calls @ [Flush UINT64_MAX]) (new_stepcompress 3 5 1 2 0 0 1000000) = Inr sc
      \<and> stepcompress_find_past_position sc 995 = 0
      \<and> stepcompress_find_past_position sc 2000 = 1
      \<and> stepcompress_find_past_position (stepcompress_history_expire sc 1500) 2000 = 1"
proof -
  obtain sc where run: "sc_run (sample_calls @ [Flush UINT64_MAX])
      (new_stepcompress 3 5 1 2 0 0 1000000) = Inr sc"
    and moves: "history_moves (sc_history sc) = [(1, 996), (1, 3999)]"
    using sample_history by (auto split: sum.splits)
  have ord: "in_order 0 1000000 0 (sample_calls @ [Flush UINT64_MAX])"
    by (simp add: sample_calls_def clock_of_def Let_def)
  have "stepcompress_find_past_position sc clock = net (filter (\<lambda>(d, p). p \<le> clock) [(1, 996), (1, 3999)])"
    and "1500 \<le> clock \<Longrightarrow> stepcompress_find_past_position (stepcompress_history_expire sc 1500) clock
      = stepcompress_find_past_position sc clock" for clock
    using past_position_of_executed_steps [OF _ _ _ ord run, where level = 0 and clock = clock
        and end_clock = 1500] moves
    by (simp_all add: uint32_def)
  then show ?thesis using run by (simp add: net_def)
qed

section \<open>The unchecked write\<close>

text \<open>
  \<open>queue_append_far\<close> stores the step without the test for room its sibling \<open>queue_append\<close> makes.
  Here the queue holds two steps and ends where its allocation ends; a step more than
  \<^const>\<open>CLOCK_DIFF_MAX\<close> after the last one makes the flush send the first step only, which does not
  move \<open>queue_next\<close>, and the write goes one entry past the allocation.
\<close>

definition full_queue :: stepcompress where
  "full_queue = (new_stepcompress 3 5 1 2 0 0 1)
     \<lparr>sc_queue := [1000, 700000000], sc_pos := 1022, sc_cap := 1024, sc_sdir := 1,
      sc_next_step_clock := 805306868, sc_next_step_dir := 1\<rparr>"

lemma queue_append_far_overrun:
  "buffered full_queue" "queued full_queue [1000, 700000000]"
  "queue_append full_queue = Inl OutOfBounds"
proof -
  show "buffered full_queue" "queued full_queue [1000, 700000000]"
    by (simp_all add: buffered_def queued_def full_queue_def new_defs Let_def QUEUE_START_SIZE_def
        uint32_def CLOCK_DIFF_MAX_def)
  show "queue_append full_queue = Inl OutOfBounds"
  proof -
    have "case queue_append full_queue of Inl OutOfBounds \<Rightarrow> True | _ \<Rightarrow> False" by code_simp
    then show ?thesis by (auto split: sum.splits sc_error.splits)
  qed
qed

end
