(* ===== verification/ConfigAccess.thy ===== *)
theory ConfigAccess
  imports GoStrings
begin

text \<open>
  Reading options of a configuration section: the accessors of the wrapper
  (\<^verbatim>\<open>project/goklipper.go\<close>), the raw parser they call (\<^verbatim>\<open>common/configparser\<close>), the range
  checks of \<^verbatim>\<open>internal/pkg/config/validation.go\<close>, and the parts of \<open>strconv\<close> the parser uses.

  A section maps option names to their text.  The record of which options were read is kept
  for the status report only and is left out.
\<close>

section \<open>Numbers in text\<close>

definition digit_value :: "char \<Rightarrow> nat option" where
  "digit_value c =
     (let n = of_char c :: nat in if 48 \<le> n \<and> n \<le> 57 then Some (n - 48) else None)"

fun read_digits :: "nat \<Rightarrow> string \<Rightarrow> nat option" where
  "read_digits acc [] = Some acc"
| "read_digits acc (c # cs) =
     (case digit_value c of None \<Rightarrow> None | Some d \<Rightarrow> read_digits (10 * acc + d) cs)"

definition split_sign :: "string \<Rightarrow> bool \<times> string" where
  "split_sign s = (case s of [] \<Rightarrow> (False, [])
     | c # cs \<Rightarrow> if c = CHR ''-'' then (True, cs) else if c = CHR ''+'' then (False, cs) else (False, s))"

text \<open>\<open>strconv.Atoi\<close>: an optional sign and decimal digits, within 64 bits.\<close>

definition Atoi :: "string \<Rightarrow> int option" where
  "Atoi s =
     (let (neg, ds) = split_sign s
      in if ds = [] then None
         else case read_digits 0 ds of None \<Rightarrow> None
           | Some n \<Rightarrow> let v = (if neg then - int n else int n)
                        in if - (2 ^ 63) \<le> v \<and> v < 2 ^ 63 then Some v else None)"

text \<open>
  The value \<open>strconv.ParseInt\<close> returns with or without an error for a width in bits: zero for a
  text that is no number, the nearest bound for a number beyond the width.  \<open>Atoi\<close> has 64 bits.
\<close>

definition ParseInt_value :: "nat \<Rightarrow> string \<Rightarrow> int" where
  "ParseInt_value bits s =
     (let (neg, ds) = split_sign s; digits = takeWhile (\<lambda>c. digit_value c \<noteq> None) ds
      in if ds = [] then 0
         else case read_digits 0 digits of None \<Rightarrow> 0
           | Some n \<Rightarrow>
               if digits \<noteq> ds \<and> n < 2 ^ bits then 0
               else if neg then max (- int n) (- (2 ^ (bits - 1))) else min (int n) (2 ^ (bits - 1) - 1))"

definition Atoi_value :: "string \<Rightarrow> int" where
  "Atoi_value = ParseInt_value 64"

definition ParseBool :: "string \<Rightarrow> bool option" where
  "ParseBool s =
     (if s \<in> set [''1'', ''t'', ''T'', ''true'', ''TRUE'', ''True''] then Some True
      else if s \<in> set [''0'', ''f'', ''F'', ''false'', ''FALSE'', ''False''] then Some False
      else None)"

text \<open>\<open>strconv.ParseFloat\<close> on decimal numbers; infinities, NaN and hexadecimal are not numbers here.\<close>

definition is_digit :: "char \<Rightarrow> bool" where
  "is_digit c \<longleftrightarrow> digit_value c \<noteq> None"

definition read_exponent :: "string \<Rightarrow> int option" where
  "read_exponent s =
     (case s of [] \<Rightarrow> Some 0
      | c # cs \<Rightarrow> if c = CHR ''e'' \<or> c = CHR ''E'' then
          let (neg, ds) = split_sign cs
          in if ds = [] then None else map_option (\<lambda>n. if neg then - int n else int n) (read_digits 0 ds)
        else None)"

definition scale10 :: "real \<Rightarrow> int \<Rightarrow> real" where
  "scale10 x e = (if e < 0 then x / 10 ^ nat (- e) else x * 10 ^ nat e)"

definition ParseFloat :: "string \<Rightarrow> real option" where
  "ParseFloat s =
     (let (neg, t) = split_sign s;
          whole = takeWhile is_digit t;
          rest = dropWhile is_digit t;
          frac = (case rest of [] \<Rightarrow> [] | c # cs \<Rightarrow> if c = CHR ''.'' then takeWhile is_digit cs else []);
          tail = (case rest of [] \<Rightarrow> [] | c # cs \<Rightarrow> if c = CHR ''.'' then dropWhile is_digit cs else rest)
      in if whole = [] \<and> frac = [] then None
         else case (read_digits 0 (whole @ frac), read_exponent tail) of
           (Some n, Some e) \<Rightarrow> (let v = scale10 (real n) (e - int (length frac)) in Some (if neg then - v else v))
         | _ \<Rightarrow> None)"

section \<open>The parsed file\<close>

type_synonym config_section = "string \<rightharpoonup> string"

definition Has_option :: "config_section \<Rightarrow> string \<Rightarrow> bool" where
  "Has_option sec option = (sec option \<noteq> None)"

text \<open>A text that does not parse is logged and read as zero.\<close>

definition raw_Getint :: "config_section \<Rightarrow> string \<Rightarrow> int" where
  "raw_Getint sec option =
     (case sec option of None \<Rightarrow> 0 | Some s \<Rightarrow> (case Atoi s of None \<Rightarrow> 0 | Some n \<Rightarrow> n))"

text \<open>On failure the parser of floats returns the \<open>int\<close> zero, which is not a \<open>float64\<close>.\<close>

definition raw_Getfloat :: "config_section \<Rightarrow> string \<Rightarrow> real option" where
  "raw_Getfloat sec option = (case sec option of None \<Rightarrow> None | Some s \<Rightarrow> ParseFloat s)"

definition raw_Getboolean :: "config_section \<Rightarrow> string \<Rightarrow> bool option" where
  "raw_Getboolean sec option = (case sec option of None \<Rightarrow> None | Some s \<Rightarrow> ParseBool s)"

section \<open>Range checks\<close>

definition ValidateIntRange :: "string \<Rightarrow> int \<Rightarrow> int \<Rightarrow> int \<Rightarrow> unit result" where
  "ValidateIntRange option v minval maxval =
     (if minval \<noteq> 0 \<and> v < minval then Inl (GoError (option @ '' must have minimum''))
      else if maxval \<noteq> 0 \<and> v > maxval then Inl (GoError (option @ '' must have maximum''))
      else Inr ())"

definition ValidateInt64Range :: "string \<Rightarrow> int \<Rightarrow> int \<Rightarrow> int \<Rightarrow> unit result" where
  "ValidateInt64Range option v minval maxval =
     (if minval \<noteq> 0 \<and> v < minval then Inl (GoError (option @ '' must have minimum''))
      else if maxval \<noteq> 0 \<and> v > maxval then Inl (GoError (option @ '' must have maximum''))
      else Inr ())"

definition ValidateFloatRange :: "string \<Rightarrow> real \<Rightarrow> real \<Rightarrow> real \<Rightarrow> real \<Rightarrow> real \<Rightarrow> unit result" where
  "ValidateFloatRange option v minval maxval above1 below1 =
     (if minval \<noteq> 0 \<and> v < minval then Inl (GoError (option @ '' must have minimum''))
      else if maxval \<noteq> 0 \<and> v > maxval then Inl (GoError (option @ '' must have maximum''))
      else if above1 \<noteq> 0 \<and> v \<le> above1 then Inl (GoError (option @ '' must be above''))
      else if below1 \<noteq> 0 \<and> v \<ge> below1 then Inl (GoError (option @ '' must be below''))
      else Inr ())"

section \<open>The accessors\<close>

text \<open>
  A default is a Go value of some type, or the sentinel that makes the option mandatory.
  \<open>DefNaN\<close> is the float that marks an absent value.
\<close>

datatype cfg_default = DefInt int | DefInt64 int | DefBool bool | DefFloat real | DefNaN | DefNone | Sentinel

definition getDefault :: "config_section \<Rightarrow> string \<Rightarrow> cfg_default \<Rightarrow> cfg_default option result" where
  "getDefault sec option d =
     (if Has_option sec option then Inr None
      else if d = Sentinel then Inl (GoPanic (option @ '' must be specified''))
      else Inr (Some d))"

fun default_int :: "cfg_default \<Rightarrow> int" where
  "default_int (DefInt n) = n"
| "default_int _ = 0"

fun default_int64 :: "cfg_default \<Rightarrow> int" where
  "default_int64 (DefInt64 n) = n"
| "default_int64 _ = 0"

fun default_bool :: "cfg_default \<Rightarrow> bool" where
  "default_bool (DefBool b) = b"
| "default_bool _ = False"

text \<open>\<open>None\<close> is NaN.\<close>

fun default_float :: "cfg_default \<Rightarrow> real option" where
  "default_float (DefFloat x) = Some x"
| "default_float DefNaN = None"
| "default_float _ = Some 0"

definition wrapper_Getint :: "config_section \<Rightarrow> string \<Rightarrow> cfg_default \<Rightarrow> int \<Rightarrow> int \<Rightarrow> int result" where
  "wrapper_Getint sec option d minval maxval =
     bindR (getDefault sec option d) (\<lambda>dv.
       case dv of Some v \<Rightarrow> Inr (default_int v)
       | None \<Rightarrow> let n = raw_Getint sec option
                 in bindR (ValidateIntRange option n minval maxval) (\<lambda>_. Inr n))"

text \<open>The raw value is an \<open>int\<close>, so the assertion that it is an \<open>int64\<close> fails.\<close>

definition wrapper_Getint64 :: "config_section \<Rightarrow> string \<Rightarrow> cfg_default \<Rightarrow> int \<Rightarrow> int \<Rightarrow> int result" where
  "wrapper_Getint64 sec option d minval maxval =
     bindR (getDefault sec option d) (\<lambda>dv.
       case dv of Some v \<Rightarrow> Inr (default_int64 v) | None \<Rightarrow> Inl TypeAssertion)"

definition wrapper_Getfloat :: "config_section \<Rightarrow> string \<Rightarrow> cfg_default \<Rightarrow> real \<Rightarrow> real \<Rightarrow> real \<Rightarrow> real \<Rightarrow> real option result" where
  "wrapper_Getfloat sec option d minval maxval above1 below1 =
     bindR (getDefault sec option d) (\<lambda>dv.
       case dv of Some v \<Rightarrow> Inr (default_float v)
       | None \<Rightarrow> (case raw_Getfloat sec option of
           None \<Rightarrow> Inl (GoPanic (''Unable to parse option '' @ option))
         | Some n \<Rightarrow> bindR (ValidateFloatRange option n minval maxval above1 below1) (\<lambda>_. Inr (Some n))))"

definition wrapper_Getboolean :: "config_section \<Rightarrow> string \<Rightarrow> cfg_default \<Rightarrow> bool result" where
  "wrapper_Getboolean sec option d =
     bindR (getDefault sec option d) (\<lambda>dv.
       case dv of Some v \<Rightarrow> Inr (default_bool v)
       | None \<Rightarrow> (case raw_Getboolean sec option of None \<Rightarrow> Inl TypeAssertion | Some b \<Rightarrow> Inr b))"

section \<open>Round trips through text\<close>

lemma digit_char_value: "d < 10 \<Longrightarrow> digit_value (digit_char d) = Some d"
proof -
  assume "d < 10"
  then have "d \<in> set [0..<10]" by simp
  moreover have "list_all (\<lambda>d. digit_value (digit_char d) = Some d) [0..<10]" by code_simp
  ultimately show ?thesis by (simp only: list_all_iff)
qed

lemma read_digits_append:
  "read_digits acc (xs @ ys) = (case read_digits acc xs of None \<Rightarrow> None | Some n \<Rightarrow> read_digits n ys)"
  by (induction xs arbitrary: acc) (auto split: option.splits)

lemma read_nat_digits: "read_digits acc (nat_digits 10 n) = Some (10 ^ length (nat_digits 10 n) * acc + n)"
proof (induction "10::nat" n arbitrary: acc rule: nat_digits.induct)
  case (1 n)
  show ?case
  proof (cases "n < 10")
    case True
    then show ?thesis by (simp add: nat_digits.simps digit_char_value)
  next
    case False
    then have n: "nat_digits 10 n = nat_digits 10 (n div 10) @ [digit_char (n mod 10)]"
      by (subst nat_digits.simps) simp
    have "n mod 10 < 10" by simp
    then show ?thesis
      using False "1.hyps" unfolding n by (simp add: read_digits_append digit_char_value algebra_simps)
  qed
qed

lemma nat_digits_Cons:
  obtains c cs where "nat_digits 10 n = c # cs" "digit_value c \<noteq> None"
proof -
  have "nat_digits 10 n \<noteq> []" by (subst nat_digits.simps) simp
  then obtain c cs where c: "nat_digits 10 n = c # cs" by (cases "nat_digits 10 n") auto
  moreover have "digit_value c \<noteq> None" using read_nat_digits[of 0 n] c by (auto split: option.splits)
  ultimately show thesis using that by blast
qed

lemma Atoi_FormatInt:
  assumes "- (2 ^ 63) \<le> n" "n < 2 ^ 63"
  shows "Atoi (FormatInt n) = Some n"
proof -
  have s: "split_sign (nat_digits 10 m) = (False, nat_digits 10 m)" "nat_digits 10 m \<noteq> []" for m
    by (rule nat_digits_Cons[of m]; auto simp: split_sign_def digit_value_def)+
  show ?thesis
  proof (cases "n < 0")
    case True
    then have "split_sign (FormatInt n) = (True, nat_digits 10 (nat (- n)))"
      by (simp add: FormatInt_def split_sign_def)
    then show ?thesis using True assms s(2) read_nat_digits[of 0 "nat (- n)"] by (simp add: Atoi_def)
  next
    case False
    then show ?thesis using assms s[of "nat n"] read_nat_digits[of 0 "nat n"] by (simp add: Atoi_def FormatInt_def)
  qed
qed

text \<open>
  C31.  Reading an integer option whose text is a number in decimal: the accessor returns the number
  exactly when it is within the bounds that are not zero, and fails otherwise, so a bound of zero
  is no bound at all; the accessor for 64-bit integers fails on every option that is present.
\<close>

theorem Getint_of_text:
  assumes "sec option = Some (FormatInt n)" and "- (2 ^ 63) \<le> n" and "n < 2 ^ 63"
  shows "(wrapper_Getint sec option d minval maxval = Inr n \<longleftrightarrow>
           (minval = 0 \<or> minval \<le> n) \<and> (maxval = 0 \<or> n \<le> maxval)) \<and>
    (isl (wrapper_Getint sec option d minval maxval) \<longleftrightarrow>
           minval \<noteq> 0 \<and> n < minval \<or> maxval \<noteq> 0 \<and> maxval < n) \<and>
    isl (wrapper_Getint64 sec option d minval maxval)"
proof -
  have "raw_Getint sec option = n" "Has_option sec option"
    using assms Atoi_FormatInt[of n] by (simp_all add: raw_Getint_def Has_option_def)
  then show ?thesis
    by (auto simp: wrapper_Getint_def wrapper_Getint64_def getDefault_def ValidateIntRange_def)
qed

theorem Getint_of_text_witness:
  "wrapper_Getint (map_of [(''driver_TOFF'', ''-1'')]) ''driver_TOFF'' (DefInt 3) 0 15 = Inr (- 1) \<and>
   isl (wrapper_Getint (map_of [(''driver_TOFF'', ''-1'')]) ''driver_TOFF'' (DefInt 3) 1 15)"
proof -
  have s: "map_of [(''driver_TOFF'', ''-1'')] ''driver_TOFF'' = Some (FormatInt (- 1))" by code_simp
  show ?thesis
    using s Getint_of_text[where sec = "map_of [(''driver_TOFF'', ''-1'')]" and option = "''driver_TOFF''" and n = "- 1"
        and d = "DefInt 3" and minval = 0 and maxval = 15]
      Getint_of_text[where sec = "map_of [(''driver_TOFF'', ''-1'')]" and option = "''driver_TOFF''" and n = "- 1"
        and d = "DefInt 3" and minval = 1 and maxval = 15] by simp
qed

end
