(* ===== verification/TmcFields.thy ===== *)
theory TmcFields
  imports ConfigAccess "HOL-Library.AList"
begin

text \<open>
  The register fields of a Trinamic stepper driver (\<^verbatim>\<open>tmc/field_helper.go\<close> and
  \<^verbatim>\<open>tmc/config_helpers.go\<close>).  A field is a mask within a register; the helper keeps the value
  of every register it has written.

  Registers and masks are below \<open>2 ^ 32\<close> and are held in \<open>int64\<close>; every shifted value is
  masked at once, so unbounded integers give the same results.  A table of fields is an
  association list whose order is the order in which the map is iterated.
\<close>

unbundle bit_operations_syntax

section \<open>Bits\<close>

definition shl :: "int \<Rightarrow> nat \<Rightarrow> int" where
  "shl x n = x * 2 ^ n"

fun trailing_zeros :: "nat \<Rightarrow> int \<Rightarrow> nat" where
  "trailing_zeros 0 m = 0"
| "trailing_zeros (Suc n) m = (if odd m then 0 else Suc (trailing_zeros n (m div 2)))"

definition ffs :: "int \<Rightarrow> nat" where
  "ffs m = trailing_zeros 64 m"

fun bits_Len :: "nat \<Rightarrow> nat" where
  "bits_Len x = (if x = 0 then 0 else Suc (bits_Len (x div 2)))"

declare bits_Len.simps [simp del]

section \<open>The field helper\<close>

type_synonym field_table = "(string \<times> (string \<times> int) list) list"

record FieldHelper =
  allFields :: field_table
  signedFields :: "string list"
  fieldFormatters :: "string \<rightharpoonup> (int \<Rightarrow> string)"
  registers :: "(string \<times> int) list"
  registerOrder :: "string list"
  registerSeen :: "string list"
  fieldToRegister :: "string \<rightharpoonup> string"

fun index_register :: "string \<Rightarrow> (string \<times> int) list \<Rightarrow> (string \<rightharpoonup> string) \<Rightarrow> string \<rightharpoonup> string" where
  "index_register r [] idx = idx"
| "index_register r ((f, m) # fs) idx = index_register r fs (idx(f \<mapsto> r))"

definition index_fields :: "field_table \<Rightarrow> string \<rightharpoonup> string" where
  "index_fields table = fold (\<lambda>(r, fs). index_register r fs) table Map.empty"

definition NewFieldHelper :: "field_table \<Rightarrow> string list \<Rightarrow> (string \<rightharpoonup> (int \<Rightarrow> string)) \<Rightarrow>
    (string \<times> int) list option \<Rightarrow> FieldHelper" where
  "NewFieldHelper table signed formatters regs =
     (let rs = (case regs of None \<Rightarrow> [] | Some rs \<Rightarrow> rs);
          keys = sort (map fst rs)
      in \<lparr>allFields = table, signedFields = signed, fieldFormatters = formatters,
          registers = map (\<lambda>k. (k, the (map_of rs k))) keys, registerOrder = keys, registerSeen = keys,
          fieldToRegister = index_fields table\<rparr>)"

definition Lookup_register :: "string \<Rightarrow> FieldHelper \<Rightarrow> string option" where
  "Lookup_register fieldName h = fieldToRegister h fieldName"

definition field_mask :: "field_table \<Rightarrow> string \<Rightarrow> string \<Rightarrow> int" where
  "field_mask table r f =
     (case map_of table r of None \<Rightarrow> 0 | Some fs \<Rightarrow> (case map_of fs f of None \<Rightarrow> 0 | Some m \<Rightarrow> m))"

definition the_register :: "string \<Rightarrow> string option \<Rightarrow> FieldHelper \<Rightarrow> string" where
  "the_register fieldName regName h =
     (case regName of Some r \<Rightarrow> r
      | None \<Rightarrow> (case fieldToRegister h fieldName of None \<Rightarrow> [] | Some r \<Rightarrow> r))"

text \<open>A register that was never written reads as zero.\<close>

definition the_value :: "string \<Rightarrow> int option \<Rightarrow> FieldHelper \<Rightarrow> int" where
  "the_value r regValue h =
     (case regValue of Some v \<Rightarrow> v | None \<Rightarrow> (case map_of (registers h) r of None \<Rightarrow> 0 | Some v \<Rightarrow> v))"

definition extract_field :: "int \<Rightarrow> bool \<Rightarrow> int \<Rightarrow> int" where
  "extract_field msk signed v =
     (let fieldValue = drop_bit (ffs msk) (v AND msk)
      in if signed \<and> msk < shl (v AND msk) 1 then fieldValue - 2 ^ bits_Len (nat fieldValue) else fieldValue)"

definition Get_field :: "string \<Rightarrow> int option \<Rightarrow> string option \<Rightarrow> FieldHelper \<Rightarrow> int" where
  "Get_field fieldName regValue regName h =
     (let r = the_register fieldName regName h
      in extract_field (field_mask (allFields h) r fieldName) (fieldName \<in> set (signedFields h)) (the_value r regValue h))"

definition trackRegister :: "string \<Rightarrow> FieldHelper \<Rightarrow> FieldHelper" where
  "trackRegister r h =
     (if r \<in> set (registerSeen h) then h
      else h\<lparr>registerOrder := registerOrder h @ [r], registerSeen := r # registerSeen h\<rparr>)"

definition insert_bits :: "int \<Rightarrow> int \<Rightarrow> int \<Rightarrow> int" where
  "insert_bits msk fieldValue v = (v AND NOT msk) OR (shl fieldValue (ffs msk) AND msk)"

definition Set_field :: "string \<Rightarrow> int \<Rightarrow> int option \<Rightarrow> string option \<Rightarrow> FieldHelper \<Rightarrow> int \<times> FieldHelper" where
  "Set_field fieldName fieldValue regValue regName h =
     (let r = the_register fieldName regName h;
          newValue = insert_bits (field_mask (allFields h) r fieldName) fieldValue (the_value r regValue h);
          h1 = trackRegister r h
      in (newValue, h1\<lparr>registers := AList.update r newValue (registers h1)\<rparr>))"

definition orderedRegisterNames :: "FieldHelper \<Rightarrow> string list" where
  "orderedRegisterNames h =
     (if length (registerOrder h) = length (registers h) then registerOrder h
      else registerOrder h @ sort (filter (\<lambda>r. r \<notin> set (registerSeen h)) (map fst (registers h))))"

section \<open>Values from the configuration\<close>

text \<open>
  The configuration is an interface: an option is read with a default and, for numbers,
  with bounds; the reader fails if the value is not valid.  Whether the default is an \<open>int\<close>
  decides between \<open>Getint\<close> and \<open>Getint64\<close>.
\<close>

record ConfigFieldSource =
  Getboolean :: "string \<Rightarrow> cfg_default \<Rightarrow> bool result"
  Getint :: "string \<Rightarrow> cfg_default \<Rightarrow> int \<Rightarrow> int \<Rightarrow> int result"
  Getint64 :: "string \<Rightarrow> cfg_default \<Rightarrow> int \<Rightarrow> int \<Rightarrow> int result"

definition config_source :: "config_section \<Rightarrow> ConfigFieldSource" where
  "config_source sec = \<lparr>Getboolean = wrapper_Getboolean sec, Getint = wrapper_Getint sec, Getint64 = wrapper_Getint64 sec\<rparr>"

definition bool_int :: "bool \<Rightarrow> int" where
  "bool_int b = (if b then 1 else 0)"

fun is_DefInt :: "cfg_default \<Rightarrow> bool" where
  "is_DefInt (DefInt i) = True"
| "is_DefInt d = False"

definition config_value :: "ConfigFieldSource \<Rightarrow> string \<Rightarrow> cfg_default \<Rightarrow> bool \<Rightarrow> int \<Rightarrow> int result" where
  "config_value config configName d signed maxVal =
     (if maxVal = 1 then map_sum id bool_int (Getboolean config configName d)
      else if signed then
        if is_DefInt d then Getint config configName d (- (maxVal div 2 + 1)) (maxVal div 2)
        else Getint64 config configName d (- 1) maxVal
      else if is_DefInt d then Getint config configName d 0 maxVal
      else Getint64 config configName d 0 maxVal)"

definition Set_config_field :: "ConfigFieldSource \<Rightarrow> string \<Rightarrow> cfg_default \<Rightarrow> FieldHelper \<Rightarrow>
    (int \<times> FieldHelper) result" where
  "Set_config_field config fieldName d h =
     (let msk = field_mask (allFields h) (the_register fieldName None h) fieldName;
          maxVal = drop_bit (ffs msk) msk
      in bindR (config_value config (''driver_'' @ ToUpper fieldName) d (fieldName \<in> set (signedFields h)) maxVal)
           (\<lambda>val. Inr (Set_field fieldName val None None h)))"

text \<open>A configuration routine: fixed settings, then options with their defaults.\<close>

fun set_fields :: "(string \<times> int) list \<Rightarrow> FieldHelper \<Rightarrow> FieldHelper" where
  "set_fields [] h = h"
| "set_fields ((f, v) # fs) h = set_fields fs (snd (Set_field f v None None h))"

fun set_config_fields :: "ConfigFieldSource \<Rightarrow> (string \<times> cfg_default) list \<Rightarrow> FieldHelper \<Rightarrow> FieldHelper result" where
  "set_config_fields config [] h = Inr h"
| "set_config_fields config ((f, d) # fs) h =
     bindR (Set_config_field config f d h) (\<lambda>(v, h1). set_config_fields config fs h1)"

section \<open>Printing\<close>

definition pretty_field :: "string \<Rightarrow> int \<Rightarrow> FieldHelper \<Rightarrow> string \<Rightarrow> string" where
  "pretty_field regName regValue h fieldName =
     (let fieldValue = Get_field fieldName (Some regValue) (Some regName) h;
          stringValue = (case fieldFormatters h fieldName of
             Some f \<Rightarrow> f fieldValue | None \<Rightarrow> FormatInt fieldValue)
      in if stringValue \<noteq> [] \<and> stringValue \<noteq> ''0'' then '' '' @ fieldName @ ''='' @ stringValue else [])"

definition Pretty_format :: "string \<Rightarrow> int \<Rightarrow> FieldHelper \<Rightarrow> string" where
  "Pretty_format regName regValue h =
     (let keys = sort (case map_of (allFields h) regName of None \<Rightarrow> [] | Some fs \<Rightarrow> map fst fs)
      in pad_right 11 (regName @ '':'') @ '' '' @ sprint_hex 8 regValue @
         concat (map (pretty_field regName regValue h) keys))"

definition Get_reg_fields :: "string \<Rightarrow> int \<Rightarrow> FieldHelper \<Rightarrow> (string \<times> int) list" where
  "Get_reg_fields regName regValue h =
     map (\<lambda>(f, _). (f, Get_field f (Some regValue) (Some regName) h))
       (case map_of (allFields h) regName of None \<Rightarrow> [] | Some fs \<Rightarrow> fs)"

section \<open>Common settings\<close>

definition ApplyWaveTableDefaults :: "ConfigFieldSource \<Rightarrow> FieldHelper \<Rightarrow> FieldHelper result" where
  "ApplyWaveTableDefaults config = set_config_fields config
     [(''mslut0'', DefInt64 0xAAAAB554), (''mslut1'', DefInt64 0x4A9554AA), (''mslut2'', DefInt64 0x24492929),
      (''mslut3'', DefInt64 0x10104222), (''mslut4'', DefInt64 0xFBFFFFFF), (''mslut5'', DefInt64 0xB5BB777D),
      (''mslut6'', DefInt64 0x49295556), (''mslut7'', DefInt64 0x00404222), (''w0'', DefInt 2), (''w1'', DefInt 1),
      (''w2'', DefInt 1), (''w3'', DefInt 1), (''x1'', DefInt 128), (''x2'', DefInt 255), (''x3'', DefInt 255),
      (''start_sin'', DefInt 0), (''start_sin90'', DefInt 247)]"

definition ApplyMicrostepSettings :: "int \<Rightarrow> bool \<Rightarrow> FieldHelper \<Rightarrow> FieldHelper" where
  "ApplyMicrostepSettings mres interpolate = set_fields [(''mres'', mres), (''intpol'', bool_int interpolate)]"

text \<open>Go's conversion of a float to an integer drops the fraction.\<close>

definition go_int :: "real \<Rightarrow> int" where
  "go_int x = (if x < 0 then \<lceil>x\<rceil> else \<lfloor>x\<rfloor>)"

definition TMCtstepHelper :: "real \<Rightarrow> nat \<Rightarrow> real \<Rightarrow> real \<Rightarrow> int" where
  "TMCtstepHelper stepDist mres tmcFreq velocity =
     (if velocity > 0 then
        let stepDist256 = stepDist / 2 ^ mres;
            threshold = go_int (tmcFreq * stepDist256 / velocity + 0.5)
        in if threshold < 0 then 0 else if threshold > 0xfffff then 0xfffff else threshold
      else 0xfffff)"

definition ApplyStealthchop :: "real \<Rightarrow> real \<Rightarrow> real option \<Rightarrow> FieldHelper \<Rightarrow> FieldHelper" where
  "ApplyStealthchop tmcFreq stepDist velocity h =
     (let enPWMMode = (velocity \<noteq> None);
          tpwmthrs = (case velocity of None \<Rightarrow> 0xfffff
            | Some v \<Rightarrow> TMCtstepHelper stepDist (nat (Get_field ''mres'' None None h)) tmcFreq v);
          h1 = snd (Set_field ''tpwmthrs'' tpwmthrs None None h)
      in case Lookup_register ''en_pwm_mode'' h1 of
           Some r \<Rightarrow> snd (Set_field ''en_pwm_mode'' (bool_int enPWMMode) None None h1)
         | None \<Rightarrow> snd (Set_field ''en_spreadcycle'' (bool_int (\<not> enPWMMode)) None None h1))"

section \<open>Masks\<close>

text \<open>A field's mask: \<open>w\<close> ones from bit \<open>k\<close> on.\<close>

definition run_mask :: "nat \<Rightarrow> nat \<Rightarrow> int" where
  "run_mask k w = push_bit k (mask w)"

lemma trailing_zeros_shift: "odd q \<Longrightarrow> k \<le> n \<Longrightarrow> trailing_zeros n (q * 2 ^ k) = k"
proof (induction k arbitrary: n)
  case 0
  then show ?case by (cases n) auto
next
  case (Suc k)
  then obtain n' where n: "n = Suc n'" by (cases n) auto
  have "q * 2 ^ Suc k div 2 = q * 2 ^ k" by simp
  with Suc n show ?case by simp
qed

lemma odd_mask: "0 < w \<Longrightarrow> odd (mask w :: int)"
  by (simp add: even_mask_iff)

lemma ffs_run [simp]: "0 < w \<Longrightarrow> k \<le> 64 \<Longrightarrow> ffs (run_mask k w) = k"
  by (simp add: ffs_def run_mask_def push_bit_eq_mult trailing_zeros_shift odd_mask)

lemma extract_bits: "drop_bit k (v AND run_mask k w) = take_bit w (drop_bit k v)" for v :: int
  by (rule bit_eqI) (auto simp: run_mask_def bit_simps)

lemma insert_extract: "0 < w \<Longrightarrow> k \<le> 64 \<Longrightarrow>
    drop_bit k (insert_bits (run_mask k w) x v AND run_mask k w) = take_bit w x"
  unfolding insert_bits_def ffs_run shl_def push_bit_eq_mult[symmetric]
  by (rule bit_eqI) (auto simp: run_mask_def bit_simps)

lemma insert_other: "m AND m' = 0 \<Longrightarrow> insert_bits m x v AND m' = v AND m'"
proof (rule bit_eqI)
  fix n assume "m AND m' = 0"
  then have "\<not> (bit m n \<and> bit m' n)" by (metis bit_and_iff bit_0_eq bot_apply bot_bool_def)
  then show "bit (insert_bits m x v AND m') n = bit (v AND m') n"
    by (auto simp: insert_bits_def bit_simps)
qed

lemma bits_Len_ge: "2 ^ n \<le> x \<Longrightarrow> x < 2 ^ Suc n \<Longrightarrow> bits_Len x = Suc n"
proof (induction n arbitrary: x)
  case 0
  then have "x = 1" by simp
  then show ?case by (simp add: bits_Len.simps)
next
  case (Suc n)
  have "2 ^ n \<le> x div 2" "x div 2 < 2 ^ Suc n" using Suc.prems by auto
  from Suc.IH[OF this] Suc.prems show ?case by (subst bits_Len.simps) auto
qed

text \<open>The value of a field: its bits, read as two's complement if the field is signed.\<close>

definition field_value :: "nat \<Rightarrow> bool \<Rightarrow> int \<Rightarrow> int" where
  "field_value w signed x = (if signed then signed_take_bit (w - 1) x else take_bit w x)"

lemma extract_run:
  assumes "0 < w" "k \<le> 64"
  shows "extract_field (run_mask k w) signed v = field_value w signed (drop_bit k v)"
proof -
  define x where "x = take_bit w (drop_bit k v)"
  obtain u where u: "w = Suc u" using assms(1) by (cases w) auto
  have b: "0 \<le> x" "x < 2 ^ w" by (simp_all add: x_def)
  have e: "drop_bit k (v AND run_mask k w) = x" unfolding x_def by (rule extract_bits)
  have "v AND run_mask k w = push_bit k (drop_bit k (v AND run_mask k w))"
    by (rule bit_eqI) (auto simp: run_mask_def bit_simps)
  then have "v AND run_mask k w = x * 2 ^ k" unfolding e push_bit_eq_mult .
  then have c: "run_mask k w < shl (v AND run_mask k w) 1 \<longleftrightarrow> 2 ^ u \<le> x"
    by (auto simp: shl_def run_mask_def push_bit_eq_mult mask_eq_exp_minus_1 u)
  define t where "t = take_bit u (drop_bit k v)"
  have "x = 2 ^ u * of_bool (bit (drop_bit k v) u) + t"
    by (simp add: x_def u t_def take_bit_Suc_from_most)
  moreover have "0 \<le> t" "t < 2 ^ u" by (simp_all add: t_def)
  ultimately have top: "bit (drop_bit k v) u \<longleftrightarrow> 2 ^ u \<le> x" by (cases "bit (drop_bit k v) u") auto
  have s: "signed_take_bit u (drop_bit k v) = (if 2 ^ u \<le> x then x - 2 ^ w else x)"
    unfolding signed_take_bit_eq_take_bit_minus top by (simp add: x_def u)
  have l: "bits_Len (nat x) = w" if "2 ^ u \<le> x"
    unfolding u using that b by (intro bits_Len_ge) (auto simp: u nat_le_eq_zle nat_less_iff le_nat_iff)
  show ?thesis
    unfolding extract_field_def Let_def ffs_run[OF assms] e c
    using s l by (simp add: field_value_def u x_def[unfolded u, symmetric])
qed

section \<open>Tables of fields\<close>

text \<open>
  A well-formed table: masks are runs of ones below \<open>2 ^ 32\<close>, the masks of one register do not
  overlap, and no name is repeated within a register.
\<close>

fun is_ones :: "nat \<Rightarrow> int \<Rightarrow> bool" where
  "is_ones 0 q = False"
| "is_ones (Suc n) q = (q = 1 \<or> odd q \<and> is_ones n (q div 2))"

definition is_run :: "int \<Rightarrow> bool" where
  "is_run m \<longleftrightarrow> 0 < m \<and> m < 2 ^ 32 \<and> ffs m < 32 \<and> m mod 2 ^ ffs m = 0 \<and> is_ones 32 (m div 2 ^ ffs m)"

fun disjoint_masks :: "int \<Rightarrow> int list \<Rightarrow> bool" where
  "disjoint_masks acc [] = True"
| "disjoint_masks acc (m # ms) = (m AND acc = 0 \<and> disjoint_masks (acc OR m) ms)"

definition register_ok :: "(string \<times> int) list \<Rightarrow> bool" where
  "register_ok fs \<longleftrightarrow> list_all (\<lambda>(f, m). is_run m) fs \<and> disjoint_masks 0 (map snd fs) \<and> distinct (map fst fs)"

definition table_ok :: "field_table \<Rightarrow> bool" where
  "table_ok t \<longleftrightarrow> list_all (\<lambda>(r, fs). register_ok fs) t \<and> distinct (map fst t)"

text \<open>A field that belongs to a single register.\<close>

definition own_register :: "field_table \<Rightarrow> string \<Rightarrow> string \<Rightarrow> bool" where
  "own_register t f r \<longleftrightarrow> map fst (filter (\<lambda>(_, fs). f \<in> fst ` set fs) t) = [r]"

lemma is_ones_mask: "is_ones n q \<Longrightarrow> \<exists>w>0. q = mask w"
proof (induction n q rule: is_ones.induct)
  case (2 n q)
  show ?case
  proof (cases "q = 1")
    case True
    then show ?thesis by (intro exI[of _ 1]) (simp add: mask_eq_exp_minus_1)
  next
    case False
    then obtain w where "0 < w" "q div 2 = mask w" "odd q" using 2 by auto
    then show ?thesis by (intro exI[of _ "Suc w"]) (auto simp: mask_eq_exp_minus_1 elim!: oddE)
  qed
qed simp

lemma is_run_mask:
  assumes "is_run m"
  obtains k w where "0 < w" "k \<le> 64" "m = run_mask k w"
proof -
  obtain w where w: "0 < w" "m div 2 ^ ffs m = mask w" using assms is_ones_mask by (auto simp: is_run_def)
  have "m = m div 2 ^ ffs m * 2 ^ ffs m" using assms by (auto simp: is_run_def)
  then have "m = run_mask (ffs m) w" using w by (simp add: run_mask_def push_bit_eq_mult)
  then show thesis using w assms by (intro that[of w "ffs m"]) (simp_all add: is_run_def)
qed

lemma disjoint_masks_acc: "disjoint_masks acc ms \<Longrightarrow> m \<in> set ms \<Longrightarrow> m AND acc = 0"
proof (induction ms arbitrary: acc)
  case (Cons x ms)
  show ?case
  proof (cases "m = x")
    case True
    then show ?thesis using Cons.prems(1) by simp
  next
    case False
    then have "m AND (acc OR x) = 0" using Cons by simp
    then show ?thesis by (auto simp: bit_eq_iff bit_simps)
  qed
qed simp

lemma disjoint_masks_nth:
  "disjoint_masks acc ms \<Longrightarrow> i < length ms \<Longrightarrow> j < length ms \<Longrightarrow> i \<noteq> j \<Longrightarrow> ms ! i AND ms ! j = 0"
proof (induction ms arbitrary: acc i j)
  case (Cons m ms)
  have *: "x AND m = 0" "m AND x = 0" if "x \<in> set ms" for x
    using disjoint_masks_acc[of "acc OR m" ms x] that Cons.prems(1) by (auto simp: bit_eq_iff bit_simps)
  show ?case using Cons * by (cases i; cases j) auto
qed simp

lemma table_mask:
  assumes "table_ok t" and "map_of t r = Some fs" and "map_of fs f = Some m"
  shows "is_run m" "field_mask t r f = m" "register_ok fs"
proof -
  have "(r, fs) \<in> set t" "(f, m) \<in> set fs" using assms(2,3) by (auto dest: map_of_SomeD)
  then show "is_run m" "register_ok fs" using assms(1) by (auto simp: table_ok_def register_ok_def list_all_iff)
  show "field_mask t r f = m" using assms(2,3) by (simp add: field_mask_def)
qed

lemma table_disjoint:
  assumes "register_ok fs" and "map_of fs f = Some m" "map_of fs g = Some m'" and "f \<noteq> g"
  shows "m AND m' = 0"
proof -
  obtain i j where ij: "i < length fs" "fs ! i = (f, m)" "j < length fs" "fs ! j = (g, m')"
    using assms(2,3) by (metis map_of_SomeD in_set_conv_nth)
  then have "i \<noteq> j" using assms(4) by auto
  with disjoint_masks_nth[of 0 "map snd fs" i j] ij assms(1) show ?thesis by (simp add: register_ok_def)
qed

lemma index_register_eq: "index_register r fs idx f = (if f \<in> fst ` set fs then Some r else idx f)"
proof (induction fs arbitrary: idx)
  case (Cons a fs)
  obtain g m where a: "a = (g, m)" by (cases a)
  show ?case unfolding a using Cons.IH[of "idx(g \<mapsto> r)"] by (simp add: fun_upd_def)
qed simp

text \<open>Whatever the order of iteration, a field with a single register is indexed by it.\<close>

lemma index_own:
  assumes "own_register t f r"
  shows "index_fields t f = Some r"
proof -
  have "fold (\<lambda>(r, fs). index_register r fs) t m f =
      (if filter (\<lambda>(_, fs). f \<in> fst ` set fs) t = [] then m f
       else Some (fst (last (filter (\<lambda>(_, fs). f \<in> fst ` set fs) t))))" for m
  proof (induction t arbitrary: m)
    case (Cons a t)
    obtain q fs where a: "a = (q, fs)" by (cases a)
    show ?case
      unfolding a using Cons.IH by (simp add: index_register_eq)
  qed simp
  moreover have "filter (\<lambda>(_, fs). f \<in> fst ` set fs) t \<noteq> []"
    "fst (last (filter (\<lambda>(_, fs). f \<in> fst ` set fs) t)) = r"
    using assms by (auto simp: own_register_def map_eq_Cons_conv)
  ultimately show ?thesis by (simp add: index_fields_def)
qed

section \<open>Reading back what was set\<close>

definition field_range :: "nat \<Rightarrow> bool \<Rightarrow> int \<Rightarrow> bool" where
  "field_range w signed v \<longleftrightarrow>
     (if signed then - (2 ^ (w - 1)) \<le> v \<and> v < 2 ^ (w - 1) else 0 \<le> v \<and> v < 2 ^ w)"

definition field_width :: "FieldHelper \<Rightarrow> string \<Rightarrow> nat" where
  "field_width h f = bits_Len (nat (let m = field_mask (allFields h) (the_register f None h) f in m div 2 ^ ffs m))"

lemma field_value_id: "0 < w \<Longrightarrow> field_range w s v \<Longrightarrow> field_value w s (take_bit w v) = v"
  by (cases w) (auto simp: field_value_def field_range_def signed_take_bit_take_bit take_bit_int_eq_self
      signed_take_bit_int_eq_self)

section \<open>What a helper keeps, and what it reads back\<close>

text \<open>What every operation keeps of the helper.\<close>

definition helper_ok :: "FieldHelper \<Rightarrow> bool" where
  "helper_ok h \<longleftrightarrow> table_ok (allFields h) \<and> fieldToRegister h = index_fields (allFields h) \<and>
     distinct (map fst (registers h)) \<and> distinct (registerOrder h) \<and>
     set (registerOrder h) = fst ` set (registers h) \<and> set (registerSeen h) = set (registerOrder h)"

abbreviation is_signed :: "FieldHelper \<Rightarrow> string \<Rightarrow> bool" where
  "is_signed h f \<equiv> f \<in> set (signedFields h)"

lemma own_field:
  assumes "table_ok t" and "own_register t f r"
  obtains fs m where "map_of t r = Some fs" "map_of fs f = Some m"
proof -
  obtain p where p: "filter (\<lambda>(_, fs). f \<in> fst ` set fs) t = [p]" "fst p = r"
    using assms(2) by (auto simp: own_register_def map_eq_Cons_conv)
  have "p \<in> set (filter (\<lambda>(_, fs). f \<in> fst ` set fs) t)" unfolding p(1) by simp
  then obtain fs m where "(r, fs) \<in> set t" "(f, m) \<in> set fs" using p(2) by (cases p rule: prod.exhaust) auto
  then have "map_of t r = Some fs" "map_of fs f = Some m"
    using assms(1) by (auto simp: table_ok_def register_ok_def list_all_iff)
  then show thesis by (rule that)
qed

lemma own_lookup: "helper_ok h \<Longrightarrow> own_register (allFields h) f r \<Longrightarrow> the_register f None h = r"
  by (simp add: helper_ok_def the_register_def index_own)

lemma Set_field_sel [simp]:
  "allFields (snd (Set_field f v rv rn h)) = allFields h"
  "signedFields (snd (Set_field f v rv rn h)) = signedFields h"
  "fieldFormatters (snd (Set_field f v rv rn h)) = fieldFormatters h"
  "fieldToRegister (snd (Set_field f v rv rn h)) = fieldToRegister h"
  by (simp_all add: Set_field_def Let_def trackRegister_def)

lemma the_register_Set_field [simp]: "the_register g rn' (snd (Set_field f v rv rn h)) = the_register g rn' h"
  by (cases rn') (simp_all add: the_register_def)

lemma registers_Set_field:
  "map_of (registers (snd (Set_field f v rv rn h))) =
     (map_of (registers h))(the_register f rn h \<mapsto> fst (Set_field f v rv rn h))"
  by (simp add: Set_field_def Let_def trackRegister_def update_conv')

lemma Set_field_ok:
  assumes "helper_ok h"
  shows "helper_ok (snd (Set_field f v rv rn h))"
proof -
  let ?r = "the_register f rn h"
  have u: "fst ` set (AList.update k x al) = insert k (fst ` set al)" for k :: string and x :: int and al
    using dom_update[of k x al] by (simp add: dom_map_of_conv_image_fst[symmetric])
  show ?thesis
    using assms by (auto simp: helper_ok_def Set_field_def Let_def trackRegister_def distinct_update u)
qed

lemma orderedRegisterNames_all:
  assumes "helper_ok h"
  shows "orderedRegisterNames h = registerOrder h"
proof -
  have "length (registerOrder h) = card (set (registerOrder h))" using assms distinct_card[of "registerOrder h"] by (simp add: helper_ok_def)
  also have "\<dots> = card (set (map fst (registers h)))" using assms by (simp add: helper_ok_def)
  also have "\<dots> = length (registers h)" using assms distinct_card[of "map fst (registers h)"] by (simp add: helper_ok_def)
  finally show ?thesis by (simp add: orderedRegisterNames_def)
qed

lemma NewFieldHelper_ok: "table_ok t \<Longrightarrow> helper_ok (NewFieldHelper t signed fmt None)"
  by (simp add: helper_ok_def NewFieldHelper_def)

lemma Get_field_own:
  assumes "helper_ok h" and "own_register (allFields h) f r" and "map_of (allFields h) r = Some fs" "map_of fs f = Some m"
  shows "Get_field f None None h = extract_field m (is_signed h f) (the_value r None h)"
  using assms table_mask(2)[of "allFields h" r fs f m] own_lookup[OF assms(1,2)]
  by (simp add: Get_field_def helper_ok_def)

lemma field_width_own:
  assumes "helper_ok h" and "own_register (allFields h) f r" and "map_of (allFields h) r = Some fs"
    and "map_of fs f = Some (run_mask k w)" and "0 < w" "k \<le> 64"
  shows "field_width h f = w"
proof -
  have "field_mask (allFields h) (the_register f None h) f = run_mask k w"
    using own_lookup[OF assms(1,2)] assms(3,4) by (simp add: field_mask_def)
  moreover have "run_mask k w div 2 ^ k = mask w" by (simp add: run_mask_def push_bit_eq_mult)
  moreover have "bits_Len (nat (mask w)) = w"
  proof -
    obtain u where u: "w = Suc u" using assms(5) by (cases w) auto
    have "nat (mask w :: int) = mask w" by (simp add: nat_mask_eq)
    moreover have "(2::nat) ^ u \<le> mask w" "mask w < (2::nat) ^ Suc u" by (simp_all add: u mask_eq_exp_minus_1)
    ultimately show ?thesis using bits_Len_ge[of u "mask w"] u by simp
  qed
  ultimately show ?thesis using assms(5,6) by (simp add: field_width_def Let_def)
qed

text \<open>What is read back is the value at the width of the field.\<close>

lemma Set_Get_truncated:
  assumes h: "helper_ok h" and o: "own_register (allFields h) f r"
  shows "0 < field_width h f"
    and "Get_field f None None (snd (Set_field f v None None h)) = field_value (field_width h f) (is_signed h f) (take_bit (field_width h f) v)"
proof -
  obtain fs m where m: "map_of (allFields h) r = Some fs" "map_of fs f = Some m"
    using own_field[of "allFields h" f r] h o by (auto simp: helper_ok_def)
  have t: "table_ok (allFields h)" using h by (simp add: helper_ok_def)
  obtain k w where kw: "0 < w" "k \<le> 64" "m = run_mask k w" by (rule is_run_mask[OF table_mask(1)[OF t m]])
  let ?h = "snd (Set_field f v None None h)"
  have r: "the_register f None h = r" by (rule own_lookup[OF h o])
  have wd: "field_width h f = w" by (rule field_width_own[OF h o m(1) m(2)[unfolded kw(3)] kw(1,2)])
  have "the_value r None ?h = insert_bits m v (the_value r None h)"
    by (simp add: the_value_def registers_Set_field r) (simp add: Set_field_def Let_def r table_mask(2)[OF t m] the_value_def)
  then have "Get_field f None None ?h = extract_field m (is_signed h f) (insert_bits m v (the_value r None h))"
    using Get_field_own[OF Set_field_ok[OF h], where f = f and r = r and fs = fs and m = m] o m by simp
  also have "\<dots> = field_value w (is_signed h f) (drop_bit k (insert_bits m v (the_value r None h)))"
    unfolding kw(3) by (rule extract_run[OF kw(1,2)])
  also have "\<dots> = field_value w (is_signed h f) (take_bit w (drop_bit k (insert_bits m v (the_value r None h))))"
    using kw(1) by (cases w) (simp_all add: field_value_def signed_take_bit_take_bit)
  also have "take_bit w (drop_bit k (insert_bits m v (the_value r None h))) = take_bit w v"
    unfolding kw(3) extract_bits[symmetric] by (rule insert_extract[OF kw(1,2)])
  finally show "Get_field f None None ?h = field_value (field_width h f) (is_signed h f) (take_bit (field_width h f) v)"
    unfolding wd .
  show "0 < field_width h f" using kw(1) wd by simp
qed

text \<open>A value in the field's range is read back, whether or not the field is signed.\<close>

lemma Set_Get_field:
  assumes "helper_ok h" and "own_register (allFields h) f r" and "field_range (field_width h f) (is_signed h f) v"
  shows "Get_field f None None (snd (Set_field f v None None h)) = v"
  using Set_Get_truncated[OF assms(1,2)] assms(3) by (simp add: field_value_id)

text \<open>Every other field keeps its value.\<close>

lemma Set_Get_other:
  assumes h: "helper_ok h" and o: "own_register (allFields h) f r" "own_register (allFields h) g q" and ne: "f \<noteq> g"
  shows "Get_field g None None (snd (Set_field f v None None h)) = Get_field g None None h"
proof -
  have t: "table_ok (allFields h)" using h by (simp add: helper_ok_def)
  obtain fs m where m: "map_of (allFields h) r = Some fs" "map_of fs f = Some m" by (rule own_field[OF t o(1)])
  obtain gs m' where m': "map_of (allFields h) q = Some gs" "map_of gs g = Some m'" by (rule own_field[OF t o(2)])
  let ?h = "snd (Set_field f v None None h)"
  have r: "the_register f None h = r" by (rule own_lookup[OF h o(1)])
  have "the_value q None ?h AND m' = the_value q None h AND m'"
  proof (cases "q = r")
    case False
    then show ?thesis by (simp add: the_value_def registers_Set_field r)
  next
    case True
    then have "m AND m' = 0" using table_disjoint[OF table_mask(3)[OF t m] m(2) _ ne] m m' by simp
    then show ?thesis
      by (simp add: the_value_def registers_Set_field r True)
        (simp add: Set_field_def Let_def r table_mask(2)[OF t m] the_value_def insert_other)
  qed
  then have "extract_field m' s (the_value q None ?h) = extract_field m' s (the_value q None h)" for s
    by (simp add: extract_field_def Let_def)
  then show ?thesis
    using Get_field_own[OF h o(2) m'] Get_field_own[OF Set_field_ok[OF h], where f = g and r = q and fs = gs and m = m'] o(2) m' by simp
qed

section \<open>Settings from the configuration\<close>

definition unique_field :: "field_table \<Rightarrow> string \<Rightarrow> bool" where
  "unique_field t f \<longleftrightarrow> length (filter (\<lambda>(_, fs). f \<in> fst ` set fs) t) = 1"

lemma unique_fieldE:
  assumes "unique_field t f" obtains r where "own_register t f r"
  using assms by (auto simp: unique_field_def own_register_def length_Suc_conv numeral_eq_Suc)

text \<open>The value the configuration gives a field.\<close>

definition configured :: "ConfigFieldSource \<Rightarrow> FieldHelper \<Rightarrow> string \<Rightarrow> cfg_default \<Rightarrow> int result" where
  "configured config h f d =
     (let msk = field_mask (allFields h) (the_register f None h) f
      in config_value config (''driver_'' @ ToUpper f) d (is_signed h f) (drop_bit (ffs msk) msk))"

definition same_layout :: "FieldHelper \<Rightarrow> FieldHelper \<Rightarrow> bool" where
  "same_layout h h' \<longleftrightarrow> allFields h' = allFields h \<and> signedFields h' = signedFields h \<and>
     fieldToRegister h' = fieldToRegister h"

lemma same_layout_eqs:
  assumes "same_layout h h'"
  shows "configured config h' f d = configured config h f d" "field_width h' f = field_width h f"
    "is_signed h' f \<longleftrightarrow> is_signed h f" "allFields h' = allFields h"
  using assms by (simp_all add: same_layout_def configured_def field_width_def the_register_def)

lemma same_layout_trans: "same_layout h h' \<Longrightarrow> same_layout h' h'' \<Longrightarrow> same_layout h h''"
  by (simp add: same_layout_def)

lemma same_layout_refl [simp]: "same_layout h h"
  by (simp add: same_layout_def)

lemma Set_field_layout [simp]: "same_layout h (snd (Set_field f v rv rn h))"
  by (simp add: same_layout_def)

lemma field_value_take: "0 < w \<Longrightarrow> field_value w s (take_bit w v) = field_value w s v"
  by (cases w) (auto simp: field_value_def signed_take_bit_take_bit)

lemma Set_config_field_Inr:
  "Set_config_field config f d h = Inr p \<longleftrightarrow>
     (\<exists>v. configured config h f d = Inr v \<and> p = Set_field f v None None h)"
  by (auto simp: Set_config_field_def configured_def Let_def go_results)

text \<open>After a run of settings every field of the list holds what the configuration gave, every other field its old value.\<close>

lemma set_config_fields_reads:
  assumes "helper_ok h" and "distinct (map fst ds)" and "\<forall>p \<in> set ds. unique_field (allFields h) (fst p)"
    and "set_config_fields config ds h = Inr h'"
  shows "helper_ok h' \<and> same_layout h h' \<and>
    (\<forall>f d. (f, d) \<in> set ds \<longrightarrow> (\<exists>v. configured config h f d = Inr v \<and>
        Get_field f None None h' = field_value (field_width h f) (is_signed h f) v)) \<and>
    (\<forall>g. unique_field (allFields h) g \<and> g \<notin> fst ` set ds \<longrightarrow> Get_field g None None h' = Get_field g None None h)"
  using assms
proof (induction ds arbitrary: h)
  case Nil
  then show ?case by simp
next
  case (Cons p ds)
  obtain f d where p: "p = (f, d)" by (cases p rule: prod.exhaust)
  obtain v where v: "configured config h f d = Inr v"
    and rest: "set_config_fields config ds (snd (Set_field f v None None h)) = Inr h'"
    using Cons.prems(4) by (auto simp: p go_results Set_config_field_Inr dest: arg_cong[where f = snd])
  let ?h = "snd (Set_field f v None None h)"
  have u: "unique_field (allFields h) f" using Cons.prems(3) by (simp add: p)
  then obtain r where r: "own_register (allFields h) f r" by (rule unique_fieldE)
  have lay: "same_layout h ?h" by simp
  note eqs = same_layout_eqs[OF lay]
  have IH: "helper_ok h'" "same_layout ?h h'"
    "(f', d') \<in> set ds \<Longrightarrow> \<exists>v. configured config h f' d' = Inr v \<and>
        Get_field f' None None h' = field_value (field_width h f') (is_signed h f') v"
    "unique_field (allFields h) g \<Longrightarrow> g \<notin> fst ` set ds \<Longrightarrow> Get_field g None None h' = Get_field g None None ?h" for f' d' g
    using Cons.IH[OF Set_field_ok[OF Cons.prems(1)] _ _ rest] Cons.prems(2,3) by (simp_all add: eqs)
  have "f \<notin> fst ` set ds" using Cons.prems(2) by (simp add: p)
  then have f: "Get_field f None None h' = field_value (field_width h f) (is_signed h f) v"
    using IH(4)[OF u] Set_Get_truncated[OF Cons.prems(1) r] by (simp add: field_value_take)
  have others: "Get_field g None None h' = Get_field g None None h"
    if g: "unique_field (allFields h) g" "g \<notin> fst ` set (p # ds)" for g
  proof -
    obtain q where q: "own_register (allFields h) g q" by (rule unique_fieldE[OF g(1)])
    have "f \<noteq> g" using g(2) by (auto simp: p)
    then show ?thesis using IH(4)[OF g(1)] g(2) Set_Get_other[OF Cons.prems(1) r q] by simp
  qed
  show ?case
    using IH(1) same_layout_trans[OF lay IH(2)] IH(3) v f others by (auto simp: p)
qed

lemma set_fields_layout: "helper_ok h \<Longrightarrow> helper_ok (set_fields fs h) \<and> same_layout h (set_fields fs h)"
proof (induction fs arbitrary: h)
  case (Cons p fs)
  obtain f v where p: "p = (f, v)" by (cases p rule: prod.exhaust)
  show ?case
    using Cons.IH[OF Set_field_ok[OF Cons.prems, of f v None None]]
      same_layout_trans[OF Set_field_layout[of h f v None None]] by (simp add: p)
qed simp

end
