(* ===== verification/TmcTables.thy ===== *)
theory TmcTables
  imports TmcFields
begin

text \<open>
  The register and field tables, the value formatters and the configuration routines of the
  supported drivers (\<^verbatim>\<open>tmc/tmc2130_defs.go\<close>, \<^verbatim>\<open>tmc2208_2209_defs.go\<close>, \<^verbatim>\<open>tmc2240_defs.go\<close> and
  \<^verbatim>\<open>tmc2660_5160_defs.go\<close>), entry by entry.
\<close>

section \<open>Formatters\<close>

definition flag :: "string \<Rightarrow> int \<Rightarrow> string" where
  "flag s v = (if v \<noteq> 0 then s else [])"

definition flag_else :: "string \<Rightarrow> string \<Rightarrow> int \<Rightarrow> string" where
  "flag_else s t v = (if v \<noteq> 0 then s else t)"

definition usteps :: "int \<Rightarrow> string" where
  "usteps v = FormatInt v @ ''('' @ FormatInt (drop_bit (nat v) 0x100) @ ''usteps)''"

definition value_or_reset :: "int \<Rightarrow> string" where
  "value_or_reset v = (if v \<noteq> 0 then FormatInt v else ''0(Reset?)'')"

text \<open>The field is a single bit, so the index into the two names is in range.\<close>

definition sel_a_name :: "int \<Rightarrow> string" where
  "sel_a_name v = FormatInt v @ ''('' @ (if v = 0 then ''TMC222x'' else ''TMC220x'') @ '')''"

text \<open>The comparison with an untyped constant never holds for a value of type \<open>int64\<close>.\<close>

definition always_named :: "string \<Rightarrow> int \<Rightarrow> string" where
  "always_named s v = s @ ''('' @ FormatInt v @ '')''"

text \<open>\<open>%.1f\<close> of the temperature \<open>(v - 2038) / 7.7\<close>: no value is halfway between two decimals.\<close>

definition adc_temp_text :: "int \<Rightarrow> string" where
  "adc_temp_text v =
     (let n = (200 * (v - 2038) + 77) div 154
      in ''0x'' @ sprint_hex 4 v @ ''('' @ (if n < 0 then ''-'' else []) @ FormatInt (\<bar>n\<bar> div 10) @ ''.'' @
         FormatInt (\<bar>n\<bar> mod 10) @ ''C)'')"

section \<open>TMC2130\<close>

definition TMC2130Registers :: "(string \<times> int) list" where
  "TMC2130Registers = [(''GCONF'', 0x00), (''GSTAT'', 0x01), (''IOIN'', 0x04), (''IHOLD_IRUN'', 0x10),
    (''TPOWERDOWN'', 0x11), (''TSTEP'', 0x12), (''TPWMTHRS'', 0x13), (''TCOOLTHRS'', 0x14),
    (''THIGH'', 0x15), (''XDIRECT'', 0x2d), (''MSLUT0'', 0x60), (''MSLUTSEL'', 0x68),
    (''MSLUTSTART'', 0x69), (''MSCNT'', 0x6a), (''MSCURACT'', 0x6b), (''CHOPCONF'', 0x6c),
    (''COOLCONF'', 0x6d), (''DCCTRL'', 0x6e), (''DRV_STATUS'', 0x6f), (''PWMCONF'', 0x70),
    (''PWM_SCALE'', 0x71), (''ENCM_CTRL'', 0x72), (''LOST_STEPS'', 0x73)]"

definition TMC2130ReadRegisters :: "string list" where
  "TMC2130ReadRegisters = [''GCONF'', ''GSTAT'', ''IOIN'', ''TSTEP'', ''XDIRECT'', ''MSCNT'', ''MSCURACT'', ''CHOPCONF'',
    ''DRV_STATUS'', ''PWM_SCALE'', ''LOST_STEPS'']"

definition TMC2130Fields :: field_table where
  "TMC2130Fields = [
    (''GCONF'', [(''i_scale_analog'', shl 1 0), (''internal_rsense'', shl 1 1), (''en_pwm_mode'', shl 1 2),
        (''enc_commutation'', shl 1 3), (''shaft'', shl 1 4), (''diag0_error'', shl 1 5),
        (''diag0_otpw'', shl 1 6), (''diag0_stall'', shl 1 7), (''diag1_stall'', shl 1 8),
        (''diag1_index'', shl 1 9), (''diag1_onstate'', shl 1 10), (''diag1_steps_skipped'', shl 1 11),
        (''diag0_int_pushpull'', shl 1 12), (''diag1_pushpull'', shl 1 13),
        (''small_hysteresis'', shl 1 14), (''stop_enable'', shl 1 15), (''direct_mode'', shl 1 16),
        (''test_mode'', shl 1 17)]),
    (''GSTAT'', [(''reset'', shl 1 0), (''drv_err'', shl 1 1), (''uv_cp'', shl 1 2)]),
    (''IOIN'', [(''step'', shl 1 0), (''dir'', shl 1 1), (''dcen_cfg4'', shl 1 2), (''dcin_cfg5'', shl 1 3),
        (''drv_enn_cfg6'', shl 1 4), (''dco'', shl 1 5), (''version'', shl 0xff 24)]),
    (''IHOLD_IRUN'', [(''ihold'', shl 0x1f 0), (''irun'', shl 0x1f 8), (''iholddelay'', shl 0x0f 16)]),
    (''TPOWERDOWN'', [(''tpowerdown'', 0xff)]),
    (''TSTEP'', [(''tstep'', 0xfffff)]),
    (''TPWMTHRS'', [(''tpwmthrs'', 0xfffff)]),
    (''TCOOLTHRS'', [(''tcoolthrs'', 0xfffff)]),
    (''THIGH'', [(''thigh'', 0xfffff)]),
    (''MSLUT0'', [(''mslut0'', 0xffffffff)]),
    (''MSLUT1'', [(''mslut1'', 0xffffffff)]),
    (''MSLUT2'', [(''mslut2'', 0xffffffff)]),
    (''MSLUT3'', [(''mslut3'', 0xffffffff)]),
    (''MSLUT4'', [(''mslut4'', 0xffffffff)]),
    (''MSLUT5'', [(''mslut5'', 0xffffffff)]),
    (''MSLUT6'', [(''mslut6'', 0xffffffff)]),
    (''MSLUT7'', [(''mslut7'', 0xffffffff)]),
    (''MSLUTSEL'', [(''x3'', shl 0xFF 24), (''x2'', shl 0xFF 16), (''x1'', shl 0xFF 8), (''w3'', shl 0x03 6),
        (''w2'', shl 0x03 4), (''w1'', shl 0x03 2), (''w0'', shl 0x03 0)]),
    (''MSLUTSTART'', [(''start_sin'', shl 0xFF 0), (''start_sin90'', shl 0xFF 16)]),
    (''MSCNT'', [(''mscnt'', 0x3ff)]),
    (''MSCURACT'', [(''cur_a'', 0x1ff), (''cur_b'', shl 0x1ff 16)]),
    (''CHOPCONF'', [(''toff'', 0x0f), (''hstrt'', shl 0x07 4), (''hend'', shl 0x0f 7), (''fd3'', shl 1 11),
        (''disfdcc'', shl 1 12), (''rndtf'', shl 1 13), (''chm'', shl 1 14), (''tbl'', shl 0x03 15),
        (''vsense'', shl 1 17), (''vhighfs'', shl 1 18), (''vhighchm'', shl 1 19), (''sync'', shl 0x0f 20),
        (''mres'', shl 0x0f 24), (''intpol'', shl 1 28), (''dedge'', shl 1 29), (''diss2g'', shl 1 30)]),
    (''COOLCONF'', [(''semin'', 0x0f), (''seup'', shl 0x03 5), (''semax'', shl 0x0f 8), (''sedn'', shl 0x03 13),
        (''seimin'', shl 1 15), (''sgt'', shl 0x7f 16), (''sfilt'', shl 1 24)]),
    (''DRV_STATUS'', [(''sg_result'', 0x3ff), (''fsactive'', shl 1 15), (''cs_actual'', shl 0x1f 16),
        (''stallguard'', shl 1 24), (''ot'', shl 1 25), (''otpw'', shl 1 26), (''s2ga'', shl 1 27),
        (''s2gb'', shl 1 28), (''ola'', shl 1 29), (''olb'', shl 1 30), (''stst'', shl 1 31)]),
    (''PWMCONF'', [(''pwm_ampl'', 0xff), (''pwm_grad'', shl 0xff 8), (''pwm_freq'', shl 0x03 16),
        (''pwm_autoscale'', shl 1 18), (''pwm_symmetric'', shl 1 19), (''freewheel'', shl 0x03 20)]),
    (''PWM_SCALE'', [(''pwm_scale'', 0xff)]),
    (''LOST_STEPS'', [(''lost_steps'', 0xfffff)])]"

definition TMC2130SignedFields :: "string list" where
  "TMC2130SignedFields = [''cur_a'', ''cur_b'', ''sgt'']"

definition TMC2130FieldFormatters :: "string \<rightharpoonup> (int \<Rightarrow> string)" where
  "TMC2130FieldFormatters = map_of [
     (''i_scale_analog'', flag ''1(ExtVREF)''), (''shaft'', flag ''1(Reverse)''),
     (''reset'', flag ''1(Reset)''), (''drv_err'', flag ''1(ErrorShutdown!)''),
     (''uv_cp'', flag ''1(Undervoltage!)''), (''version'', sprint_sharp_hex), (''mres'', usteps),
     (''otpw'', flag ''1(OvertempWarning!)''), (''ot'', flag ''1(OvertempError!)''),
     (''s2ga'', flag ''1(ShortToGND_A!)''), (''s2gb'', flag ''1(ShortToGND_B!)''),
     (''ola'', flag ''1(OpenLoad_A!)''), (''olb'', flag ''1(OpenLoad_B!)''),
     (''cs_actual'', value_or_reset)]"

definition TMC2130Options :: "(string \<times> cfg_default) list" where
  "TMC2130Options =
    [(''toff'', DefInt 4), (''hstrt'', DefInt 0), (''hend'', DefInt 7), (''tbl'', DefInt 1),
     (''vhighfs'', DefInt 0), (''vhighchm'', DefInt 0), (''semin'', DefInt 0), (''seup'', DefInt 0),
     (''semax'', DefInt 0), (''sedn'', DefInt 0), (''seimin'', DefInt 0), (''sgt'', DefInt 0),
     (''sfilt'', DefInt 0), (''iholddelay'', DefInt 8), (''pwm_ampl'', DefInt 128),
     (''pwm_grad'', DefInt 4), (''pwm_freq'', DefInt 1), (''pwm_autoscale'', DefBool True),
     (''freewheel'', DefInt 0), (''tpowerdown'', DefInt 0)]"

definition ConfigureTMC2130 :: "ConfigFieldSource \<Rightarrow> FieldHelper \<Rightarrow> FieldHelper result" where
  "ConfigureTMC2130 config h = set_config_fields config TMC2130Options
     (set_fields [] h)"

section \<open>TMC2208\<close>

definition TMC2208Registers :: "(string \<times> int) list" where
  "TMC2208Registers = [(''GCONF'', 0x00), (''GSTAT'', 0x01), (''IFCNT'', 0x02), (''SLAVECONF'', 0x03),
    (''OTP_PROG'', 0x04), (''OTP_READ'', 0x05), (''IOIN'', 0x06), (''FACTORY_CONF'', 0x07),
    (''IHOLD_IRUN'', 0x10), (''TPOWERDOWN'', 0x11), (''TSTEP'', 0x12), (''TPWMTHRS'', 0x13),
    (''VACTUAL'', 0x22), (''MSCNT'', 0x6a), (''MSCURACT'', 0x6b), (''CHOPCONF'', 0x6c),
    (''DRV_STATUS'', 0x6f), (''PWMCONF'', 0x70), (''PWM_SCALE'', 0x71), (''PWM_AUTO'', 0x72)]"

definition TMC2208ReadRegisters :: "string list" where
  "TMC2208ReadRegisters = [''GCONF'', ''GSTAT'', ''IFCNT'', ''OTP_READ'', ''IOIN'', ''FACTORY_CONF'', ''TSTEP'', ''MSCNT'',
    ''MSCURACT'', ''CHOPCONF'', ''DRV_STATUS'', ''PWMCONF'', ''PWM_SCALE'', ''PWM_AUTO'']"

definition TMC2208Fields :: field_table where
  "TMC2208Fields = [
    (''GCONF'', [(''i_scale_analog'', 0x01), (''internal_rsense'', shl 0x01 1), (''en_spreadcycle'', shl 0x01 2),
        (''shaft'', shl 0x01 3), (''index_otpw'', shl 0x01 4), (''index_step'', shl 0x01 5),
        (''pdn_disable'', shl 0x01 6), (''mstep_reg_select'', shl 0x01 7),
        (''multistep_filt'', shl 0x01 8), (''test_mode'', shl 0x01 9)]),
    (''GSTAT'', [(''reset'', 0x01), (''drv_err'', shl 0x01 1), (''uv_cp'', shl 0x01 2)]),
    (''IFCNT'', [(''ifcnt'', 0xff)]),
    (''SLAVECONF'', [(''senddelay'', shl 0x0f 8)]),
    (''OTP_PROG'', [(''otpbit'', 0x07), (''otpbyte'', shl 0x03 4), (''otpmagic'', shl 0xff 8)]),
    (''OTP_READ'', [(''otp_fclktrim'', 0x1f), (''otp_ottrim'', shl 0x01 5), (''otp_internalrsense'', shl 0x01 6),
        (''otp_tbl'', shl 0x01 7), (''otp_pwm_grad'', shl 0x0f 8), (''otp_pwm_autograd'', shl 0x01 12),
        (''otp_tpwmthrs'', shl 0x07 13), (''otp_pwm_ofs'', shl 0x01 16), (''otp_pwm_reg'', shl 0x01 17),
        (''otp_pwm_freq'', shl 0x01 18), (''otp_iholddelay'', shl 0x03 19), (''otp_ihold'', shl 0x03 21),
        (''otp_en_spreadcycle'', shl 0x01 23)]),
    (''IOIN@TMC222x'', [(''pdn_uart'', shl 0x01 1), (''spread'', shl 0x01 2), (''dir'', shl 0x01 3), (''enn'', shl 0x01 4),
        (''step'', shl 0x01 5), (''ms1'', shl 0x01 6), (''ms2'', shl 0x01 7), (''sel_a'', shl 0x01 8),
        (''version'', shl 0xff 24)]),
    (''IOIN@TMC220x'', [(''enn'', 0x01), (''ms1'', shl 0x01 2), (''ms2'', shl 0x01 3), (''diag'', shl 0x01 4),
        (''pdn_uart'', shl 0x01 6), (''step'', shl 0x01 7), (''sel_a'', shl 0x01 8), (''dir'', shl 0x01 9),
        (''version'', shl 0xff 24)]),
    (''FACTORY_CONF'', [(''fclktrim'', 0x1f), (''ottrim'', shl 0x03 8)]),
    (''IHOLD_IRUN'', [(''ihold'', 0x1f), (''irun'', shl 0x1f 8), (''iholddelay'', shl 0x0f 16)]),
    (''TPOWERDOWN'', [(''tpowerdown'', 0xff)]),
    (''TSTEP'', [(''tstep'', 0xfffff)]),
    (''TPWMTHRS'', [(''tpwmthrs'', 0xfffff)]),
    (''VACTUAL'', [(''vactual'', 0xffffff)]),
    (''MSCNT'', [(''mscnt'', 0x3ff)]),
    (''MSCURACT'', [(''cur_a'', 0x1ff), (''cur_b'', shl 0x1ff 16)]),
    (''CHOPCONF'', [(''toff'', 0x0f), (''hstrt'', shl 0x07 4), (''hend'', shl 0x0f 7), (''tbl'', shl 0x03 15),
        (''vsense'', shl 0x01 17), (''mres'', shl 0x0f 24), (''intpol'', shl 0x01 28),
        (''dedge'', shl 0x01 29), (''diss2g'', shl 0x01 30), (''diss2vs'', shl 0x01 31)]),
    (''DRV_STATUS'', [(''otpw'', 0x01), (''ot'', shl 0x01 1), (''s2ga'', shl 0x01 2), (''s2gb'', shl 0x01 3),
        (''s2vsa'', shl 0x01 4), (''s2vsb'', shl 0x01 5), (''ola'', shl 0x01 6), (''olb'', shl 0x01 7),
        (''t120'', shl 0x01 8), (''t143'', shl 0x01 9), (''t150'', shl 0x01 10), (''t157'', shl 0x01 11),
        (''cs_actual'', shl 0x1f 16), (''stealth'', shl 0x01 30), (''stst'', shl 0x01 31)]),
    (''PWMCONF'', [(''pwm_ofs'', 0xff), (''pwm_grad'', shl 0xff 8), (''pwm_freq'', shl 0x03 16),
        (''pwm_autoscale'', shl 0x01 18), (''pwm_autograd'', shl 0x01 19), (''freewheel'', shl 0x03 20),
        (''pwm_reg'', shl 0xf 24), (''pwm_lim'', shl 0xf 28)]),
    (''PWM_SCALE'', [(''pwm_scale_sum'', 0xff), (''pwm_scale_auto'', shl 0x1ff 16)]),
    (''PWM_AUTO'', [(''pwm_ofs_auto'', 0xff), (''pwm_grad_auto'', shl 0xff 16)])]"

definition TMC2208SignedFields :: "string list" where
  "TMC2208SignedFields = [''cur_a'', ''cur_b'', ''pwm_scale_auto'']"

definition TMC2208FieldFormatters :: "string \<rightharpoonup> (int \<Rightarrow> string)" where
  "TMC2208FieldFormatters = map_of [
     (''i_scale_analog'', flag ''1(ExtVREF)''), (''shaft'', flag ''1(Reverse)''),
     (''reset'', flag ''1(Reset)''), (''drv_err'', flag ''1(ErrorShutdown!)''),
     (''uv_cp'', flag ''1(Undervoltage!)''), (''version'', sprint_sharp_hex), (''mres'', usteps),
     (''otpw'', flag ''1(OvertempWarning!)''), (''ot'', flag ''1(OvertempError!)''),
     (''s2ga'', flag ''1(ShortToGND_A!)''), (''s2gb'', flag ''1(ShortToGND_B!)''),
     (''ola'', flag ''1(OpenLoad_A!)''), (''olb'', flag ''1(OpenLoad_B!)''),
     (''cs_actual'', (\<lambda>v. [])),
     (''t120'', flag (''1(Overtemp 120'' @ [CHR 0xC2] @ [CHR 0xB0] @ '')'')),
     (''t143'', flag (''1(Overtemp 143'' @ [CHR 0xC2] @ [CHR 0xB0] @ '')'')),
     (''t150'', flag (''1(Overtemp 150'' @ [CHR 0xC2] @ [CHR 0xB0] @ '')'')),
     (''t157'', flag (''1(Overtemp 157'' @ [CHR 0xC2] @ [CHR 0xB0] @ '')'')), (''sel_a'', sel_a_name),
     (''s2vsa'', flag ''1(LowSideShort_A!)''), (''s2vsb'', flag ''1(LowSideShort_B!)''),
     (''stealth'', always_named ''stealth''), (''stst'', always_named ''stst'')]"

definition TMC2208Options :: "(string \<times> cfg_default) list" where
  "TMC2208Options =
    [(''toff'', DefInt 3), (''hstrt'', DefInt 5), (''hend'', DefInt 0), (''tbl'', DefInt 2),
     (''iholddelay'', DefInt 8), (''pwm_ofs'', DefInt 36), (''pwm_grad'', DefInt 14),
     (''pwm_freq'', DefInt 1), (''pwm_autoscale'', DefBool True), (''pwm_autograd'', DefBool True),
     (''freewheel'', DefInt 0), (''pwm_reg'', DefInt 8), (''pwm_lim'', DefInt 12),
     (''tpowerdown'', DefInt 20)]"

definition ConfigureTMC2208 :: "ConfigFieldSource \<Rightarrow> FieldHelper \<Rightarrow> FieldHelper result" where
  "ConfigureTMC2208 config h = set_config_fields config TMC2208Options
     (set_fields [(''pdn_disable'', 1), (''mstep_reg_select'', 1), (''multistep_filt'', 1)] h)"

section \<open>TMC2209\<close>

definition TMC2209Registers :: "(string \<times> int) list" where
  "TMC2209Registers = [(''GCONF'', 0x00), (''GSTAT'', 0x01), (''IFCNT'', 0x02), (''SLAVECONF'', 0x03),
    (''OTP_PROG'', 0x04), (''OTP_READ'', 0x05), (''IOIN'', 0x06), (''FACTORY_CONF'', 0x07),
    (''IHOLD_IRUN'', 0x10), (''TPOWERDOWN'', 0x11), (''TSTEP'', 0x12), (''TPWMTHRS'', 0x13),
    (''VACTUAL'', 0x22), (''MSCNT'', 0x6a), (''MSCURACT'', 0x6b), (''CHOPCONF'', 0x6c),
    (''DRV_STATUS'', 0x6f), (''PWMCONF'', 0x70), (''PWM_SCALE'', 0x71), (''PWM_AUTO'', 0x72),
    (''TCOOLTHRS'', 0x14), (''COOLCONF'', 0x42), (''SGTHRS'', 0x40), (''SG_RESULT'', 0x41)]"

definition TMC2209ReadRegisters :: "string list" where
  "TMC2209ReadRegisters = [''GCONF'', ''GSTAT'', ''IFCNT'', ''OTP_READ'', ''IOIN'', ''FACTORY_CONF'', ''TSTEP'', ''MSCNT'',
    ''MSCURACT'', ''CHOPCONF'', ''DRV_STATUS'', ''PWMCONF'', ''PWM_SCALE'', ''PWM_AUTO'', ''SG_RESULT'']"

definition TMC2209Fields :: field_table where
  "TMC2209Fields = [
    (''GCONF'', the (map_of TMC2208Fields ''GCONF'')),
    (''GSTAT'', the (map_of TMC2208Fields ''GSTAT'')),
    (''IFCNT'', the (map_of TMC2208Fields ''IFCNT'')),
    (''SLAVECONF'', the (map_of TMC2208Fields ''SLAVECONF'')),
    (''OTP_PROG'', the (map_of TMC2208Fields ''OTP_PROG'')),
    (''OTP_READ'', the (map_of TMC2208Fields ''OTP_READ'')),
    (''IOIN@TMC222x'', the (map_of TMC2208Fields ''IOIN@TMC222x'')),
    (''IOIN@TMC220x'', the (map_of TMC2208Fields ''IOIN@TMC220x'')),
    (''FACTORY_CONF'', the (map_of TMC2208Fields ''FACTORY_CONF'')),
    (''IHOLD_IRUN'', the (map_of TMC2208Fields ''IHOLD_IRUN'')),
    (''TPOWERDOWN'', the (map_of TMC2208Fields ''TPOWERDOWN'')),
    (''TSTEP'', the (map_of TMC2208Fields ''TSTEP'')),
    (''TPWMTHRS'', the (map_of TMC2208Fields ''TPWMTHRS'')),
    (''VACTUAL'', the (map_of TMC2208Fields ''VACTUAL'')),
    (''MSCNT'', the (map_of TMC2208Fields ''MSCNT'')),
    (''MSCURACT'', the (map_of TMC2208Fields ''MSCURACT'')),
    (''CHOPCONF'', the (map_of TMC2208Fields ''CHOPCONF'')),
    (''DRV_STATUS'', the (map_of TMC2208Fields ''DRV_STATUS'')),
    (''PWMCONF'', the (map_of TMC2208Fields ''PWMCONF'')),
    (''PWM_SCALE'', the (map_of TMC2208Fields ''PWM_SCALE'')),
    (''PWM_AUTO'', the (map_of TMC2208Fields ''PWM_AUTO'')),
    (''COOLCONF'', [(''semin'', shl 0x0F 0), (''seup'', shl 0x03 5), (''semax'', shl 0x0F 8), (''sedn'', shl 0x03 13),
        (''seimin'', shl 0x01 15)]),
    (''IOIN'', [(''enn'', shl 0x01 0), (''ms1'', shl 0x01 2), (''ms2'', shl 0x01 3), (''diag'', shl 0x01 4),
        (''pdn_uart'', shl 0x01 6), (''step'', shl 0x01 7), (''spread_en'', shl 0x01 8),
        (''dir'', shl 0x01 9), (''version'', shl 0xff 24)]),
    (''SGTHRS'', [(''sgthrs'', shl 0xFF 0)]),
    (''SG_RESULT'', [(''sg_result'', shl 0x3FF 0)]),
    (''TCOOLTHRS'', [(''tcoolthrs'', 0xfffff)])]"

definition TMC2209Options :: "(string \<times> cfg_default) list" where
  "TMC2209Options =
    [(''toff'', DefInt 3), (''hstrt'', DefInt 5), (''hend'', DefInt 0), (''tbl'', DefInt 2),
     (''semin'', DefInt 0), (''seup'', DefInt 0), (''semax'', DefInt 0), (''sedn'', DefInt 0),
     (''seimin'', DefInt 0), (''iholddelay'', DefInt 8), (''pwm_ofs'', DefInt 36),
     (''pwm_grad'', DefInt 14), (''pwm_freq'', DefInt 1), (''pwm_autoscale'', DefBool True),
     (''pwm_autograd'', DefBool True), (''freewheel'', DefInt 0), (''pwm_reg'', DefInt 8),
     (''pwm_lim'', DefInt 12), (''tpowerdown'', DefInt 20), (''sgthrs'', DefInt 0)]"

definition ConfigureTMC2209 :: "ConfigFieldSource \<Rightarrow> FieldHelper \<Rightarrow> FieldHelper result" where
  "ConfigureTMC2209 config h = set_config_fields config TMC2209Options
     (set_fields [(''pdn_disable'', 1), (''senddelay'', 2), (''mstep_reg_select'', 1), (''multistep_filt'', 1)] h)"

definition TMC2209FieldFormatters :: "string \<rightharpoonup> (int \<Rightarrow> string)" where
  "TMC2209FieldFormatters = TMC2208FieldFormatters"

section \<open>TMC2240\<close>

definition TMC2240Registers :: "(string \<times> int) list" where
  "TMC2240Registers = [(''GCONF'', 0x00), (''GSTAT'', 0x01), (''IFCNT'', 0x02), (''NODECONF'', 0x03), (''IOIN'', 0x04),
    (''DRV_CONF'', 0x0A), (''GLOBALSCALER'', 0x0B), (''IHOLD_IRUN'', 0x10), (''TPOWERDOWN'', 0x11),
    (''TSTEP'', 0x12), (''TPWMTHRS'', 0x13), (''TCOOLTHRS'', 0x14), (''THIGH'', 0x15),
    (''DIRECT_MODE'', 0x2D), (''ENCMODE'', 0x38), (''X_ENC'', 0x39), (''ENC_CONST'', 0x3A),
    (''ENC_STATUS'', 0x3B), (''ENC_LATCH'', 0x3C), (''ADC_VSUPPLY_AIN'', 0x50), (''ADC_TEMP'', 0x51),
    (''OTW_OV_VTH'', 0x52), (''MSLUT0'', 0x60), (''MSLUT1'', 0x61), (''MSLUT2'', 0x62),
    (''MSLUT3'', 0x63), (''MSLUT4'', 0x64), (''MSLUT5'', 0x65), (''MSLUT6'', 0x66), (''MSLUT7'', 0x67),
    (''MSLUTSEL'', 0x68), (''MSLUTSTART'', 0x69), (''MSCNT'', 0x6A), (''MSCURACT'', 0x6B),
    (''CHOPCONF'', 0x6C), (''COOLCONF'', 0x6D), (''DRV_STATUS'', 0x6F), (''PWMCONF'', 0x70),
    (''PWM_SCALE'', 0x71), (''PWM_AUTO'', 0x72), (''SG4_THRS'', 0x74), (''SG4_RESULT'', 0x75),
    (''SG4_IND'', 0x76)]"

definition TMC2240ReadRegisters :: "string list" where
  "TMC2240ReadRegisters = [''GCONF'', ''GSTAT'', ''IOIN'', ''DRV_CONF'', ''GLOBALSCALER'', ''IHOLD_IRUN'', ''TPOWERDOWN'',
    ''TSTEP'', ''TPWMTHRS'', ''TCOOLTHRS'', ''THIGH'', ''ADC_VSUPPLY_AIN'', ''ADC_TEMP'', ''MSCNT'',
    ''MSCURACT'', ''CHOPCONF'', ''COOLCONF'', ''DRV_STATUS'', ''PWMCONF'', ''PWM_SCALE'', ''PWM_AUTO'',
    ''SG4_THRS'', ''SG4_RESULT'', ''SG4_IND'']"

definition TMC2240Fields :: field_table where
  "TMC2240Fields = [
    (''COOLCONF'', [(''semin'', shl 0x0F 0), (''seup'', shl 0x03 5), (''semax'', shl 0x0F 8), (''sedn'', shl 0x03 13),
        (''seimin'', shl 0x01 15), (''sgt'', shl 0x7F 16), (''sfilt'', shl 0x01 24)]),
    (''CHOPCONF'', [(''toff'', shl 0x0F 0), (''hstrt'', shl 0x07 4), (''hend'', shl 0x0F 7), (''fd3'', shl 0x01 11),
        (''disfdcc'', shl 0x01 12), (''chm'', shl 0x01 14), (''tbl'', shl 0x03 15),
        (''vhighfs'', shl 0x01 18), (''vhighchm'', shl 0x01 19), (''tpfd'', shl 0x0F 20),
        (''mres'', shl 0x0F 24), (''intpol'', shl 0x01 28), (''dedge'', shl 0x01 29),
        (''diss2g'', shl 0x01 30), (''diss2vs'', shl 0x01 31)]),
    (''DRV_STATUS'', [(''sg_result'', shl 0x3FF 0), (''s2vsa'', shl 0x01 12), (''s2vsb'', shl 0x01 13),
        (''stealth'', shl 0x01 14), (''fsactive'', shl 0x01 15), (''csactual'', shl 0x1F 16),
        (''stallguard'', shl 0x01 24), (''ot'', shl 0x01 25), (''otpw'', shl 0x01 26),
        (''s2ga'', shl 0x01 27), (''s2gb'', shl 0x01 28), (''ola'', shl 0x01 29), (''olb'', shl 0x01 30),
        (''stst'', shl 0x01 31)]),
    (''GCONF'', [(''faststandstill'', shl 0x01 1), (''en_pwm_mode'', shl 0x01 2), (''multistep_filt'', shl 0x01 3),
        (''shaft'', shl 0x01 4), (''diag0_error'', shl 0x01 5), (''diag0_otpw'', shl 0x01 6),
        (''diag0_stall'', shl 0x01 7), (''diag1_stall'', shl 0x01 8), (''diag1_index'', shl 0x01 9),
        (''diag1_onstate'', shl 0x01 10), (''diag0_pushpull'', shl 0x01 12),
        (''diag1_pushpull'', shl 0x01 13), (''small_hysteresis'', shl 0x01 14),
        (''stop_enable'', shl 0x01 15), (''direct_mode'', shl 0x01 16)]),
    (''GSTAT'', [(''reset'', shl 0x01 0), (''drv_err'', shl 0x01 1), (''uv_cp'', shl 0x01 2),
        (''register_reset'', shl 0x01 3), (''vm_uvlo'', shl 0x01 4)]),
    (''GLOBALSCALER'', [(''globalscaler'', shl 0xFF 0)]),
    (''IHOLD_IRUN'', [(''ihold'', shl 0x1F 0), (''irun'', shl 0x1F 8), (''iholddelay'', shl 0x0F 16),
        (''irundelay'', shl 0x0F 24)]),
    (''IOIN'', [(''step'', shl 0x01 0), (''dir'', shl 0x01 1), (''encb'', shl 0x01 2), (''enca'', shl 0x01 3),
        (''drv_enn'', shl 0x01 4), (''encn'', shl 0x01 5), (''uart_en'', shl 0x01 6),
        (''comp_a'', shl 0x01 8), (''comp_b'', shl 0x01 9), (''comp_a1_a2'', shl 0x01 10),
        (''comp_b1_b2'', shl 0x01 11), (''output'', shl 0x01 12), (''ext_res_det'', shl 0x01 13),
        (''ext_clk'', shl 0x01 14), (''adc_err'', shl 0x01 15), (''silicon_rv'', shl 0x07 16),
        (''version'', shl 0xFF 24)]),
    (''MSLUT0'', [(''mslut0'', 0xffffffff)]),
    (''MSLUT1'', [(''mslut1'', 0xffffffff)]),
    (''MSLUT2'', [(''mslut2'', 0xffffffff)]),
    (''MSLUT3'', [(''mslut3'', 0xffffffff)]),
    (''MSLUT4'', [(''mslut4'', 0xffffffff)]),
    (''MSLUT5'', [(''mslut5'', 0xffffffff)]),
    (''MSLUT6'', [(''mslut6'', 0xffffffff)]),
    (''MSLUT7'', [(''mslut7'', 0xffffffff)]),
    (''MSLUTSEL'', [(''x3'', shl 0xFF 24), (''x2'', shl 0xFF 16), (''x1'', shl 0xFF 8), (''w3'', shl 0x03 6),
        (''w2'', shl 0x03 4), (''w1'', shl 0x03 2), (''w0'', shl 0x03 0)]),
    (''MSLUTSTART'', [(''start_sin'', shl 0xFF 0), (''start_sin90'', shl 0xFF 16), (''offset_sin90'', shl 0xFF 24)]),
    (''MSCNT'', [(''mscnt'', shl 0x3ff 0)]),
    (''MSCURACT'', [(''cur_a'', shl 0x1ff 0), (''cur_b'', shl 0x1ff 16)]),
    (''PWM_AUTO'', [(''pwm_ofs_auto'', shl 0xff 0), (''pwm_grad_auto'', shl 0xff 16)]),
    (''PWMCONF'', [(''pwm_ofs'', shl 0xFF 0), (''pwm_grad'', shl 0xFF 8), (''pwm_freq'', shl 0x03 16),
        (''pwm_autoscale'', shl 0x01 18), (''pwm_autograd'', shl 0x01 19), (''freewheel'', shl 0x03 20),
        (''pwm_meas_sd_enable'', shl 0x01 22), (''pwm_dis_reg_stst'', shl 0x01 23),
        (''pwm_reg'', shl 0x0F 24), (''pwm_lim'', shl 0x0F 28)]),
    (''PWM_SCALE'', [(''pwm_scale_sum'', shl 0x3ff 0), (''pwm_scale_auto'', shl 0x1ff 16)]),
    (''TPOWERDOWN'', [(''tpowerdown'', shl 0xff 0)]),
    (''TPWMTHRS'', [(''tpwmthrs'', shl 0xfffff 0)]),
    (''TCOOLTHRS'', [(''tcoolthrs'', shl 0xfffff 0)]),
    (''TSTEP'', [(''tstep'', shl 0xfffff 0)]),
    (''THIGH'', [(''thigh'', shl 0xfffff 0)]),
    (''DRV_CONF'', [(''current_range'', shl 0x03 0), (''slope_control'', shl 0x03 4)]),
    (''ADC_VSUPPLY_AIN'', [(''adc_vsupply'', shl 0x1fff 0), (''adc_ain'', shl 0x1fff 16)]),
    (''ADC_TEMP'', [(''adc_temp'', shl 0x1fff 0)]),
    (''OTW_OV_VTH'', [(''overvoltage_vth'', shl 0x1fff 0), (''overtempprewarning_vth'', shl 0x1fff 16)]),
    (''SG4_THRS'', [(''sg4_thrs'', shl 0xFF 0), (''sg4_filt_en'', shl 0x01 8), (''sg4_angle_offset'', shl 0x01 9)]),
    (''SG4_RESULT'', [(''sg4_result'', shl 0x3FF 0)]),
    (''SG4_IND'', [(''sg4_ind_0'', shl 0xFF 0), (''sg4_ind_1'', shl 0xFF 8), (''sg4_ind_2'', shl 0xFF 16),
        (''sg4_ind_3'', shl 0xFF 24)])]"

definition TMC2240SignedFields :: "string list" where
  "TMC2240SignedFields = [''cur_a'', ''cur_b'', ''sgt'', ''pwm_scale_auto'', ''offset_sin90'']"

definition TMC2240FieldFormatters :: "string \<rightharpoonup> (int \<Rightarrow> string)" where
  "TMC2240FieldFormatters = map_of [
     (''s2vsa'', flag ''1(ShortToSupply_A!)''), (''s2vsb'', flag ''1(ShortToSupply_B!)''),
     (''adc_temp'', adc_temp_text)]"

definition TMC2240Options :: "(string \<times> cfg_default) list" where
  "TMC2240Options =
    [(''offset_sin90'', DefInt 0), (''toff'', DefInt 3), (''hstrt'', DefInt 5), (''hend'', DefInt 2),
     (''fd3'', DefInt 0), (''disfdcc'', DefInt 0), (''chm'', DefInt 0), (''tbl'', DefInt 2),
     (''vhighfs'', DefInt 0), (''vhighchm'', DefInt 0), (''tpfd'', DefInt 4), (''diss2g'', DefInt 0),
     (''diss2vs'', DefInt 0), (''semin'', DefInt 0), (''seup'', DefInt 0), (''semax'', DefInt 0),
     (''sedn'', DefInt 0), (''seimin'', DefInt 0), (''sgt'', DefInt 0), (''sfilt'', DefInt 0),
     (''iholddelay'', DefInt 6), (''irundelay'', DefInt 4), (''pwm_ofs'', DefInt 29),
     (''pwm_grad'', DefInt 0), (''pwm_freq'', DefInt 0), (''pwm_autoscale'', DefBool True),
     (''pwm_autograd'', DefBool True), (''freewheel'', DefInt 0), (''pwm_reg'', DefInt 4),
     (''pwm_lim'', DefInt 12), (''tpowerdown'', DefInt 10), (''sg4_thrs'', DefInt 0),
     (''sg4_angle_offset'', DefBool True)]"

definition ConfigureTMC2240 :: "ConfigFieldSource \<Rightarrow> FieldHelper \<Rightarrow> FieldHelper result" where
  "ConfigureTMC2240 config h = set_config_fields config TMC2240Options
     (set_fields [(''multistep_filt'', 1)] h)"

section \<open>TMC2660\<close>

definition TMC2660Registers :: "(string \<times> int) list" where
  "TMC2660Registers = [(''DRVCONF'', 0xE), (''SGCSCONF'', 0xC), (''SMARTEN'', 0xA), (''CHOPCONF'', 0x8),
    (''DRVCTRL'', 0x0)]"

definition TMC2660ReadRegisters :: "string list" where
  "TMC2660ReadRegisters = [''READRSP@RDSEL0'', ''READRSP@RDSEL1'', ''READRSP@RDSEL2'']"

definition TMC2660Fields :: field_table where
  "TMC2660Fields = [
    (''DRVCTRL'', [(''mres'', 0x0f), (''dedge'', shl 0x01 8), (''intpol'', shl 0x01 9)]),
    (''CHOPCONF'', [(''toff'', 0x0f), (''hstrt'', shl 0x7 4), (''hend'', shl 0x0f 7), (''hdec'', shl 0x03 11),
        (''rndtf'', shl 0x01 13), (''chm'', shl 0x01 14), (''tbl'', shl 0x03 15)]),
    (''SMARTEN'', [(''semin'', 0x0f), (''seup'', shl 0x03 5), (''semax'', shl 0x0f 8), (''sedn'', shl 0x03 13),
        (''seimin'', shl 0x01 15)]),
    (''SGCSCONF'', [(''cs'', 0x1f), (''sgt'', shl 0x7F 8), (''sfilt'', shl 0x01 16)]),
    (''DRVCONF'', [(''rdsel'', shl 0x03 4), (''vsense'', shl 0x01 6), (''sdoff'', shl 0x01 7), (''ts2g'', shl 0x03 8),
        (''diss2g'', shl 0x01 10), (''slpl'', shl 0x03 12), (''slph'', shl 0x03 14), (''tst'', shl 0x01 16)]),
    (''READRSP@RDSEL0'', [(''stallguard'', shl 0x01 4), (''ot'', shl 0x01 5), (''otpw'', shl 0x01 6), (''s2ga'', shl 0x01 7),
        (''s2gb'', shl 0x01 8), (''ola'', shl 0x01 9), (''olb'', shl 0x01 10), (''stst'', shl 0x01 11),
        (''mstep'', shl 0x3ff 14)]),
    (''READRSP@RDSEL1'', [(''stallguard'', shl 0x01 4), (''ot'', shl 0x01 5), (''otpw'', shl 0x01 6), (''s2ga'', shl 0x01 7),
        (''s2gb'', shl 0x01 8), (''ola'', shl 0x01 9), (''olb'', shl 0x01 10), (''stst'', shl 0x01 11),
        (''sg_result'', shl 0x3ff 14)]),
    (''READRSP@RDSEL2'', [(''stallguard'', shl 0x01 4), (''ot'', shl 0x01 5), (''otpw'', shl 0x01 6), (''s2ga'', shl 0x01 7),
        (''s2gb'', shl 0x01 8), (''ola'', shl 0x01 9), (''olb'', shl 0x01 10), (''stst'', shl 0x01 11),
        (''se'', shl 0x1f 14), (''sg_result@rdsel2'', shl 0x1f 19)])]"

definition TMC2660SignedFields :: "string list" where
  "TMC2660SignedFields = [''sgt'']"

definition TMC2660FieldFormatters :: "string \<rightharpoonup> (int \<Rightarrow> string)" where
  "TMC2660FieldFormatters = map_of [
     (''i_scale_analog'', flag ''1(ExtVREF)''), (''shaft'', flag ''1(Reverse)''),
     (''reset'', flag ''1(Reset)''), (''drv_err'', flag ''1(ErrorShutdown!)''),
     (''uv_cp'', flag ''1(Undervoltage!)''), (''version'', sprint_sharp_hex), (''mres'', usteps),
     (''otpw'', flag ''1(OvertempWarning!)''), (''ot'', flag ''1(OvertempError!)''),
     (''s2ga'', flag ''1(ShortToGND_A!)''), (''s2gb'', flag ''1(ShortToGND_B!)''),
     (''ola'', flag ''1(OpenLoad_A!)''), (''olb'', flag ''1(OpenLoad_B!)''),
     (''cs_actual'', value_or_reset), (''chm'', flag_else ''1(constant toff)'' ''0(spreadCycle)''),
     (''vsense'', flag_else ''1(165mV)'' ''0(305mV)''), (''sdoff'', flag ''1(Step/Dir disabled!)''),
     (''diss2g'', flag ''1(Short to GND disabled!)''), (''se'', value_or_reset)]"

definition TMC2660ChopperOptions :: "(string \<times> cfg_default) list" where
  "TMC2660ChopperOptions =
    [(''tbl'', DefInt 2), (''rndtf'', DefInt 0), (''hdec'', DefInt 0), (''chm'', DefInt 0),
     (''hend'', DefInt 3), (''hstrt'', DefInt 3), (''toff'', DefInt 4)]"

definition TMC2660OtherOptions :: "(string \<times> cfg_default) list" where
  "TMC2660OtherOptions =
    [(''seimin'', DefInt 0), (''sedn'', DefInt 0), (''semax'', DefInt 0), (''seup'', DefInt 0),
     (''semin'', DefInt 0), (''sfilt'', DefInt 0), (''sgt'', DefInt 0), (''slph'', DefInt 0),
     (''slpl'', DefInt 0), (''diss2g'', DefInt 0), (''ts2g'', DefInt 3)]"

text \<open>The check of the sum passes the register value zero, not the stored one.\<close>

definition ConfigureTMC2660 :: "ConfigFieldSource \<Rightarrow> FieldHelper \<Rightarrow> FieldHelper result" where
  "ConfigureTMC2660 config h =
     bindR (set_config_fields config TMC2660ChopperOptions (set_fields [(''sdoff'', 0)] h)) (\<lambda>h1.
     if Get_field ''chm'' (Some 0) None h1 = 0 \<and>
        Get_field ''hstrt'' (Some 0) None h1 + Get_field ''hend'' (Some 0) None h1 > 15
     then Inl (GoPanic ''driver_HEND + driver_HSTRT must be <= 15'')
     else set_config_fields config TMC2660OtherOptions h1)"

section \<open>TMC5160\<close>

definition TMC5160Registers :: "(string \<times> int) list" where
  "TMC5160Registers = [(''GCONF'', 0x00), (''GSTAT'', 0x01), (''IFCNT'', 0x02), (''SLAVECONF'', 0x03), (''IOIN'', 0x04),
    (''X_COMPARE'', 0x05), (''OTP_READ'', 0x07), (''FACTORY_CONF'', 0x08), (''SHORT_CONF'', 0x09),
    (''DRV_CONF'', 0x0A), (''GLOBALSCALER'', 0x0B), (''OFFSET_READ'', 0x0C), (''IHOLD_IRUN'', 0x10),
    (''TPOWERDOWN'', 0x11), (''TSTEP'', 0x12), (''TPWMTHRS'', 0x13), (''TCOOLTHRS'', 0x14),
    (''THIGH'', 0x15), (''RAMPMODE'', 0x20), (''XACTUAL'', 0x21), (''VACTUAL'', 0x22),
    (''VSTART'', 0x23), (''A1'', 0x24), (''V1'', 0x25), (''AMAX'', 0x26), (''VMAX'', 0x27),
    (''DMAX'', 0x28), (''D1'', 0x2A), (''VSTOP'', 0x2B), (''TZEROWAIT'', 0x2C), (''XTARGET'', 0x2D),
    (''VDCMIN'', 0x33), (''SW_MODE'', 0x34), (''RAMP_STAT'', 0x35), (''XLATCH'', 0x36),
    (''ENCMODE'', 0x38), (''X_ENC'', 0x39), (''ENC_CONST'', 0x3A), (''ENC_STATUS'', 0x3B),
    (''ENC_LATCH'', 0x3C), (''ENC_DEVIATION'', 0x3D), (''MSLUT0'', 0x60), (''MSLUT1'', 0x61),
    (''MSLUT2'', 0x62), (''MSLUT3'', 0x63), (''MSLUT4'', 0x64), (''MSLUT5'', 0x65), (''MSLUT6'', 0x66),
    (''MSLUT7'', 0x67), (''MSLUTSEL'', 0x68), (''MSLUTSTART'', 0x69), (''MSCNT'', 0x6A),
    (''MSCURACT'', 0x6B), (''CHOPCONF'', 0x6C), (''COOLCONF'', 0x6D), (''DCCTRL'', 0x6E),
    (''DRV_STATUS'', 0x6F), (''PWMCONF'', 0x70), (''PWM_SCALE'', 0x71), (''PWM_AUTO'', 0x72),
    (''LOST_STEPS'', 0x73)]"

definition TMC5160ReadRegisters :: "string list" where
  "TMC5160ReadRegisters = [''GCONF'', ''CHOPCONF'', ''GSTAT'', ''DRV_STATUS'', ''FACTORY_CONF'', ''IOIN'', ''LOST_STEPS'',
    ''MSCNT'', ''MSCURACT'', ''OTP_READ'', ''PWM_SCALE'', ''PWM_AUTO'', ''TSTEP'']"

definition TMC5160Fields :: field_table where
  "TMC5160Fields = [
    (''COOLCONF'', [(''semin'', shl 0x0F 0), (''seup'', shl 0x03 5), (''semax'', shl 0x0F 8), (''sedn'', shl 0x03 13),
        (''seimin'', shl 0x01 15), (''sgt'', shl 0x7F 16), (''sfilt'', shl 0x01 24)]),
    (''CHOPCONF'', [(''toff'', shl 0x0F 0), (''hstrt'', shl 0x07 4), (''hend'', shl 0x0F 7), (''fd3'', shl 0x01 11),
        (''disfdcc'', shl 0x01 12), (''chm'', shl 0x01 14), (''tbl'', shl 0x03 15),
        (''vhighfs'', shl 0x01 18), (''vhighchm'', shl 0x01 19), (''tpfd'', shl 0x0F 20),
        (''mres'', shl 0x0F 24), (''intpol'', shl 0x01 28), (''dedge'', shl 0x01 29),
        (''diss2g'', shl 0x01 30), (''diss2vs'', shl 0x01 31)]),
    (''DRV_STATUS'', [(''sg_result'', shl 0x3FF 0), (''s2vsa'', shl 0x01 12), (''s2vsb'', shl 0x01 13),
        (''stealth'', shl 0x01 14), (''fsactive'', shl 0x01 15), (''csactual'', shl 0xFF 16),
        (''stallguard'', shl 0x01 24), (''ot'', shl 0x01 25), (''otpw'', shl 0x01 26),
        (''s2ga'', shl 0x01 27), (''s2gb'', shl 0x01 28), (''ola'', shl 0x01 29), (''olb'', shl 0x01 30),
        (''stst'', shl 0x01 31)]),
    (''FACTORY_CONF'', [(''factory_conf'', shl 0x1F 0)]),
    (''GCONF'', [(''recalibrate'', shl 0x01 0), (''faststandstill'', shl 0x01 1), (''en_pwm_mode'', shl 0x01 2),
        (''multistep_filt'', shl 0x01 3), (''shaft'', shl 0x01 4), (''diag0_error'', shl 0x01 5),
        (''diag0_otpw'', shl 0x01 6), (''diag0_stall'', shl 0x01 7), (''diag1_stall'', shl 0x01 8),
        (''diag1_index'', shl 0x01 9), (''diag1_onstate'', shl 0x01 10),
        (''diag1_steps_skipped'', shl 0x01 11), (''diag0_int_pushpull'', shl 0x01 12),
        (''diag1_poscomp_pushpull'', shl 0x01 13), (''small_hysteresis'', shl 0x01 14),
        (''stop_enable'', shl 0x01 15), (''direct_mode'', shl 0x01 16), (''test_mode'', shl 0x01 17)]),
    (''GSTAT'', [(''reset'', shl 0x01 0), (''drv_err'', shl 0x01 1), (''uv_cp'', shl 0x01 2)]),
    (''GLOBALSCALER'', [(''globalscaler'', shl 0xFF 0)]),
    (''IHOLD_IRUN'', [(''ihold'', shl 0x1F 0), (''irun'', shl 0x1F 8), (''iholddelay'', shl 0x0F 16)]),
    (''IOIN'', [(''refl_step'', shl 0x01 0), (''refr_dir'', shl 0x01 1), (''encb_dcen_cfg4'', shl 0x01 2),
        (''enca_dcin_cfg5'', shl 0x01 3), (''drv_enn'', shl 0x01 4), (''enc_n_dco_cfg6'', shl 0x01 5),
        (''sd_mode'', shl 0x01 6), (''swcomp_in'', shl 0x01 7), (''version'', shl 0xFF 24)]),
    (''LOST_STEPS'', [(''lost_steps'', shl 0xfffff 0)]),
    (''MSLUT0'', [(''mslut0'', 0xffffffff)]),
    (''MSLUT1'', [(''mslut1'', 0xffffffff)]),
    (''MSLUT2'', [(''mslut2'', 0xffffffff)]),
    (''MSLUT3'', [(''mslut3'', 0xffffffff)]),
    (''MSLUT4'', [(''mslut4'', 0xffffffff)]),
    (''MSLUT5'', [(''mslut5'', 0xffffffff)]),
    (''MSLUT6'', [(''mslut6'', 0xffffffff)]),
    (''MSLUT7'', [(''mslut7'', 0xffffffff)]),
    (''MSLUTSEL'', [(''x3'', shl 0xFF 24), (''x2'', shl 0xFF 16), (''x1'', shl 0xFF 8), (''w3'', shl 0x03 6),
        (''w2'', shl 0x03 4), (''w1'', shl 0x03 2), (''w0'', shl 0x03 0)]),
    (''MSLUTSTART'', [(''start_sin'', shl 0xFF 0), (''start_sin90'', shl 0xFF 16)]),
    (''MSCNT'', [(''mscnt'', shl 0x3ff 0)]),
    (''MSCURACT'', [(''cur_a'', shl 0x1ff 0), (''cur_b'', shl 0x1ff 16)]),
    (''OTP_READ'', [(''otp_fclktrim'', shl 0x1f 0), (''otp_s2_level'', shl 0x01 5), (''otp_bbm'', shl 0x01 6),
        (''otp_tbl'', shl 0x01 7)]),
    (''PWM_AUTO'', [(''pwm_ofs_auto'', shl 0xff 0), (''pwm_grad_auto'', shl 0xff 16)]),
    (''PWMCONF'', [(''pwm_ofs'', shl 0xFF 0), (''pwm_grad'', shl 0xFF 8), (''pwm_freq'', shl 0x03 16),
        (''pwm_autoscale'', shl 0x01 18), (''pwm_autograd'', shl 0x01 19), (''freewheel'', shl 0x03 20),
        (''pwm_reg'', shl 0x0F 24), (''pwm_lim'', shl 0x0F 28)]),
    (''PWM_SCALE'', [(''pwm_scale_sum'', shl 0xff 0), (''pwm_scale_auto'', shl 0x1ff 16)]),
    (''TPOWERDOWN'', [(''tpowerdown'', shl 0xff 0)]),
    (''TPWMTHRS'', [(''tpwmthrs'', shl 0xfffff 0)]),
    (''TCOOLTHRS'', [(''tcoolthrs'', shl 0xfffff 0)]),
    (''THIGH'', [(''thigh'', shl 0xfffff 0)]),
    (''TSTEP'', [(''tstep'', shl 0xfffff 0)])]"

definition TMC5160SignedFields :: "string list" where
  "TMC5160SignedFields = [''cur_a'', ''cur_b'', ''sgt'', ''xactual'', ''vactual'', ''pwm_scale_auto'']"

definition TMC5160FieldFormatters :: "string \<rightharpoonup> (int \<Rightarrow> string)" where
  "TMC5160FieldFormatters = map_of [
     (''i_scale_analog'', flag ''1(ExtVREF)''), (''shaft'', flag ''1(Reverse)''),
     (''reset'', flag ''1(Reset)''), (''drv_err'', flag ''1(ErrorShutdown!)''),
     (''uv_cp'', flag ''1(Undervoltage!)''), (''version'', sprint_sharp_hex), (''mres'', usteps),
     (''otpw'', flag ''1(OvertempWarning!)''), (''ot'', flag ''1(OvertempError!)''),
     (''s2ga'', flag ''1(ShortToGND_A!)''), (''s2gb'', flag ''1(ShortToGND_B!)''),
     (''ola'', flag ''1(OpenLoad_A!)''), (''olb'', flag ''1(OpenLoad_B!)''),
     (''cs_actual'', value_or_reset), (''s2vsa'', flag ''1(ShortToSupply_A!)''),
     (''s2vsb'', flag ''1(ShortToSupply_B!)'')]"

definition TMC5160Options :: "(string \<times> cfg_default) list" where
  "TMC5160Options =
    [(''toff'', DefInt 3), (''hstrt'', DefInt 5), (''hend'', DefInt 2), (''fd3'', DefInt 0),
     (''disfdcc'', DefInt 0), (''chm'', DefInt 0), (''tbl'', DefInt 2), (''vhighfs'', DefInt 0),
     (''vhighchm'', DefInt 0), (''tpfd'', DefInt 4), (''diss2g'', DefInt 0), (''diss2vs'', DefInt 0),
     (''semin'', DefInt 0), (''seup'', DefInt 0), (''semax'', DefInt 0), (''sedn'', DefInt 0),
     (''seimin'', DefInt 0), (''sgt'', DefInt 0), (''sfilt'', DefInt 0), (''iholddelay'', DefInt 6),
     (''pwm_ofs'', DefInt 30), (''pwm_grad'', DefInt 0), (''pwm_freq'', DefInt 0),
     (''pwm_autoscale'', DefBool True), (''pwm_autograd'', DefBool True), (''freewheel'', DefInt 0),
     (''pwm_reg'', DefInt 4), (''pwm_lim'', DefInt 12), (''tpowerdown'', DefInt 10)]"

definition ConfigureTMC5160 :: "ConfigFieldSource \<Rightarrow> FieldHelper \<Rightarrow> FieldHelper result" where
  "ConfigureTMC5160 config h = set_config_fields config TMC5160Options
     (set_fields [(''multistep_filt'', 1)] h)"

section \<open>The drivers\<close>

datatype tmc_driver = TMC2130 | TMC2208 | TMC2209 | TMC2240 | TMC2660 | TMC5160

text \<open>The field helper each constructor of \<^verbatim>\<open>driver_modules.go\<close> starts from.\<close>

fun driver_fields :: "tmc_driver \<Rightarrow> FieldHelper" where
  "driver_fields TMC2130 = NewFieldHelper TMC2130Fields TMC2130SignedFields TMC2130FieldFormatters None"
| "driver_fields TMC2208 = NewFieldHelper TMC2208Fields TMC2208SignedFields TMC2208FieldFormatters None"
| "driver_fields TMC2209 = NewFieldHelper TMC2209Fields TMC2208SignedFields TMC2209FieldFormatters None"
| "driver_fields TMC2240 = NewFieldHelper TMC2240Fields TMC2240SignedFields TMC2240FieldFormatters None"
| "driver_fields TMC2660 = NewFieldHelper TMC2660Fields TMC2660SignedFields TMC2660FieldFormatters None"
| "driver_fields TMC5160 = NewFieldHelper TMC5160Fields TMC5160SignedFields TMC5160FieldFormatters None"

fun Configure :: "tmc_driver \<Rightarrow> ConfigFieldSource \<Rightarrow> FieldHelper \<Rightarrow> FieldHelper result" where
  "Configure TMC2130 = ConfigureTMC2130"
| "Configure TMC2208 = ConfigureTMC2208"
| "Configure TMC2209 = ConfigureTMC2209"
| "Configure TMC2240 = ConfigureTMC2240"
| "Configure TMC2660 = ConfigureTMC2660"
| "Configure TMC5160 = ConfigureTMC5160"

fun driver_options :: "tmc_driver \<Rightarrow> (string \<times> cfg_default) list" where
  "driver_options TMC2130 = TMC2130Options"
| "driver_options TMC2208 = TMC2208Options"
| "driver_options TMC2209 = TMC2209Options"
| "driver_options TMC2240 = TMC2240Options"
| "driver_options TMC2660 = TMC2660ChopperOptions @ TMC2660OtherOptions"
| "driver_options TMC5160 = TMC5160Options"

section \<open>The tables are well formed\<close>

lemma tables_ok:
  "table_ok TMC2130Fields" "table_ok TMC2208Fields" "table_ok TMC2209Fields"
  "table_ok TMC2240Fields" "table_ok TMC2660Fields" "table_ok TMC5160Fields"
  by code_simp+

text \<open>The value an option has when the configuration does not mention it.\<close>

definition default_value :: "int \<Rightarrow> cfg_default \<Rightarrow> int" where
  "default_value maxVal d = (if maxVal = 1 then bool_int (default_bool d) else if is_DefInt d then default_int d else default_int64 d)"

definition in_bounds :: "bool \<Rightarrow> int \<Rightarrow> int \<Rightarrow> bool" where
  "in_bounds signed maxVal v \<longleftrightarrow>
     (if signed then - (maxVal div 2 + 1) \<le> v \<and> v \<le> maxVal div 2 else 0 \<le> v \<and> v \<le> maxVal)"

definition default_fits :: "bool \<Rightarrow> int \<Rightarrow> cfg_default \<Rightarrow> bool" where
  "default_fits signed msk d =
     (let maxVal = drop_bit (ffs msk) msk in d \<noteq> Sentinel \<and> in_bounds signed maxVal (default_value maxVal d))"

text \<open>An option sets a field of a single register, and its default is a value of that field.\<close>

definition option_ok :: "FieldHelper \<Rightarrow> string \<times> cfg_default \<Rightarrow> bool" where
  "option_ok h p \<longleftrightarrow> unique_field (allFields h) (fst p) \<and>
     default_fits (is_signed h (fst p)) (field_mask (allFields h) (the_register (fst p) None h) (fst p)) (snd p)"

definition option_check :: "field_table \<Rightarrow> string list \<Rightarrow> string \<times> cfg_default \<Rightarrow> bool" where
  "option_check t signed p =
     (case filter (\<lambda>(_, fs). fst p \<in> set (map fst fs)) t of
        [] \<Rightarrow> False
      | q # qs \<Rightarrow> qs = [] \<and> default_fits (fst p \<in> set signed) (the (map_of (snd q) (fst p))) (snd p))"

lemma option_check_ok:
  assumes "table_ok t" and "list_all (option_check t signed) ds"
  shows "list_all (option_ok (NewFieldHelper t signed fmt None)) ds"
proof -
  let ?h = "NewFieldHelper t signed fmt None"
  have h: "helper_ok ?h" "allFields ?h = t" "signedFields ?h = signed"
    using NewFieldHelper_ok[OF assms(1)] by (simp_all add: NewFieldHelper_def)
  have "option_ok ?h p" if c: "option_check t signed p" for p
  proof -
    obtain r fs where r: "filter (\<lambda>(_, fs). fst p \<in> set (map fst fs)) t = [(r, fs)]"
      and d: "default_fits (fst p \<in> set signed) (the (map_of fs (fst p))) (snd p)"
      using c by (auto simp: option_check_def split: list.splits)
    have u: "unique_field t (fst p)" "own_register t (fst p) r"
      using r by (simp_all add: unique_field_def own_register_def)
    have "(r, fs) \<in> set (filter (\<lambda>(_, fs). fst p \<in> set (map fst fs)) t)" unfolding r by simp
    then have "map_of t r = Some fs" "fst p \<in> fst ` set fs" using assms(1) by (auto simp: table_ok_def)
    moreover from this obtain m where "map_of fs (fst p) = Some m" by (metis map_of_eq_None_iff option.exhaust)
    ultimately have "field_mask t r (fst p) = the (map_of fs (fst p))" by (simp add: field_mask_def)
    then show ?thesis using u d own_lookup[OF h(1)] h(2,3) by (simp add: option_ok_def)
  qed
  then show ?thesis using assms(2) by (simp add: list_all_iff)
qed

lemma options_checked:
  "list_all (option_check TMC2130Fields TMC2130SignedFields) (driver_options TMC2130)"
  "list_all (option_check TMC2208Fields TMC2208SignedFields) (driver_options TMC2208)"
  "list_all (option_check TMC2209Fields TMC2208SignedFields) (driver_options TMC2209)"
  "list_all (option_check TMC2240Fields TMC2240SignedFields) (driver_options TMC2240)"
  "list_all (option_check TMC2660Fields TMC2660SignedFields) (driver_options TMC2660)"
  "list_all (option_check TMC5160Fields TMC5160SignedFields) (driver_options TMC5160)"
  by code_simp+

lemma options_distinct:
  "distinct (map fst (driver_options TMC2130))" "distinct (map fst (driver_options TMC2208))"
  "distinct (map fst (driver_options TMC2209))" "distinct (map fst (driver_options TMC2240))"
  "distinct (map fst (driver_options TMC2660))" "distinct (map fst (driver_options TMC5160))"
  by code_simp+

lemma driver_fields_ok: "helper_ok (driver_fields d)"
  by (cases d) (simp_all add: NewFieldHelper_ok tables_ok)

lemma driver_options_ok: "list_all (option_ok (driver_fields d)) (driver_options d)"
  using options_checked by (cases d) (simp_all del: driver_options.simps add: option_check_ok tables_ok)

lemma driver_options_distinct: "distinct (map fst (driver_options d))"
  by (cases d) (simp_all only: options_distinct)

section \<open>What the configuration routines leave in the fields\<close>

lemma in_bounds_range:
  assumes "is_run msk"
  shows "in_bounds s (drop_bit (ffs msk) msk) v \<longleftrightarrow> field_range (bits_Len (nat (msk div 2 ^ ffs msk))) s v"
proof -
  obtain w where w: "0 < w" "msk div 2 ^ ffs msk = mask w" using assms is_ones_mask by (auto simp: is_run_def)
  obtain u where u: "w = Suc u" using w(1) by (cases w) auto
  have "bits_Len (nat (mask w)) = w"
    using bits_Len_ge[of u "mask w"] by (simp add: u nat_mask_eq) (simp add: mask_eq_exp_minus_1)
  moreover have "mask w div 2 = (2 ^ u - 1 :: int)" "mask w = (2 ^ w - 1 :: int)" by (simp_all add: u mask_eq_exp_minus_1)
  ultimately show ?thesis using w by (auto simp: in_bounds_def field_range_def drop_bit_eq_div u)
qed

lemma configure_reads:
  assumes h: "helper_ok h" "same_layout (driver_fields d) h" and c: "Configure d config h = Inr h'"
    and p: "(f, dflt) \<in> set (driver_options d)"
  shows "\<exists>v. configured config (driver_fields d) f dflt = Inr v \<and>
    Get_field f None None h' = field_value (field_width (driver_fields d) f) (is_signed (driver_fields d) f) v"
proof -
  have run: "\<exists>v. configured config (driver_fields d) f dflt = Inr v \<and>
      Get_field f None None h' = field_value (field_width (driver_fields d) f) (is_signed (driver_fields d) f) v"
    if "set_config_fields config (driver_options d) (set_fields fs h) = Inr h'" for fs
  proof -
    have l: "helper_ok (set_fields fs h)" "same_layout (driver_fields d) (set_fields fs h)"
      using set_fields_layout[OF h(1), of fs] same_layout_trans[OF h(2)] by auto
    have "\<forall>p \<in> set (driver_options d). unique_field (allFields (set_fields fs h)) (fst p)"
      using driver_options_ok[of d] same_layout_eqs(4)[OF l(2)] by (simp add: list_all_iff option_ok_def)
    from set_config_fields_reads[OF l(1) driver_options_distinct this that] p
    show ?thesis using same_layout_eqs[OF l(2)] by auto
  qed
  have split: "set_config_fields config (as @ bs) g = bindR (set_config_fields config as g) (set_config_fields config bs)" for as bs g
    by (induction as arbitrary: g) (auto simp: bindR_def split: sum.splits)
  show ?thesis
  proof (cases d)
    case TMC2660
    then show ?thesis
      using c by (intro run[of "[(''sdoff'', 0)]"]) (auto simp: ConfigureTMC2660_def split go_results split: if_splits)
  qed (use c run in \<open>auto simp: ConfigureTMC2130_def ConfigureTMC2208_def ConfigureTMC2209_def ConfigureTMC2240_def
      ConfigureTMC5160_def simp del: set_fields.simps\<close>)
qed

lemma configured_absent:
  assumes "sec (''driver_'' @ ToUpper f) = None" and "d \<noteq> Sentinel"
  shows "configured (config_source sec) h f d =
    Inr (let m = field_mask (allFields h) (the_register f None h) f in default_value (drop_bit (ffs m) m) d)"
  using assms
  by (auto simp: configured_def Let_def config_value_def config_source_def wrapper_Getboolean_def wrapper_Getint_def
      wrapper_Getint64_def getDefault_def Has_option_def default_value_def)

lemma option_mask:
  assumes "(f, dflt) \<in> set (driver_options d)"
  shows "is_run (field_mask (allFields (driver_fields d)) (the_register f None (driver_fields d)) f)"
    and "0 < field_width (driver_fields d) f"
proof -
  let ?h = "driver_fields d"
  have u: "unique_field (allFields ?h) f" using driver_options_ok[of d] assms by (auto simp: list_all_iff option_ok_def)
  then obtain r where r: "own_register (allFields ?h) f r" by (rule unique_fieldE)
  have t: "table_ok (allFields ?h)" using driver_fields_ok[of d] by (simp add: helper_ok_def)
  obtain fs m where m: "map_of (allFields ?h) r = Some fs" "map_of fs f = Some m" by (rule own_field[OF t r])
  show "is_run (field_mask (allFields ?h) (the_register f None ?h) f)"
    using table_mask(1,2)[OF t m] own_lookup[OF driver_fields_ok r] by simp
  show "0 < field_width ?h f" by (rule Set_Get_truncated(1)[OF driver_fields_ok r])
qed

text \<open>
  C29.  The register tables of all six drivers are well formed: every mask is a run of ones within 32
  bits, the fields of a register do not overlap and have different names; every option a
  configuration routine reads sets a field that belongs to one register only, no option is read
  twice, and every default lies between the bounds the routine asks of a configured value.
\<close>

theorem driver_tables_well_formed:
  "table_ok (allFields (driver_fields d)) \<and> distinct (map fst (driver_options d)) \<and>
   list_all (option_ok (driver_fields d)) (driver_options d)"
  using driver_fields_ok[of d] driver_options_ok[of d] driver_options_distinct[of d] by (simp add: helper_ok_def)

text \<open>
  C30.  When a driver's configuration routine succeeds on a section, every field it sets reads back
  what the section gave: the configured value at the width of the field, that very value if it lies
  within the field's range, and the routine's default if the section has no such option.
\<close>

theorem configured_fields_read_back:
  fixes sec :: config_section
  assumes "helper_ok h" and "same_layout (driver_fields d) h"
    and "Configure d (config_source sec) h = Inr h'"
    and "(f, dflt) \<in> set (driver_options d)"
  shows "\<exists>v. configured (config_source sec) h f dflt = Inr v \<and>
      Get_field f None None h' = field_value (field_width h f) (is_signed h f) v \<and>
      (field_range (field_width h f) (is_signed h f) v \<longrightarrow> Get_field f None None h' = v) \<and>
      (sec (''driver_'' @ ToUpper f) = None \<longrightarrow> Get_field f None None h' =
        default_value (let m = field_mask (allFields h) (the_register f None h) f in drop_bit (ffs m) m) dflt)"
proof -
  note eqs = same_layout_eqs[OF assms(2)]
  obtain v where v: "configured (config_source sec) h f dflt = Inr v"
      "Get_field f None None h' = field_value (field_width h f) (is_signed h f) v"
    using configure_reads[OF assms] by (auto simp: eqs)
  have w: "0 < field_width h f" using option_mask(2)[OF assms(4)] by (simp add: eqs)
  have id: "Get_field f None None h' = v" if "field_range (field_width h f) (is_signed h f) v"
    using field_value_id[OF w that] field_value_take[OF w] v(2) by simp
  let ?m = "field_mask (allFields h) (the_register f None h) f"
  have m: "?m = field_mask (allFields (driver_fields d)) (the_register f None (driver_fields d)) f"
    using assms(2) by (simp add: same_layout_def the_register_def)
  have fits: "default_fits (is_signed h f) ?m dflt"
    using driver_options_ok[of d] assms(4) unfolding m by (auto simp: list_all_iff option_ok_def eqs)
  have absent: "Get_field f None None h' = default_value (let m = ?m in drop_bit (ffs m) m) dflt"
    if "sec (''driver_'' @ ToUpper f) = None"
  proof -
    have vd: "v = default_value (drop_bit (ffs ?m) ?m) dflt"
      using v(1) configured_absent[of sec f dflt h] that fits by (simp add: default_fits_def Let_def)
    have "is_run ?m" unfolding m by (rule option_mask(1)[OF assms(4)])
    then have "field_range (field_width h f) (is_signed h f) v"
      using fits in_bounds_range[of ?m] by (simp add: default_fits_def Let_def vd field_width_def)
    then show ?thesis using id vd by (simp add: Let_def)
  qed
  show ?thesis using v id absent by (intro exI[of _ v] conjI impI)
qed

definition demo_section :: config_section where
  "demo_section = map_of [(''driver_HEND'', ''7''), (''driver_TOFF'', ''-1'')]"

theorem configured_fields_read_back_witness:
  "\<exists>h'. Configure TMC2660 (config_source demo_section) (driver_fields TMC2660) = Inr h' \<and>
     Get_field ''hend'' None None h' = 7 \<and> Get_field ''toff'' None None h' = 15 \<and>
     Get_field ''tbl'' None None h' = 2"
proof -
  let ?h = "driver_fields TMC2660"
  have "\<not> isl (Configure TMC2660 (config_source demo_section) ?h)"
    by code_simp
  then obtain h' where h': "Configure TMC2660 (config_source demo_section) ?h = Inr h'"
    unfolding isl_def by (metis sum.exhaust)
  have o: "(''hend'', DefInt 3) \<in> set (driver_options TMC2660)" "(''toff'', DefInt 4) \<in> set (driver_options TMC2660)"
    "(''tbl'', DefInt 2) \<in> set (driver_options TMC2660)" by code_simp+
  note reads = configured_fields_read_back[OF driver_fields_ok same_layout_refl h']
  have c: "configured (config_source demo_section) ?h ''hend'' (DefInt 3) = Inr 7"
    "configured (config_source demo_section) ?h ''toff'' (DefInt 4) = Inr (- 1)"
    "configured (config_source demo_section) ?h ''tbl'' (DefInt 2) = Inr 2"
    by code_simp+
  have e: "field_value (field_width ?h ''hend'') (is_signed ?h ''hend'') 7 = 7"
    "field_value (field_width ?h ''toff'') (is_signed ?h ''toff'') (- 1) = 15"
    "field_value (field_width ?h ''tbl'') (is_signed ?h ''tbl'') 2 = 2"
    by code_simp+
  have r: "Get_field f None None h' = x"
    if "(f, dflt) \<in> set (driver_options TMC2660)" "configured (config_source demo_section) ?h f dflt = Inr v"
      "field_value (field_width ?h f) (is_signed ?h f) v = x" for f dflt v x
    using reads[OF that(1)] that(2,3) by (metis sum.inject(2))
  show ?thesis using h' r[OF o(1) c(1) e(1)] r[OF o(2) c(2) e(2)] r[OF o(3) c(3) e(3)] by (intro exI[of _ h'] conjI)
qed

end
