(* ===== verification/TmcHoming.thy ===== *)
theory TmcHoming
  imports TmcTables
begin

text \<open>
  Sensorless homing (\<^verbatim>\<open>tmc/virtual_pin_core.go\<close>): before a homing move the helper changes the
  fields that enable stall detection, remembering what they were, and sends the registers it
  has touched to the driver; after the move it puts the fields back.  The driver's register access is
  a parameter, a function that sends one register and may fail.
\<close>

section \<open>The helper\<close>

record VirtualPinHelperCore =
  vp_fields :: FieldHelper
  diagPin :: "string option"
  diagPinField :: "string option"
  dirtyRegs :: "(string \<times> int) list"
  dirtyOrder :: "string list"
  prevFields :: "(string \<times> int) list"
  prevOrder :: "string list"

type_synonym 's register_sink = "'s \<Rightarrow> string \<Rightarrow> int \<Rightarrow> real option \<Rightarrow> unit result \<times> 's"

definition NewVirtualPinHelperCore :: "(string \<rightharpoonup> string) \<Rightarrow> FieldHelper \<Rightarrow> VirtualPinHelperCore" where
  "NewVirtualPinHelperCore config h =
     (let (pin, fld) =
        (if Lookup_register ''diag0_stall'' h \<noteq> None then
           if config ''diag0_pin'' \<noteq> None then (config ''diag0_pin'', Some ''diag0_stall'')
           else (config ''diag1_pin'', Some ''diag1_stall'')
         else (config ''diag_pin'', None))
      in \<lparr>vp_fields = h, diagPin = pin, diagPinField = fld, dirtyRegs = [], dirtyOrder = [], prevFields = [], prevOrder = []\<rparr>)"

definition queueField :: "string \<Rightarrow> int \<Rightarrow> VirtualPinHelperCore \<Rightarrow> VirtualPinHelperCore" where
  "queueField fieldName fieldValue self =
     (case Lookup_register fieldName (vp_fields self) of None \<Rightarrow> self
      | Some regName \<Rightarrow>
          let self1 = (if map_of (prevFields self) fieldName \<noteq> None then self
                       else self\<lparr>prevFields := (fieldName, Get_field fieldName None None (vp_fields self)) # prevFields self,
                                 prevOrder := prevOrder self @ [fieldName]\<rparr>);
              (regValue, h) = Set_field fieldName fieldValue None None (vp_fields self);
              self2 = self1\<lparr>vp_fields := h\<rparr>;
              self3 = (if map_of (dirtyRegs self) regName \<noteq> None then self2
                       else self2\<lparr>dirtyOrder := dirtyOrder self @ [regName]\<rparr>)
          in self3\<lparr>dirtyRegs := AList.update regName regValue (dirtyRegs self)\<rparr>)"

fun send_registers :: "'s register_sink \<Rightarrow> (string \<times> int) list \<Rightarrow> real option \<Rightarrow> string list \<Rightarrow> 's \<Rightarrow> unit result \<times> 's" where
  "send_registers sink regs printTime [] s = (Inr (), s)"
| "send_registers sink regs printTime (r # rs) s =
     (case sink s r (case map_of regs r of None \<Rightarrow> 0 | Some v \<Rightarrow> v) printTime of
        (Inl e, s') \<Rightarrow> (Inl e, s')
      | (Inr _, s') \<Rightarrow> send_registers sink regs printTime rs s')"

definition sendQueuedFields :: "'s register_sink \<Rightarrow> real option \<Rightarrow> VirtualPinHelperCore \<Rightarrow> 's \<Rightarrow>
    unit result \<times> VirtualPinHelperCore \<times> 's" where
  "sendQueuedFields sink printTime self s =
     (case send_registers sink (dirtyRegs self) printTime (dirtyOrder self) s of
        (Inl e, s') \<Rightarrow> (Inl e, self, s')
      | (Inr _, s') \<Rightarrow> (Inr (), self\<lparr>dirtyRegs := [], dirtyOrder := []\<rparr>, s'))"

definition queueDiag :: "VirtualPinHelperCore \<Rightarrow> VirtualPinHelperCore" where
  "queueDiag self = (case diagPinField self of None \<Rightarrow> self | Some f \<Rightarrow> queueField f 1 self)"

definition homing_fields :: "int \<Rightarrow> VirtualPinHelperCore \<Rightarrow> VirtualPinHelperCore" where
  "homing_fields tcoolthrsIfZero self =
     (let h = vp_fields self;
          sg4Thrs = (if Lookup_register ''sg4_thrs'' h \<noteq> None then Get_field ''sg4_thrs'' None None h else 0);
          self1 = (if Lookup_register ''en_pwm_mode'' h = None then
                     queueField ''en_spreadcycle'' 0 (queueField ''tpwmthrs'' 0 self)
                   else if sg4Thrs \<noteq> 0 then
                     queueDiag (queueField ''tpwmthrs'' 0 (queueField ''en_pwm_mode'' 1 self))
                   else queueDiag (queueField ''en_pwm_mode'' 0 self));
          self2 = (if Get_field ''tcoolthrs'' None None (vp_fields self1) = 0 then queueField ''tcoolthrs'' tcoolthrsIfZero self1
                   else self1)
      in if Lookup_register ''thigh'' (vp_fields self2) \<noteq> None then queueField ''thigh'' 0 self2 else self2)"

definition BeginHoming :: "'s register_sink \<Rightarrow> int \<Rightarrow> VirtualPinHelperCore \<Rightarrow> 's \<Rightarrow>
    unit result \<times> VirtualPinHelperCore \<times> 's" where
  "BeginHoming sink tcoolthrsIfZero self s = sendQueuedFields sink None (homing_fields tcoolthrsIfZero self) s"

definition BeginMoveHoming :: "'s register_sink \<Rightarrow> VirtualPinHelperCore \<Rightarrow> 's \<Rightarrow>
    unit result \<times> VirtualPinHelperCore \<times> 's" where
  "BeginMoveHoming sink self s =
     (case sendQueuedFields sink None (queueField ''tcoolthrs'' 0 self) s of
        (Inl e, self', s') \<Rightarrow> (Inl e, self', s')
      | (Inr _, self', s') \<Rightarrow> BeginHoming sink 500 self' s')"

definition queue_previous :: "VirtualPinHelperCore \<Rightarrow> VirtualPinHelperCore" where
  "queue_previous self =
     fold (\<lambda>f self'. queueField f (case map_of (prevFields self') f of None \<Rightarrow> 0 | Some v \<Rightarrow> v) self') (prevOrder self) self"

definition EndHoming :: "'s register_sink \<Rightarrow> real option \<Rightarrow> VirtualPinHelperCore \<Rightarrow> 's \<Rightarrow>
    unit result \<times> VirtualPinHelperCore \<times> 's" where
  "EndHoming sink printTime self s =
     (case sendQueuedFields sink printTime (queue_previous self) s of
        (Inl e, self', s') \<Rightarrow> (Inl e, self', s')
      | (Inr _, self', s') \<Rightarrow> (Inr (), self'\<lparr>prevFields := [], prevOrder := []\<rparr>, s'))"

section \<open>Restoring fields\<close>

text \<open>
  What the homing helper needs of the field helper: the laws of a store of named fields, with \<open>same\<close>
  relating stores that have the same fields.
\<close>

locale field_store =
  fixes ok :: "'h \<Rightarrow> bool" and field :: "'h \<Rightarrow> string \<Rightarrow> bool" and same :: "'h \<Rightarrow> 'h \<Rightarrow> bool"
    and get :: "string \<Rightarrow> 'h \<Rightarrow> int" and put :: "string \<Rightarrow> int \<Rightarrow> 'h \<Rightarrow> 'h"
  assumes put_ok: "ok h \<Longrightarrow> ok (put f v h)"
    and put_same: "same h0 h \<Longrightarrow> same h0 (put f v h)"
    and same_field: "same h0 h \<Longrightarrow> field h f \<longleftrightarrow> field h0 f"
    and get_other: "ok h \<Longrightarrow> field h f \<Longrightarrow> field h g \<Longrightarrow> f \<noteq> g \<Longrightarrow> get g (put f v h) = get g h"
    and get_back: "ok h0 \<Longrightarrow> ok h \<Longrightarrow> same h0 h \<Longrightarrow> field h0 f \<Longrightarrow> get f (put f (get f h0) h) = get f h0"
begin

definition agree_except :: "'h \<Rightarrow> string set \<Rightarrow> 'h \<Rightarrow> bool" where
  "agree_except h0 fs h \<longleftrightarrow> ok h \<and> same h0 h \<and> (\<forall>g. field h0 g \<and> g \<notin> fs \<longrightarrow> get g h = get g h0)"

lemma put_agree: "agree_except h0 fs h \<Longrightarrow> field h0 f \<Longrightarrow> agree_except h0 (insert f fs) (put f v h)"
  by (auto simp: agree_except_def put_ok put_same same_field get_other)

lemma put_back_agree:
  assumes "ok h0" and "agree_except h0 fs h" and "field h0 f"
  shows "agree_except h0 (fs - {f}) (put f (get f h0) h)"
  unfolding agree_except_def
proof (intro conjI allI impI)
  show "ok (put f (get f h0) h)" "same h0 (put f (get f h0) h)" using assms by (auto simp: agree_except_def put_ok put_same)
  fix g assume g: "field h0 g \<and> g \<notin> fs - {f}"
  show "get g (put f (get f h0) h) = get g h0"
  proof (cases "g = f")
    case True
    then show ?thesis using assms by (simp add: agree_except_def get_back)
  next
    case False
    then show ?thesis using assms g by (auto simp: agree_except_def get_other same_field)
  qed
qed

end

lemma field_value_range: "0 < w \<Longrightarrow> field_range w s (field_value w s x)"
proof (cases s)
  case True
  assume "0 < w"
  then show ?thesis
    using True signed_take_bit_int_greater_eq_minus_exp[of "w - 1" x] signed_take_bit_int_less_exp[of "w - 1" x]
    by (simp add: field_range_def field_value_def)
next
  case False
  then show ?thesis using take_bit_int_less_exp[of w x] by (simp add: field_range_def field_value_def)
qed

lemma Get_field_range:
  assumes "helper_ok h" and "own_register (allFields h) f r"
  shows "field_range (field_width h f) (is_signed h f) (Get_field f None None h)"
proof -
  have t: "table_ok (allFields h)" using assms(1) by (simp add: helper_ok_def)
  obtain fs m where m: "map_of (allFields h) r = Some fs" "map_of fs f = Some m" by (rule own_field[OF t assms(2)])
  obtain k w where kw: "0 < w" "k \<le> 64" "m = run_mask k w" by (rule is_run_mask[OF table_mask(1)[OF t m]])
  have "field_width h f = w" by (rule field_width_own[OF assms m(1) m(2)[unfolded kw(3)] kw(1,2)])
  moreover have "Get_field f None None h = field_value w (is_signed h f) (drop_bit k (the_value r None h))"
    unfolding Get_field_own[OF assms m] kw(3) by (rule extract_run[OF kw(1,2)])
  ultimately show ?thesis using kw(1) by (simp add: field_value_range)
qed

interpretation fh: field_store helper_ok "\<lambda>h f. unique_field (allFields h) f" same_layout
  "\<lambda>f h. Get_field f None None h" "\<lambda>f v h. snd (Set_field f v None None h)"
proof unfold_locales
  fix h0 h :: FieldHelper and f g :: string and v :: int
  show "helper_ok h \<Longrightarrow> helper_ok (snd (Set_field f v None None h))" by (rule Set_field_ok)
  show "same_layout h0 h \<Longrightarrow> same_layout h0 (snd (Set_field f v None None h))"
    by (rule same_layout_trans[OF _ Set_field_layout])
  show "same_layout h0 h \<Longrightarrow> unique_field (allFields h) f \<longleftrightarrow> unique_field (allFields h0) f"
    by (simp add: same_layout_def)
  show "helper_ok h \<Longrightarrow> unique_field (allFields h) f \<Longrightarrow> unique_field (allFields h) g \<Longrightarrow> f \<noteq> g \<Longrightarrow>
      Get_field g None None (snd (Set_field f v None None h)) = Get_field g None None h"
    by (elim unique_fieldE) (rule Set_Get_other)
  assume a: "helper_ok h0" "helper_ok h" "same_layout h0 h" "unique_field (allFields h0) f"
  obtain r where r: "own_register (allFields h0) f r" by (rule unique_fieldE[OF a(4)])
  note eqs = same_layout_eqs[OF a(3)]
  show "Get_field f None None (snd (Set_field f (Get_field f None None h0) None None h)) = Get_field f None None h0"
    using Set_Get_field[OF a(2), of f r "Get_field f None None h0"] Get_field_range[OF a(1) r] r by (simp add: eqs)
qed

section \<open>The invariant of a homing session\<close>

text \<open>What a register sink does: a register that was sent is in the driver, the others are as they were.\<close>

definition sink_ok :: "'s register_sink \<Rightarrow> ('s \<Rightarrow> string \<Rightarrow> int option) \<Rightarrow> bool" where
  "sink_ok sink dev \<longleftrightarrow>
     (\<forall>s r v t. (\<forall>q. q \<noteq> r \<longrightarrow> dev (snd (sink s r v t)) q = dev s q) \<and>
                (fst (sink s r v t) = Inr () \<longrightarrow> dev (snd (sink s r v t)) r = Some v))"

definition homing_names :: "string list" where
  "homing_names = [''tpwmthrs'', ''en_spreadcycle'', ''en_pwm_mode'', ''diag0_stall'', ''diag1_stall'', ''tcoolthrs'', ''thigh'']"

text \<open>The fields homing touches are in one register, if the driver has them.\<close>

definition homing_table :: "field_table \<Rightarrow> bool" where
  "homing_table t \<longleftrightarrow> list_all (\<lambda>f. length (filter (\<lambda>(_, fs). f \<in> set (map fst fs)) t) \<le> 1) homing_names"

definition restorable :: "FieldHelper \<Rightarrow> VirtualPinHelperCore \<Rightarrow> bool" where
  "restorable h0 self \<longleftrightarrow>
     fh.agree_except h0 (set (prevOrder self)) (vp_fields self) \<and>
     fst ` set (prevFields self) = set (prevOrder self) \<and>
     (\<forall>f v. map_of (prevFields self) f = Some v \<longrightarrow> unique_field (allFields h0) f \<and> v = Get_field f None None h0) \<and>
     (\<forall>f. diagPinField self = Some f \<longrightarrow> f \<in> set homing_names)"

definition coherent :: "('s \<Rightarrow> string \<Rightarrow> int option) \<Rightarrow> VirtualPinHelperCore \<Rightarrow> 's \<Rightarrow> bool" where
  "coherent dev self s \<longleftrightarrow>
     (\<forall>r v. map_of (dirtyRegs self) r = Some v \<longrightarrow> map_of (registers (vp_fields self)) r = Some v) \<and>
     set (dirtyOrder self) = fst ` set (dirtyRegs self) \<and>
     (\<forall>r. r \<notin> set (dirtyOrder self) \<longrightarrow> dev s r = map_of (registers (vp_fields self)) r)"

lemma index_fields_Some: "index_fields t f = Some r \<Longrightarrow> \<exists>fs. (r, fs) \<in> set t \<and> f \<in> fst ` set fs"
proof -
  have "fold (\<lambda>(r, fs). index_register r fs) t idx f = Some r \<Longrightarrow> idx f \<noteq> Some r \<Longrightarrow>
      \<exists>fs. (r, fs) \<in> set t \<and> f \<in> fst ` set fs" for idx
  proof (induction t arbitrary: idx)
    case (Cons p t)
    obtain q fs where p: "p = (q, fs)" by (cases p rule: prod.exhaust)
    show ?case
    proof (cases "index_register q fs idx f = Some r")
      case True
      then show ?thesis using Cons.prems(2) by (auto simp: p index_register_eq split: if_splits)
    next
      case False
      then show ?thesis using Cons.IH[of "index_register q fs idx"] Cons.prems(1) by (auto simp: p)
    qed
  qed simp
  then show "index_fields t f = Some r \<Longrightarrow> \<exists>fs. (r, fs) \<in> set t \<and> f \<in> fst ` set fs" by (simp add: index_fields_def)
qed

lemma homing_unique:
  assumes "homing_table t" and "f \<in> set homing_names" and "index_fields t f = Some r"
  shows "unique_field t f"
proof -
  obtain fs where "(r, fs) \<in> set t" "f \<in> fst ` set fs" using index_fields_Some[OF assms(3)] by blast
  then have "filter (\<lambda>(_, fs). f \<in> fst ` set fs) t \<noteq> []" by (auto simp: filter_empty_conv)
  moreover have "length (filter (\<lambda>(_, fs). f \<in> fst ` set fs) t) \<le> 1"
    using assms(1,2) by (simp add: homing_table_def list_all_iff)
  ultimately show ?thesis by (simp add: unique_field_def le_Suc_eq)
qed

lemma restorable_layout:
  assumes "restorable h0 self"
  shows "allFields (vp_fields self) = allFields h0" "fieldToRegister (vp_fields self) = fieldToRegister h0"
    "helper_ok (vp_fields self)"
  using assms by (simp_all add: restorable_def fh.agree_except_def same_layout_def)

text \<open>A field is remembered the first time it is changed.\<close>

definition remember :: "string \<Rightarrow> VirtualPinHelperCore \<Rightarrow> VirtualPinHelperCore" where
  "remember f self =
     (if map_of (prevFields self) f \<noteq> None then self
      else self\<lparr>prevFields := (f, Get_field f None None (vp_fields self)) # prevFields self, prevOrder := prevOrder self @ [f]\<rparr>)"

lemma remember_sel [simp]:
  "vp_fields (remember f self) = vp_fields self" "diagPinField (remember f self) = diagPinField self"
  by (simp_all add: remember_def)

lemma queueField_eqs:
  assumes "Lookup_register f (vp_fields self) = Some r"
  shows "vp_fields (queueField f v self) = snd (Set_field f v None None (vp_fields self))"
    "prevFields (queueField f v self) = prevFields (remember f self)"
    "prevOrder (queueField f v self) = prevOrder (remember f self)"
    "diagPinField (queueField f v self) = diagPinField self"
    "dirtyRegs (queueField f v self) = AList.update r (fst (Set_field f v None None (vp_fields self))) (dirtyRegs self)"
    "set (dirtyOrder (queueField f v self)) =
       (if map_of (dirtyRegs self) r \<noteq> None then set (dirtyOrder self) else insert r (set (dirtyOrder self)))"
  using assms by (simp_all add: queueField_def remember_def Let_def case_prod_beta)

lemma remember_restorable:
  assumes "restorable h0 self" and "unique_field (allFields h0) f"
  shows "restorable h0 (remember f self)" "f \<in> set (prevOrder (remember f self))"
    "set (prevOrder self) \<subseteq> set (prevOrder (remember f self))"
proof -
  have "map_of (prevFields self) f = None \<longleftrightarrow> f \<notin> set (prevOrder self)"
    using assms(1) by (auto simp: restorable_def map_of_eq_None_iff)
  then show "restorable h0 (remember f self)" "f \<in> set (prevOrder (remember f self))"
    "set (prevOrder self) \<subseteq> set (prevOrder (remember f self))"
    using assms by (auto simp: restorable_def remember_def fh.agree_except_def)
qed

lemma queueField_restorable:
  assumes "restorable h0 self" and "Lookup_register f (vp_fields self) \<noteq> None \<Longrightarrow> unique_field (allFields h0) f"
  shows "restorable h0 (queueField f v self)"
proof (cases "Lookup_register f (vp_fields self)")
  case None
  then show ?thesis using assms(1) by (simp add: queueField_def)
next
  case (Some r)
  then have u: "unique_field (allFields h0) f" using assms(2) by simp
  note R = remember_restorable[OF assms(1) u]
  have a: "fh.agree_except h0 (set (prevOrder (remember f self))) (vp_fields self)"
    using R(1) by (simp add: restorable_def)
  have "fh.agree_except h0 (insert f (set (prevOrder (remember f self)))) (snd (Set_field f v None None (vp_fields self)))"
    by (rule fh.put_agree[OF a u])
  then have "fh.agree_except h0 (set (prevOrder (remember f self))) (snd (Set_field f v None None (vp_fields self)))"
    using R(2) by (simp add: insert_absorb)
  then show ?thesis using R(1) assms(1) by (simp add: restorable_def queueField_eqs[OF Some])
qed

lemma queueField_coherent:
  assumes "coherent dev self s"
  shows "coherent dev (queueField f v self) s"
proof (cases "Lookup_register f (vp_fields self)")
  case None
  then show ?thesis using assms by (simp add: queueField_def)
next
  case (Some r)
  let ?h = "vp_fields self"
  have r: "the_register f None ?h = r" using Some by (simp add: the_register_def Lookup_register_def)
  have m: "map_of (registers (snd (Set_field f v None None ?h))) = (map_of (registers ?h))(r \<mapsto> fst (Set_field f v None None ?h))"
    using registers_Set_field[of f v None None ?h] by (simp add: r)
  have d: "map_of (dirtyRegs self) r \<noteq> None \<longleftrightarrow> r \<in> set (dirtyOrder self)"
    using assms by (auto simp: coherent_def map_of_eq_None_iff)
  have o: "set (dirtyOrder (queueField f v self)) = insert r (set (dirtyOrder self))"
    using d by (auto simp: queueField_eqs[OF Some])
  have u: "fst ` set (AList.update k x al) = insert k (fst ` set al)" for k :: string and x :: int and al
    using dom_update[of k x al] by (simp add: dom_map_of_conv_image_fst[symmetric])
  show ?thesis
    using assms unfolding coherent_def o
    by (auto simp: queueField_eqs(1,5)[OF Some] m u update_conv')
qed

lemma send_registers_ok:
  assumes "sink_ok sink dev" and "send_registers sink regs t rs s = (res, s')"
  shows "(\<forall>q. q \<notin> set rs \<longrightarrow> dev s' q = dev s q) \<and>
    (res = Inr () \<longrightarrow> (\<forall>q \<in> set rs. dev s' q = Some (case map_of regs q of None \<Rightarrow> 0 | Some v \<Rightarrow> v)))"
  using assms(2)
proof (induction rs arbitrary: s)
  case (Cons r rs)
  let ?v = "case map_of regs r of None \<Rightarrow> 0 | Some v \<Rightarrow> v"
  obtain x s1 where x: "sink s r ?v t = (x, s1)" by (cases "sink s r ?v t")
  have k: "\<forall>q. q \<noteq> r \<longrightarrow> dev s1 q = dev s q" "x = Inr () \<longrightarrow> dev s1 r = Some ?v"
    using assms(1) x by (metis sink_ok_def fst_conv snd_conv)+
  show ?case
  proof (cases x)
    case (Inl e)
    then show ?thesis using Cons.prems k x by auto
  next
    case (Inr u)
    then have rest: "send_registers sink regs t rs s1 = (res, s')" using Cons.prems x by simp
    note IH = Cons.IH[OF rest]
    have "q \<in> set (r # rs) \<Longrightarrow> res = Inr () \<Longrightarrow> dev s' q = Some (case map_of regs q of None \<Rightarrow> 0 | Some v \<Rightarrow> v)" for q
      using IH k(2) Inr by (cases "q \<in> set rs") auto
    then show ?thesis using IH k(1) by auto
  qed
qed auto

lemma sendQueuedFields_ok:
  assumes "sink_ok sink dev" and "coherent dev self s" and "sendQueuedFields sink t self s = (res, self', s')"
  shows "coherent dev self' s'" "vp_fields self' = vp_fields self" "prevFields self' = prevFields self"
    "prevOrder self' = prevOrder self" "diagPinField self' = diagPinField self" "res = Inr () \<Longrightarrow> dirtyOrder self' = []"
proof -
  obtain x s1 where x: "send_registers sink (dirtyRegs self) t (dirtyOrder self) s = (x, s1)"
    by (cases "send_registers sink (dirtyRegs self) t (dirtyOrder self) s")
  note S = send_registers_ok[OF assms(1) x]
  have e: "res = x \<and> s' = s1 \<and> self' = (if x = Inr () then self\<lparr>dirtyRegs := [], dirtyOrder := []\<rparr> else self)"
    using assms(3) by (auto simp: sendQueuedFields_def x split: sum.splits)
  have "dev s1 q = map_of (registers (vp_fields self)) q" if "x = Inr ()" for q
  proof (cases "q \<in> set (dirtyOrder self)")
    case True
    then obtain v where "map_of (dirtyRegs self) q = Some v"
      using assms(2) by (metis coherent_def map_of_eq_None_iff option.exhaust)
    then show ?thesis using True S that assms(2) by (auto simp: coherent_def)
  next
    case False
    then show ?thesis using S assms(2) by (simp add: coherent_def)
  qed
  then show "coherent dev self' s'"
    using e S assms(2) by (auto simp: coherent_def)
  show "vp_fields self' = vp_fields self" "prevFields self' = prevFields self"
    "prevOrder self' = prevOrder self" "diagPinField self' = diagPinField self" "res = Inr () \<Longrightarrow> dirtyOrder self' = []"
    using e by (auto split: if_splits)
qed

lemma restorable_cong:
  assumes "restorable h0 self" and "vp_fields self' = vp_fields self" "prevFields self' = prevFields self"
    "prevOrder self' = prevOrder self" "diagPinField self' = diagPinField self"
  shows "restorable h0 self'"
  using assms by (simp add: restorable_def)

lemma queue_named:
  assumes "restorable h0 self" and "helper_ok h0" "homing_table (allFields h0)" and "f \<in> set homing_names"
  shows "restorable h0 (queueField f v self)"
proof (rule queueField_restorable[OF assms(1)])
  assume "Lookup_register f (vp_fields self) \<noteq> None"
  then obtain r where "index_fields (allFields h0) f = Some r"
    using restorable_layout(2)[OF assms(1)] assms(2) by (auto simp: Lookup_register_def helper_ok_def)
  then show "unique_field (allFields h0) f" by (rule homing_unique[OF assms(3,4)])
qed

text \<open>A step of a session; the operations may fail at any register.\<close>

inductive pin_step :: "'s register_sink \<Rightarrow> VirtualPinHelperCore \<times> 's \<Rightarrow> VirtualPinHelperCore \<times> 's \<Rightarrow> bool"
  for sink where
  begin_homing: "BeginHoming sink v self s = (res, self', s') \<Longrightarrow> pin_step sink (self, s) (self', s')"
| begin_move: "BeginMoveHoming sink self s = (res, self', s') \<Longrightarrow> pin_step sink (self, s) (self', s')"
| end_homing: "EndHoming sink t self s = (res, self', s') \<Longrightarrow> pin_step sink (self, s) (self', s')"

inductive pin_run :: "'s register_sink \<Rightarrow> VirtualPinHelperCore \<times> 's \<Rightarrow> VirtualPinHelperCore \<times> 's \<Rightarrow> bool"
  for sink where
  stop: "pin_run sink x x"
| step: "pin_run sink x y \<Longrightarrow> pin_step sink y z \<Longrightarrow> pin_run sink x z"

definition session_ok :: "FieldHelper \<Rightarrow> ('s \<Rightarrow> string \<Rightarrow> int option) \<Rightarrow> VirtualPinHelperCore \<times> 's \<Rightarrow> bool" where
  "session_ok h0 dev x \<longleftrightarrow> restorable h0 (fst x) \<and> coherent dev (fst x) (snd x)"

lemma queue_session:
  assumes "helper_ok h0" "homing_table (allFields h0)" and "f \<in> set homing_names" and "session_ok h0 dev (self, s)"
  shows "session_ok h0 dev (queueField f v self, s)"
  using assms queue_named queueField_coherent by (auto simp: session_ok_def)

lemma diag_session:
  assumes "helper_ok h0" "homing_table (allFields h0)" and "session_ok h0 dev (self, s)"
  shows "session_ok h0 dev (queueDiag self, s)"
  using assms queue_session[OF assms(1,2) _ assms(3)]
  by (auto simp: queueDiag_def session_ok_def restorable_def split: option.splits)

lemma homing_fields_session:
  assumes "helper_ok h0" "homing_table (allFields h0)" and "session_ok h0 dev (self, s)"
  shows "session_ok h0 dev (homing_fields v self, s)"
proof -
  note q = queue_session[OF assms(1,2)] and d = diag_session[OF assms(1,2)]
  have n: "''tpwmthrs'' \<in> set homing_names" "''en_spreadcycle'' \<in> set homing_names" "''en_pwm_mode'' \<in> set homing_names"
    "''tcoolthrs'' \<in> set homing_names" "''thigh'' \<in> set homing_names" by (simp_all add: homing_names_def)
  show ?thesis
    unfolding homing_fields_def Let_def using assms(3) by (auto intro!: q d n)
qed

lemma send_session:
  assumes "sink_ok sink dev" and "session_ok h0 dev (self, s)" and "sendQueuedFields sink t self s = (res, self', s')"
  shows "session_ok h0 dev (self', s')"
  using sendQueuedFields_ok[OF assms(1) _ assms(3)] assms(2) restorable_cong[of h0 self self'] by (simp add: session_ok_def)

lemma queue_previous_session:
  assumes "helper_ok h0" and "session_ok h0 dev (self, s)"
  shows "session_ok h0 dev (queue_previous self, s)" "fh.agree_except h0 {} (vp_fields (queue_previous self))"
    "prevFields (queue_previous self) = prevFields self" "prevOrder (queue_previous self) = prevOrder self"
proof -
  let ?q = "\<lambda>f self'. queueField f (case map_of (prevFields self') f of None \<Rightarrow> 0 | Some v \<Rightarrow> v) self'"
  have R: "restorable h0 self" "coherent dev self s" using assms(2) by (simp_all add: session_ok_def)
  have "session_ok h0 dev (fold ?q fs x, s) \<and> fh.agree_except h0 (A - set fs) (vp_fields (fold ?q fs x)) \<and>
      prevFields (fold ?q fs x) = prevFields x \<and> prevOrder (fold ?q fs x) = prevOrder x"
    if "restorable h0 x" "coherent dev x s" "fh.agree_except h0 A (vp_fields x)" "set fs \<subseteq> set (prevOrder x)" for fs x A
    using that
  proof (induction fs arbitrary: x A)
    case Nil
    then show ?case by (simp add: session_ok_def)
  next
    case (Cons f fs)
    have "f \<in> fst ` set (prevFields x)" using Cons.prems(1,4) by (simp add: restorable_def)
    then obtain v where v: "map_of (prevFields x) f = Some v" by (metis map_of_eq_None_iff option.exhaust)
    then have u: "unique_field (allFields h0) f" "v = Get_field f None None h0" using Cons.prems(1) by (auto simp: restorable_def)
    have "\<exists>r. Lookup_register f (vp_fields x) = Some r"
      using u(1) restorable_layout[OF Cons.prems(1)] assms(1) index_own
      by (metis Lookup_register_def helper_ok_def unique_fieldE)
    then obtain r where r: "Lookup_register f (vp_fields x) = Some r" ..
    have rem: "remember f x = x" using v by (simp add: remember_def)
    let ?x = "queueField f v x"
    have p: "prevFields ?x = prevFields x" "prevOrder ?x = prevOrder x" by (simp_all add: queueField_eqs[OF r] rem)
    have "fh.agree_except h0 (A - {f}) (vp_fields ?x)"
      using fh.put_back_agree[OF assms(1) Cons.prems(3) u(1)] by (simp add: queueField_eqs(1)[OF r] u(2))
    from Cons.IH[OF queueField_restorable[OF Cons.prems(1)] queueField_coherent[OF Cons.prems(2)] this]
    show ?case using u(1) Cons.prems(4) p by (simp add: v Diff_insert2[symmetric] insert_commute)
  qed
  from this[OF R, of "set (prevOrder self)" "prevOrder self"] R(1)
  show "session_ok h0 dev (queue_previous self, s)" "fh.agree_except h0 {} (vp_fields (queue_previous self))"
    "prevFields (queue_previous self) = prevFields self" "prevOrder (queue_previous self) = prevOrder self"
    by (simp_all add: restorable_def queue_previous_def)
qed

lemma EndHoming_session:
  assumes "sink_ok sink dev" "helper_ok h0" and "session_ok h0 dev (self, s)" and "EndHoming sink t self s = (res, self', s')"
  shows "session_ok h0 dev (self', s')"
    and "res = Inr () \<Longrightarrow> prevOrder self' = [] \<and> dirtyOrder self' = []"
proof -
  obtain x self1 s1 where x: "sendQueuedFields sink t (queue_previous self) s = (x, self1, s1)"
    by (cases "sendQueuedFields sink t (queue_previous self) s")
  note Q = queue_previous_session[OF assms(2,3)]
  have c: "coherent dev (queue_previous self) s" using Q(1) by (simp add: session_ok_def)
  note S = sendQueuedFields_ok[OF assms(1) c x] and s1 = send_session[OF assms(1) Q(1) x]
  have e: "res = x \<and> s' = s1 \<and> self' = (if x = Inr () then self1\<lparr>prevFields := [], prevOrder := []\<rparr> else self1)"
    using assms(4) by (auto simp: EndHoming_def x split: sum.splits)
  have "restorable h0 (self1\<lparr>prevFields := [], prevOrder := []\<rparr>)"
    using Q(2) S(2) s1 by (simp add: restorable_def session_ok_def)
  then show "session_ok h0 dev (self', s')" using e s1 by (auto simp: session_ok_def coherent_def)
  show "res = Inr () \<Longrightarrow> prevOrder self' = [] \<and> dirtyOrder self' = []" using e S(6) by simp
qed

lemma pin_step_session:
  assumes "sink_ok sink dev" "helper_ok h0" "homing_table (allFields h0)"
    and "pin_step sink x y" and "session_ok h0 dev x"
  shows "session_ok h0 dev y"
  using assms(4,5)
proof cases
  case (begin_homing v self s res self' s')
  then have "sendQueuedFields sink None (homing_fields v self) s = (res, self', s')" "session_ok h0 dev (self, s)"
    using assms(5) by (simp_all add: BeginHoming_def)
  then show ?thesis
    using send_session[OF assms(1) homing_fields_session[OF assms(2,3)]] begin_homing(2) by simp
next
  case (begin_move self s res self' s')
  have n: "''tcoolthrs'' \<in> set homing_names" by (simp add: homing_names_def)
  obtain r1 self1 s1 where r1: "sendQueuedFields sink None (queueField ''tcoolthrs'' 0 self) s = (r1, self1, s1)"
    by (cases "sendQueuedFields sink None (queueField ''tcoolthrs'' 0 self) s")
  have 1: "session_ok h0 dev (self1, s1)"
    using send_session[OF assms(1) queue_session[OF assms(2,3) n] r1] assms(5) begin_move(1) by simp
  show ?thesis
  proof (cases r1)
    case (Inl e)
    then show ?thesis using begin_move 1 by (simp add: BeginMoveHoming_def r1)
  next
    case (Inr u)
    then have "sendQueuedFields sink None (homing_fields 500 self1) s1 = (res, self', s')"
      using begin_move(3) by (simp add: BeginMoveHoming_def BeginHoming_def r1)
    then show ?thesis using send_session[OF assms(1) homing_fields_session[OF assms(2,3) 1]] begin_move(2) by simp
  qed
next
  case (end_homing t self s res self' s')
  then show ?thesis using assms(5) EndHoming_session(1)[OF assms(1,2)] by simp
qed

lemma pin_run_session:
  assumes "pin_run sink x y" and "sink_ok sink dev" "helper_ok h0" "homing_table (allFields h0)" and "session_ok h0 dev x"
  shows "session_ok h0 dev y"
  using assms(1,5) by (induction rule: pin_run.induct) (auto intro: pin_step_session[OF assms(2-4)])

lemma homing_tables:
  "homing_table TMC2130Fields" "homing_table TMC2208Fields" "homing_table TMC2209Fields"
  "homing_table TMC2240Fields" "homing_table TMC2660Fields" "homing_table TMC5160Fields"
  by code_simp+

lemma driver_homing_table: "homing_table (allFields (driver_fields d))"
  by (cases d) (simp_all add: NewFieldHelper_def homing_tables)

lemma new_session:
  assumes "helper_ok h" and "\<forall>r. dev s r = map_of (registers h) r"
  shows "session_ok h dev (NewVirtualPinHelperCore config h, s)"
  using assms by (auto simp: session_ok_def restorable_def coherent_def fh.agree_except_def NewVirtualPinHelperCore_def
      Let_def homing_names_def)

text \<open>
  C35.  Homing puts everything back.  Start with a field helper whose register values are those of the
  driver, and run any sequence of homing preparations and clean-ups, any of which may fail at any
  register; once a clean-up succeeds, every field that belongs to one register has the value
  it had at the start, and every register of the driver holds the helper's value again.
\<close>

theorem homing_restores_driver:
  assumes "sink_ok sink dev" and "helper_ok h" and "same_layout (driver_fields d) h"
    and "\<forall>r. dev s r = map_of (registers h) r"
    and "pin_run sink (NewVirtualPinHelperCore config h, s) (self, s1)"
    and "EndHoming sink printTime self s1 = (Inr (), self', s')"
  shows "(\<forall>f. unique_field (allFields h) f \<longrightarrow> Get_field f None None (vp_fields self') = Get_field f None None h) \<and>
     (\<forall>r. dev s' r = map_of (registers (vp_fields self')) r)"
proof -
  have t: "homing_table (allFields h)" using driver_homing_table[of d] assms(3) by (simp add: same_layout_def)
  have "session_ok h dev (self, s1)"
    using pin_run_session[OF assms(5,1,2) t] new_session[of h dev s config] assms(2,4) by simp
  from EndHoming_session[OF assms(1,2) this assms(6)]
  have "session_ok h dev (self', s')" "prevOrder self' = []" "dirtyOrder self' = []" by simp_all
  then show ?thesis by (simp add: session_ok_def restorable_def coherent_def fh.agree_except_def)
qed

definition demo_sink :: "(string \<Rightarrow> int option) register_sink" where
  "demo_sink m r v t = (Inr (), m(r \<mapsto> v))"

definition demo_helper :: FieldHelper where
  "demo_helper = snd (Set_field ''en_pwm_mode'' 1 None None (driver_fields TMC2130))"

theorem homing_restores_driver_witness:
  "\<exists>self s1 self' s'. BeginMoveHoming demo_sink (NewVirtualPinHelperCore Map.empty demo_helper) (map_of (registers demo_helper)) =
       (Inr (), self, s1) \<and> EndHoming demo_sink None self s1 = (Inr (), self', s') \<and>
     Get_field ''en_pwm_mode'' None None (vp_fields self) = 0 \<and> Get_field ''en_pwm_mode'' None None (vp_fields self') = 1"
proof -
  let ?c = "NewVirtualPinHelperCore Map.empty demo_helper" and ?s = "map_of (registers demo_helper)"
  have s: "fst (sendQueuedFields demo_sink t c x) = Inr ()" for t c x
  proof -
    have "fst (send_registers demo_sink regs t rs y) = Inr ()" for regs rs y
      by (induction rs arbitrary: y) (simp_all add: demo_sink_def)
    then show ?thesis by (auto simp: sendQueuedFields_def split: prod.splits sum.splits) (metis fst_conv sum.distinct(1))
  qed
  have "fst (EndHoming demo_sink t c x) = Inr ()" for t c x
    using s[of t "queue_previous c" x] by (auto simp: EndHoming_def split: prod.splits sum.splits)
  moreover have "fst (BeginMoveHoming demo_sink c x) = Inr ()" for c x
    by (cases "sendQueuedFields demo_sink None (queueField ''tcoolthrs'' 0 c) x")
      (use s[of None "queueField ''tcoolthrs'' 0 c" x] in \<open>simp add: BeginMoveHoming_def BeginHoming_def s\<close>)
  ultimately obtain self s1 self' s' where b: "BeginMoveHoming demo_sink ?c ?s = (Inr (), self, s1)"
    and e: "EndHoming demo_sink None self s1 = (Inr (), self', s')"
    by (metis prod.collapse)
  have k: "sink_ok demo_sink id" by (simp add: sink_ok_def demo_sink_def)
  have h: "helper_ok demo_helper" "same_layout (driver_fields TMC2130) demo_helper"
    unfolding demo_helper_def by (rule Set_field_ok[OF driver_fields_ok], rule Set_field_layout)
  have r: "pin_run demo_sink (?c, ?s) (self, s1)" using b by (blast intro: pin_run.intros pin_step.intros)
  have u: "unique_field (allFields demo_helper) ''en_pwm_mode''" by code_simp
  have "Get_field ''en_pwm_mode'' None None (vp_fields self') = Get_field ''en_pwm_mode'' None None demo_helper"
    using homing_restores_driver[OF k h _ r e] u by simp
  moreover have "Get_field ''en_pwm_mode'' None None demo_helper = 1" by code_simp
  moreover have "Get_field ''en_pwm_mode'' None None (vp_fields (fst (snd (BeginMoveHoming demo_sink ?c ?s)))) = 0" by code_simp
  ultimately show ?thesis using b e by (intro exI conjI) simp_all
qed

end
