(* ===== verification/TmcUart.thy ===== *)
theory TmcUart
  imports TmcFields
begin

text \<open>
  The serial datagrams of the drivers (\<^verbatim>\<open>tmc/transport_codecs.go\<close>): the CRC, the framing of
  bytes with start and stop bits, the read and write requests and the reply; and the register
  access built on them (\<^verbatim>\<open>tmc/uart_transport_runtime.go\<close>).  Big integers are integers.
\<close>

section \<open>The codec\<close>

fun crc_bits :: "nat \<Rightarrow> int \<Rightarrow> int \<Rightarrow> int" where
  "crc_bits 0 b crc = crc"
| "crc_bits (Suc n) b crc =
     crc_bits n (drop_bit 1 b)
       ((if drop_bit 7 crc XOR (b AND 0x01) \<noteq> 0 then shl crc 1 XOR 0x07 else shl crc 1) AND 0xff)"

definition CalcCRC8ATM :: "int list \<Rightarrow> int" where
  "CalcCRC8ATM data = fold (crc_bits 8) data 0"

fun serial_from :: "nat \<Rightarrow> int \<Rightarrow> int list \<Rightarrow> int" where
  "serial_from pos out [] = out"
| "serial_from pos out (d # ds) = serial_from (pos + 10) (out OR shl (shl d 1 OR 0x200) pos) ds"

definition AddSerialBits :: "int list \<Rightarrow> int list" where
  "AddSerialBits data =
     (let out = serial_from 0 0 data; end1 = (10 * length data + 7) div 8
      in map (\<lambda>i. drop_bit (i * 8) out AND 0xff) [0..<end1])"

definition EncodeUARTRead :: "int \<Rightarrow> int \<Rightarrow> int \<Rightarrow> int list" where
  "EncodeUARTRead sync addr reg =
     (let msg = [sync, addr, reg] in AddSerialBits (msg @ [CalcCRC8ATM msg]))"

definition EncodeUARTWrite :: "int \<Rightarrow> int \<Rightarrow> int \<Rightarrow> int \<Rightarrow> int list" where
  "EncodeUARTWrite sync addr reg val =
     (let msg = [sync, addr, reg, drop_bit 24 val AND 0xff, drop_bit 16 val AND 0xff, drop_bit 8 val AND 0xff, val AND 0xff]
      in AddSerialBits (msg @ [CalcCRC8ATM msg]))"

fun join_bytes :: "nat \<Rightarrow> int \<Rightarrow> int list \<Rightarrow> int" where
  "join_bytes pos mval [] = mval"
| "join_bytes pos mval (d # ds) = join_bytes (pos + 8) (mval OR shl (take_bit 64 d) pos) ds"

definition DecodeUARTRead :: "int \<Rightarrow> int list \<Rightarrow> int option" where
  "DecodeUARTRead reg data =
     (if length data \<noteq> 10 then None
      else let mval = join_bytes 0 0 data;
               val = shl (drop_bit 31 mval AND 0xff) 24 OR shl (drop_bit 41 mval AND 0xff) 16 OR
                     shl (drop_bit 51 mval AND 0xff) 8 OR (drop_bit 61 mval AND 0xff)
           in if data \<noteq> EncodeUARTWrite 0x05 0xff reg val then None else Some val)"

section \<open>The bit-banged transport\<close>

text \<open>
  The micro-controller exchanges datagrams with the driver: a payload goes out and a number of
  bytes comes back, or the query fails with a panic.  The line, the micro-controller and the driver
  behind it are the parameter \<open>wire\<close> acting on a state of its own.
\<close>

datatype wire_reply = Reply "int list" | WirePanic string

type_synonym 's wire = "'s \<Rightarrow> int list \<Rightarrow> nat \<Rightarrow> wire_reply \<times> 's"

definition bitbang_ReadRegister :: "'s wire \<Rightarrow> int \<Rightarrow> int \<Rightarrow> 's \<Rightarrow> (string + int option) \<times> 's" where
  "bitbang_ReadRegister wire addr reg s =
     (case wire s (EncodeUARTRead 0xf5 addr reg) 10 of
        (Reply rawRead, s') \<Rightarrow> (Inr (DecodeUARTRead reg rawRead), s')
      | (WirePanic m, s') \<Rightarrow> (Inl m, s'))"

definition bitbang_WriteRegister :: "'s wire \<Rightarrow> int \<Rightarrow> int \<Rightarrow> int \<Rightarrow> 's \<Rightarrow> (string + unit) \<times> 's" where
  "bitbang_WriteRegister wire addr reg val s =
     (let writeReg = reg OR 0x80
      in case wire s (EncodeUARTWrite 0xf5 addr writeReg val) 0 of
           (Reply _, s') \<Rightarrow> (Inr (), s')
         | (WirePanic m, s') \<Rightarrow> (Inl m, s'))"

section \<open>Register access with retries\<close>

record UARTTransportRuntime =
  uart_name :: string
  nameToReg :: "string \<rightharpoonup> int"
  uart_addr :: int
  debugEnabled :: bool
  ifcnt :: int
  hasIFCNT :: bool

text \<open>An unknown register name reads as zero, as a Go map does.\<close>

definition reg_of :: "UARTTransportRuntime \<Rightarrow> string \<Rightarrow> int" where
  "reg_of rt regName = (case nameToReg rt regName of None \<Rightarrow> 0 | Some r \<Rightarrow> r)"

definition isUARTTransportRetryableTimeout :: "string \<Rightarrow> bool" where
  "isUARTTransportRetryableTimeout m \<longleftrightarrow>
     HasPrefix m (''Timeout on wait for '' @ [CHR 39] @ ''tmcuart_response'' @ [CHR 39]) \<or>
     HasPrefix m (''Timeout on send for '' @ [CHR 39] @ ''tmcuart_response'' @ [CHR 39])"

definition transportReadRegister :: "'s wire \<Rightarrow> UARTTransportRuntime \<Rightarrow> int \<Rightarrow> 's \<Rightarrow> int option result \<times> 's" where
  "transportReadRegister wire rt reg s =
     (case bitbang_ReadRegister wire (uart_addr rt) reg s of
        (Inr v, s') \<Rightarrow> (Inr v, s')
      | (Inl m, s') \<Rightarrow> (if isUARTTransportRetryableTimeout m then Inr None else Inl (GoPanic m), s'))"

definition transportWriteRegister :: "'s wire \<Rightarrow> UARTTransportRuntime \<Rightarrow> int \<Rightarrow> int \<Rightarrow> 's \<Rightarrow> bool result \<times> 's" where
  "transportWriteRegister wire rt reg val s =
     (case bitbang_WriteRegister wire (uart_addr rt) reg val s of
        (Inr _, s') \<Rightarrow> (Inr True, s')
      | (Inl m, s') \<Rightarrow> (if isUARTTransportRetryableTimeout m then Inr False else Inl (GoPanic m), s'))"

fun read_tries :: "'s wire \<Rightarrow> UARTTransportRuntime \<Rightarrow> int \<Rightarrow> nat \<Rightarrow> 's \<Rightarrow> int option result \<times> 's" where
  "read_tries wire rt reg 0 s = (Inr None, s)"
| "read_tries wire rt reg (Suc n) s =
     (case transportReadRegister wire rt reg s of
        (Inl e, s') \<Rightarrow> (Inl e, s')
      | (Inr (Some v), s') \<Rightarrow> (Inr (Some v), s')
      | (Inr None, s') \<Rightarrow> read_tries wire rt reg n s')"

definition unable :: "string \<Rightarrow> UARTTransportRuntime \<Rightarrow> string \<Rightarrow> string" where
  "unable what rt regName = ''Unable to '' @ what @ '' tmc uart '' @ [CHR 39] @ uart_name rt @ [CHR 39] @ '' register '' @ regName"

definition readRegister :: "'s wire \<Rightarrow> UARTTransportRuntime \<Rightarrow> string \<Rightarrow> 's \<Rightarrow> int result \<times> 's" where
  "readRegister wire rt regName s =
     (case read_tries wire rt (reg_of rt regName) 10 s of
        (Inl e, s') \<Rightarrow> (Inl e, s')
      | (Inr (Some v), s') \<Rightarrow> (Inr v, s')
      | (Inr None, s') \<Rightarrow> (Inl (GoError (unable ''read'' rt regName)), s'))"

definition uart_GetRegister :: "'s wire \<Rightarrow> UARTTransportRuntime \<Rightarrow> string \<Rightarrow> 's \<Rightarrow> int result \<times> 's" where
  "uart_GetRegister wire rt regName s = (if debugEnabled rt then (Inr 0, s) else readRegister wire rt regName s)"

fun poll_tries :: "'s wire \<Rightarrow> int \<Rightarrow> int \<Rightarrow> nat \<Rightarrow> bool \<Rightarrow> UARTTransportRuntime \<Rightarrow> 's \<Rightarrow>
    (bool \<times> bool) result \<times> UARTTransportRuntime \<times> 's" where
  "poll_tries wire reg expected 0 sawRead rt s = (Inr (False, sawRead), rt, s)"
| "poll_tries wire reg expected (Suc n) sawRead rt s =
     (case transportReadRegister wire rt reg s of
        (Inl e, s') \<Rightarrow> (Inl e, rt, s')
      | (Inr None, s') \<Rightarrow> poll_tries wire reg expected n sawRead rt s'
      | (Inr (Some next1), s') \<Rightarrow>
          let rt' = rt\<lparr>ifcnt := next1, hasIFCNT := True\<rparr>
          in if next1 = expected then (Inr (True, True), rt', s')
             else poll_tries wire reg expected n True rt' s')"

definition pollIFCNTAfterWrite :: "'s wire \<Rightarrow> int \<Rightarrow> UARTTransportRuntime \<Rightarrow> 's \<Rightarrow>
    (bool \<times> bool) result \<times> UARTTransportRuntime \<times> 's" where
  "pollIFCNTAfterWrite wire expected rt s = poll_tries wire (reg_of rt ''IFCNT'') expected 10 False rt s"

text \<open>The counter before a write: the cached one, or one read from the driver.\<close>

definition known_ifcnt :: "'s wire \<Rightarrow> UARTTransportRuntime \<Rightarrow> 's \<Rightarrow> unit result \<times> UARTTransportRuntime \<times> 's" where
  "known_ifcnt wire rt s =
     (if hasIFCNT rt then (Inr (), rt, s)
      else case readRegister wire rt ''IFCNT'' s of
             (Inl e, s') \<Rightarrow> (Inl e, rt, s')
           | (Inr v, s') \<Rightarrow> (Inr (), rt\<lparr>ifcnt := v, hasIFCNT := True\<rparr>, s'))"

fun is_panic :: "go_error \<Rightarrow> bool" where
  "is_panic (GoError m) = False"
| "is_panic e = True"

fun err_text :: "go_error \<Rightarrow> string" where
  "err_text (GoError m) = m"
| "err_text (GoPanic m) = m"
| "err_text e = []"

text \<open>One pass of the write loop: done, a panic, or the error to report if it was the last.\<close>

datatype write_outcome = Written | Panicked go_error | Retry string

definition write_attempt :: "'s wire \<Rightarrow> int \<Rightarrow> int \<Rightarrow> nat \<Rightarrow> UARTTransportRuntime \<Rightarrow> 's \<Rightarrow>
    write_outcome \<times> UARTTransportRuntime \<times> 's" where
  "write_attempt wire reg val i rt s =
     (case known_ifcnt wire rt s of
        (Inl e, rt1, s1) \<Rightarrow>
          (if is_panic e then Panicked e
           else Retry (''reading IFCNT before write attempt '' @ FormatInt (int i) @ '': '' @ err_text e), rt1, s1)
      | (Inr _, rt1, s1) \<Rightarrow>
          (case transportWriteRegister wire rt1 reg val s1 of
             (Inl e, s2) \<Rightarrow> (Panicked e, rt1, s2)
           | (Inr False, s2) \<Rightarrow>
               (Retry (''transport timeout on write attempt '' @ FormatInt (int i)), rt1\<lparr>hasIFCNT := False\<rparr>, s2)
           | (Inr True, s2) \<Rightarrow>
               (let expected = (ifcnt rt1 + 1) AND 0xff
                in case pollIFCNTAfterWrite wire expected rt1 s2 of
                     (Inl e, rt2, s3) \<Rightarrow> (Panicked e, rt2, s3)
                   | (Inr (True, _), rt2, s3) \<Rightarrow> (Written, rt2, s3)
                   | (Inr (False, False), rt2, s3) \<Rightarrow>
                       (Retry (''reading IFCNT after write attempt '' @ FormatInt (int i) @ '': '' @
                               unable ''read'' rt2 ''IFCNT''), rt2\<lparr>hasIFCNT := False\<rparr>, s3)
                   | (Inr (False, True), rt2, s3) \<Rightarrow>
                       (Retry (''IFCNT unchanged after write attempt '' @ FormatInt (int i) @ '' (before='' @
                               FormatInt (ifcnt rt1) @ '' after='' @ FormatInt (ifcnt rt2) @ '' expected='' @
                               FormatInt expected @ '')''), rt2, s3))))"

fun write_tries :: "'s wire \<Rightarrow> string \<Rightarrow> int \<Rightarrow> int \<Rightarrow> nat \<Rightarrow> nat \<Rightarrow> string option \<Rightarrow> UARTTransportRuntime \<Rightarrow> 's \<Rightarrow>
    unit result \<times> UARTTransportRuntime \<times> 's" where
  "write_tries wire regName reg val 0 i lastErr rt s =
     (Inl (GoError (unable ''write'' rt regName @ (case lastErr of None \<Rightarrow> [] | Some m \<Rightarrow> '': '' @ m))), rt, s)"
| "write_tries wire regName reg val (Suc n) i lastErr rt s =
     (case write_attempt wire reg val i rt s of
        (Written, rt', s') \<Rightarrow> (Inr (), rt', s')
      | (Panicked e, rt', s') \<Rightarrow> (Inl e, rt', s')
      | (Retry m, rt', s') \<Rightarrow> write_tries wire regName reg val n (i + 1) (Some m) rt' s')"

definition uart_SetRegister :: "'s wire \<Rightarrow> string \<Rightarrow> int \<Rightarrow> real option \<Rightarrow> UARTTransportRuntime \<Rightarrow> 's \<Rightarrow>
    unit result \<times> UARTTransportRuntime \<times> 's" where
  "uart_SetRegister wire regName val printTime rt s =
     (if debugEnabled rt then (Inr (), rt, s)
      else let reg = reg_of rt regName
           in if printTime \<noteq> None then
                (case transportWriteRegister wire rt reg val s of
                   (Inl e, s') \<Rightarrow> (Inl e, rt, s')
                 | (Inr False, s') \<Rightarrow> (Inl (GoError ''transport timeout on scheduled write''), rt, s')
                 | (Inr True, s') \<Rightarrow> (Inr (), rt\<lparr>hasIFCNT := False\<rparr>, s'))
              else write_tries wire regName reg val 10 1 None rt s)"

section \<open>Frames and bytes\<close>

definition bytes :: "int list \<Rightarrow> bool" where
  "bytes ds \<longleftrightarrow> (\<forall>d \<in> set ds. 0 \<le> d \<and> d < 256)"

lemma bytes_simps [simp]:
  "bytes []" "bytes (d # ds) \<longleftrightarrow> 0 \<le> d \<and> d < 256 \<and> bytes ds" "bytes (as @ bs) \<longleftrightarrow> bytes as \<and> bytes bs"
  by (auto simp: bytes_def)

lemma and_ff: "x AND 0xff = take_bit 8 (x::int)"
  by (simp add: take_bit_eq_mask mask_eq_exp_minus_1)

lemma or_add:
  fixes a b :: int
  assumes "0 \<le> a" "a < 2 ^ n"
  shows "a OR push_bit n b = a + push_bit n b"
proof -
  have "a = take_bit n a" using assms by (simp add: take_bit_int_eq_self)
  then have "\<not> bit a i" if "n \<le> i" for i using that by (metis bit_take_bit_iff not_less)
  then have "a AND push_bit n b = 0" by (auto simp: bit_eq_iff bit_simps)
  then show ?thesis using plus_and_or[of a "push_bit n b"] by simp
qed

lemma or_frame:
  assumes "0 \<le> d" "d < 256"
  shows "shl d 1 OR 0x200 = 2 * d + 512"
  using or_add[of "2 * d" 9 1] assms by (simp add: shl_def push_bit_eq_mult mult.commute)

fun frames :: "int list \<Rightarrow> int" where
  "frames [] = 0"
| "frames (d # ds) = (2 * d + 512) + 1024 * frames ds"

lemma frames_range: "bytes ds \<Longrightarrow> 0 \<le> frames ds \<and> frames ds < 1024 ^ length ds"
  by (induction ds) auto

lemma serial_from_frames: "bytes ds \<Longrightarrow> serial_from pos out ds = out OR push_bit pos (frames ds)"
proof (induction ds arbitrary: pos out)
  case (Cons d ds)
  have d: "0 \<le> d" "d < 256" using Cons.prems by simp_all
  have f: "(2 * d + 512) OR push_bit 10 (frames ds) = frames (d # ds)"
    using or_add[of "2 * d + 512" 10 "frames ds"] d by (simp add: push_bit_eq_mult)
  have s: "shl (shl d 1 OR 0x200) pos = push_bit pos (2 * d + 512)"
    by (simp only: or_frame[OF d]) (simp add: shl_def push_bit_eq_mult)
  have p: "push_bit (pos + 10) (frames ds) = push_bit pos (push_bit 10 (frames ds))" by (simp add: add.commute)
  have "serial_from pos out (d # ds) = (out OR push_bit pos (2 * d + 512)) OR push_bit (pos + 10) (frames ds)"
    using Cons by (simp only: serial_from.simps s bytes_simps)
  then show ?case by (simp only: p or.assoc f[symmetric] push_bit_or)
qed simp

text \<open>Frame \<open>j\<close> carries byte \<open>j\<close> after its start bit.\<close>

lemma frames_byte: "bytes ds \<Longrightarrow> j < length ds \<Longrightarrow> take_bit 8 (drop_bit (10 * j + 1) (frames ds)) = ds ! j"
proof (induction ds arbitrary: j)
  case (Cons d ds)
  have d: "0 \<le> d" "d < 256" using Cons.prems by simp_all
  show ?case
  proof (cases j)
    case 0
    have "(d + 256 * k) mod 256 = d" for k using d by (simp only: mod_mult_self2 mod_pos_pos_trivial)
    moreover have "drop_bit 1 (frames (d # ds)) = d + 256 * (1 + 2 * frames ds)" by (simp add: drop_bit_eq_div)
    moreover have "take_bit 8 x = x mod 256" for x :: int by (simp add: take_bit_eq_mod)
    ultimately have "take_bit 8 (drop_bit 1 (frames (d # ds))) = d" by (simp only:)
    then show ?thesis using 0 by simp
  next
    case (Suc i)
    have "(2 * d + 512 + 1024 * frames ds) div 1024 = frames ds" using d by simp
    then have "drop_bit 10 (frames (d # ds)) = frames ds" by (simp add: drop_bit_eq_div)
    then have "drop_bit (10 * j + 1) (frames (d # ds)) = drop_bit (10 * i + 1) (frames ds)"
      using drop_bit_drop_bit[of "10 * i + 1" 10 "frames (d # ds)"] by (simp del: frames.simps add: Suc add.commute)
    then show ?thesis using Cons Suc by simp
  qed
qed simp

fun unbytes :: "int list \<Rightarrow> int" where
  "unbytes [] = 0"
| "unbytes (b # bs) = b + 256 * unbytes bs"

lemma join_bytes_unbytes: "bytes bs \<Longrightarrow> join_bytes pos acc bs = acc OR push_bit pos (unbytes bs)"
proof (induction bs arbitrary: pos acc)
  case (Cons b bs)
  have b: "0 \<le> b" "b < 256" using Cons.prems by simp_all
  have f: "b OR push_bit 8 (unbytes bs) = unbytes (b # bs)"
    using or_add[of b 8 "unbytes bs"] b by (simp add: push_bit_eq_mult)
  have "shl (take_bit 64 b) pos = push_bit pos b" using b by (simp add: shl_def push_bit_eq_mult take_bit_int_eq_self)
  moreover have "push_bit (pos + 8) (unbytes bs) = push_bit pos (push_bit 8 (unbytes bs))" by (simp add: add.commute)
  ultimately show ?case
    using Cons by (simp only: join_bytes.simps bytes_simps or.assoc f[symmetric] push_bit_or)
qed simp

lemma unbytes_split: "unbytes (map (\<lambda>i. take_bit 8 (drop_bit (i * 8) x)) [0..<n]) = take_bit (8 * n) x"
proof (induction n arbitrary: x)
  case (Suc n)
  have "map (\<lambda>i. take_bit 8 (drop_bit (i * 8) x)) [0..<Suc n] =
      take_bit 8 x # map (\<lambda>i. take_bit 8 (drop_bit (i * 8) (drop_bit 8 x))) [0..<n]"
    by (simp add: upt_conv_Cons map_Suc_upt[symmetric] del: upt_Suc) (simp add: add.commute)
  moreover have "take_bit 8 x + 256 * take_bit (8 * n) (drop_bit 8 x) = take_bit (8 * Suc n) x"
  proof -
    have "take_bit (8 + 8 * n) x = take_bit 8 x + push_bit 8 (take_bit (8 * n) (drop_bit 8 x))"
      using zmod_zmult2_eq[of "2 ^ (8 * n)" x "2 ^ 8"] by (simp add: take_bit_eq_mod drop_bit_eq_div push_bit_eq_mult power_add)
    then show ?thesis by (simp add: push_bit_eq_mult algebra_simps)
  qed
  ultimately show ?case using Suc.IH[of "drop_bit 8 x"] by simp
qed simp

lemma shl_push: "shl x n = push_bit n x"
  by (simp add: shl_def push_bit_eq_mult)

lemma take_bit_8_less [simp]: "take_bit 8 (x::int) < 256"
  using take_bit_int_less_exp[of 8 x] by simp

lemma take_bit_32_less: "take_bit 32 (x::int) < 2 ^ 32"
  by (rule take_bit_int_less_exp)

lemma AddSerialBits_bytes: "bytes (AddSerialBits ds)" "length (AddSerialBits ds) = (10 * length ds + 7) div 8"
  by (auto simp: AddSerialBits_def Let_def bytes_def and_ff)

lemma AddSerialBits_join:
  assumes "bytes ds"
  shows "join_bytes 0 0 (AddSerialBits ds) = frames ds"
proof -
  define n where "n = (10 * length ds + 7) div 8"
  have "10 * length ds \<le> 8 * n" by (simp add: n_def)
  then have "frames ds < 2 ^ (8 * n)"
    using frames_range[OF assms] power_increasing[of "10 * length ds" "8 * n" "2::int"] by (simp add: power_mult)
  then have t: "take_bit (8 * n) (frames ds) = frames ds" using frames_range[OF assms] by (simp add: take_bit_int_eq_self)
  have "AddSerialBits ds = map (\<lambda>i. take_bit 8 (drop_bit (i * 8) (frames ds))) [0..<n]"
    using serial_from_frames[OF assms, of 0 0] by (simp add: AddSerialBits_def Let_def and_ff n_def)
  then have "unbytes (AddSerialBits ds) = frames ds" using unbytes_split[of "frames ds" n] t by simp
  then show ?thesis using join_bytes_unbytes[OF AddSerialBits_bytes(1), of 0 0] by simp
qed

lemma crc_byte: "0 \<le> crc \<Longrightarrow> crc < 256 \<Longrightarrow> 0 \<le> crc_bits n b crc \<and> crc_bits n b crc < 256"
proof (induction n arbitrary: b crc)
  case (Suc n)
  have "0 \<le> x AND 0xff \<and> x AND 0xff < 256" for x :: int by (simp add: and_ff)
  then show ?case using Suc.IH by simp
qed simp

lemma CalcCRC8ATM_byte: "0 \<le> CalcCRC8ATM ds \<and> CalcCRC8ATM ds < 256"
proof -
  have "0 \<le> c \<Longrightarrow> c < 256 \<Longrightarrow> 0 \<le> fold (crc_bits 8) ds c \<and> fold (crc_bits 8) ds c < 256" for c
    by (induction ds arbitrary: c) (simp_all add: crc_byte)
  then show ?thesis by (simp add: CalcCRC8ATM_def)
qed

definition write_msg :: "int \<Rightarrow> int \<Rightarrow> int \<Rightarrow> int \<Rightarrow> int list" where
  "write_msg sync addr reg val =
     (let msg = [sync, addr, reg, take_bit 8 (drop_bit 24 val), take_bit 8 (drop_bit 16 val), take_bit 8 (drop_bit 8 val), take_bit 8 val]
      in msg @ [CalcCRC8ATM msg])"

lemma EncodeUARTWrite_msg: "EncodeUARTWrite sync addr reg val = AddSerialBits (write_msg sync addr reg val)"
  by (simp add: EncodeUARTWrite_def write_msg_def Let_def and_ff)

lemma write_msg_bytes:
  "bytes (write_msg sync addr reg val) \<longleftrightarrow> bytes [sync, addr, reg]" "length (write_msg sync addr reg val) = 8"
  using CalcCRC8ATM_byte by (auto simp: write_msg_def Let_def)

lemma word_of_bytes:
  "push_bit 24 (take_bit 8 (drop_bit 24 v)) OR push_bit 16 (take_bit 8 (drop_bit 16 v)) OR
     push_bit 8 (take_bit 8 (drop_bit 8 v)) OR take_bit 8 v = take_bit 32 (v::int)"
proof (rule bit_eqI)
  fix n :: nat
  consider "n < 8" | "8 \<le> n" "n < 16" | "16 \<le> n" "n < 24" | "24 \<le> n" by linarith
  then show "bit (push_bit 24 (take_bit 8 (drop_bit 24 v)) OR push_bit 16 (take_bit 8 (drop_bit 16 v)) OR
     push_bit 8 (take_bit 8 (drop_bit 8 v)) OR take_bit 8 v) n = bit (take_bit 32 v) n"
    by cases (auto simp: bit_simps)
qed

text \<open>What a listener extracts from a datagram: the register and the value.\<close>

definition datagram_value :: "int list \<Rightarrow> int" where
  "datagram_value data =
     (let mval = join_bytes 0 0 data
      in shl (drop_bit 31 mval AND 0xff) 24 OR shl (drop_bit 41 mval AND 0xff) 16 OR
         shl (drop_bit 51 mval AND 0xff) 8 OR (drop_bit 61 mval AND 0xff))"

lemma datagram_value_write:
  assumes "bytes [sync, addr, reg]"
  shows "datagram_value (EncodeUARTWrite sync addr reg val) = take_bit 32 val"
proof -
  let ?m = "write_msg sync addr reg val"
  have b: "bytes ?m" using assms by (simp only: write_msg_bytes)
  have j: "join_bytes 0 0 (EncodeUARTWrite sync addr reg val) = frames ?m"
    unfolding EncodeUARTWrite_msg by (rule AddSerialBits_join[OF b])
  have f: "take_bit 8 (drop_bit (10 * j + 1) (frames ?m)) = ?m ! j" if "j < 8" for j
    using frames_byte[OF b, of j] that by (simp only: write_msg_bytes)
  have "take_bit 8 (drop_bit 31 (frames ?m)) = take_bit 8 (drop_bit 24 val)"
    "take_bit 8 (drop_bit 41 (frames ?m)) = take_bit 8 (drop_bit 16 val)"
    "take_bit 8 (drop_bit 51 (frames ?m)) = take_bit 8 (drop_bit 8 val)"
    "take_bit 8 (drop_bit 61 (frames ?m)) = take_bit 8 val"
    using f[of 3] f[of 4] f[of 5] f[of 6] by (simp_all add: write_msg_def Let_def)
  then show ?thesis
    unfolding datagram_value_def Let_def j and_ff shl_push by (simp only: word_of_bytes)
qed

lemma DecodeUARTRead_iff:
  assumes "0 \<le> reg" "reg < 256"
  shows "DecodeUARTRead reg data = Some v \<longleftrightarrow> data = EncodeUARTWrite 0x05 0xff reg v \<and> 0 \<le> v \<and> v < 2 ^ 32"
proof -
  have d: "datagram_value (EncodeUARTWrite 0x05 0xff reg v) = take_bit 32 v" for v
    by (rule datagram_value_write) (use assms in simp)
  have l: "length (EncodeUARTWrite 0x05 0xff reg v) = 10" for v
    by (simp only: EncodeUARTWrite_msg AddSerialBits_bytes write_msg_bytes)
  have D: "DecodeUARTRead reg data = (if length data \<noteq> 10 then None
      else if data \<noteq> EncodeUARTWrite 0x05 0xff reg (datagram_value data) then None else Some (datagram_value data))"
    by (simp only: DecodeUARTRead_def datagram_value_def Let_def)
  show ?thesis
  proof
    assume "DecodeUARTRead reg data = Some v"
    then have "data = EncodeUARTWrite 0x05 0xff reg v" "datagram_value data = v" unfolding D by (auto split: if_splits)
    moreover have "0 \<le> take_bit 32 v" "take_bit 32 v < 2 ^ 32" by (simp_all only: take_bit_nonnegative take_bit_32_less)
    ultimately show "data = EncodeUARTWrite 0x05 0xff reg v \<and> 0 \<le> v \<and> v < 2 ^ 32" using d[of v] by metis
  next
    assume r: "data = EncodeUARTWrite 0x05 0xff reg v \<and> 0 \<le> v \<and> v < 2 ^ 32"
    then have "take_bit 32 v = v" by (simp add: take_bit_int_eq_self)
    then show "DecodeUARTRead reg data = Some v" using r d[of v] l[of v] unfolding D by simp
  qed
qed

section \<open>Verified writes\<close>

text \<open>
  What the drivers document, over a line that may lose or garble datagrams: a read request changes
  nothing, an answer that is a valid datagram for the counter register carries the counter, and
  a write request is either taken, which advances the counter modulo 256, or lost.
\<close>

definition uart_device :: "'s wire \<Rightarrow> int \<Rightarrow> int \<Rightarrow> ('s \<Rightarrow> int) \<Rightarrow> ('s \<Rightarrow> int \<Rightarrow> int) \<Rightarrow> bool" where
  "uart_device wire addr creg cnt regv \<longleftrightarrow> 0 \<le> creg \<and> creg < 128 \<and>
     (\<forall>s. 0 \<le> cnt s \<and> cnt s < 256) \<and>
     (\<forall>s reg. 0 \<le> reg \<and> reg < 128 \<longrightarrow>
        (let s' = snd (wire s (EncodeUARTRead 0xf5 addr reg) 10) in cnt s' = cnt s \<and> regv s' = regv s)) \<and>
     (\<forall>s v. 0 \<le> v \<and> v < 2 ^ 32 \<and>
        fst (wire s (EncodeUARTRead 0xf5 addr creg) 10) = Reply (EncodeUARTWrite 0x05 0xff creg v) \<longrightarrow> v = cnt s) \<and>
     (\<forall>s reg val. 0 \<le> reg \<and> reg < 128 \<and> 0 \<le> val \<and> val < 2 ^ 32 \<longrightarrow>
        (let s' = snd (wire s (EncodeUARTWrite 0xf5 addr (reg OR 0x80) val) 0)
         in cnt s' = cnt s \<and> regv s' = regv s \<or> cnt s' = (cnt s + 1) mod 256 \<and> regv s' = (regv s)(reg := val)))"

lemma uart_deviceD:
  assumes "uart_device wire addr creg cnt regv"
  shows "0 \<le> creg" "creg < 128" "0 \<le> cnt s" "cnt s < 256"
    "0 \<le> reg \<Longrightarrow> reg < 128 \<Longrightarrow> cnt (snd (wire s (EncodeUARTRead 0xf5 addr reg) 10)) = cnt s"
    "0 \<le> reg \<Longrightarrow> reg < 128 \<Longrightarrow> regv (snd (wire s (EncodeUARTRead 0xf5 addr reg) 10)) = regv s"
    "0 \<le> v \<Longrightarrow> v < 2 ^ 32 \<Longrightarrow>
       fst (wire s (EncodeUARTRead 0xf5 addr creg) 10) = Reply (EncodeUARTWrite 0x05 0xff creg v) \<Longrightarrow> v = cnt s"
    "0 \<le> reg \<Longrightarrow> reg < 128 \<Longrightarrow> 0 \<le> val \<Longrightarrow> val < 2 ^ 32 \<Longrightarrow>
       s' = snd (wire s (EncodeUARTWrite 0xf5 addr (reg OR 0x80) val) 0) \<Longrightarrow>
       cnt s' = cnt s \<and> regv s' = regv s \<or> cnt s' = (cnt s + 1) mod 256 \<and> regv s' = (regv s)(reg := val)"
  using assms unfolding uart_device_def Let_def by blast+

text \<open>The cached counter is the driver's.\<close>

definition counter_ok :: "('s \<Rightarrow> int) \<Rightarrow> UARTTransportRuntime \<Rightarrow> 's \<Rightarrow> bool" where
  "counter_ok cnt rt s \<longleftrightarrow> (hasIFCNT rt \<longrightarrow> ifcnt rt = cnt s)"

lemma transport_read:
  assumes "uart_device wire (uart_addr rt) creg cnt regv" and "transportReadRegister wire rt reg s = (r, s')"
    and "0 \<le> reg" "reg < 128"
  shows "cnt s' = cnt s" "regv s' = regv s" "r = Inr (Some v) \<Longrightarrow> reg = creg \<Longrightarrow> v = cnt s"
proof -
  obtain rep where w: "wire s (EncodeUARTRead 0xf5 (uart_addr rt) reg) 10 = (rep, s')"
    using assms(2) by (auto simp: transportReadRegister_def bitbang_ReadRegister_def split: prod.splits wire_reply.splits)
  then show "cnt s' = cnt s" "regv s' = regv s"
    using uart_deviceD(5,6)[OF assms(1,3,4), of s] by simp_all
  assume r: "r = Inr (Some v)" "reg = creg"
  then have "rep = Reply (EncodeUARTWrite 0x05 0xff creg v) \<and> 0 \<le> v \<and> v < 2 ^ 32"
    using assms(2-4) w DecodeUARTRead_iff[of reg _ v]
    by (auto simp: transportReadRegister_def bitbang_ReadRegister_def split: wire_reply.splits if_splits)
  then show "v = cnt s" using uart_deviceD(7)[OF assms(1), of v s] w r(2) by simp
qed

lemma transport_write:
  assumes "uart_device wire (uart_addr rt) creg cnt regv" and "transportWriteRegister wire rt reg val s = (r, s')"
    and "0 \<le> reg" "reg < 128" "0 \<le> val" "val < 2 ^ 32"
  shows "cnt s' = cnt s \<and> regv s' = regv s \<or> cnt s' = (cnt s + 1) mod 256 \<and> regv s' = (regv s)(reg := val)"
proof -
  have "s' = snd (wire s (EncodeUARTWrite 0xf5 (uart_addr rt) (reg OR 0x80) val) 0)"
    using assms(2) by (auto simp: transportWriteRegister_def bitbang_WriteRegister_def Let_def split: prod.splits wire_reply.splits)
  then show ?thesis by (rule uart_deviceD(8)[OF assms(1,3-6)])
qed

lemma read_tries_ok:
  assumes "uart_device wire (uart_addr rt) creg cnt regv" and "0 \<le> reg" "reg < 128"
    and "read_tries wire rt reg n s = (r, s')"
  shows "cnt s' = cnt s \<and> regv s' = regv s \<and> (\<forall>v. r = Inr (Some v) \<and> reg = creg \<longrightarrow> v = cnt s)"
  using assms(4)
proof (induction n arbitrary: s)
  case (Suc n)
  obtain q s1 where t: "transportReadRegister wire rt reg s = (q, s1)" by (cases "transportReadRegister wire rt reg s")
  note f = transport_read[OF assms(1) t assms(2,3)]
  show ?case
  proof (cases "q = Inr None")
    case True
    then show ?thesis using Suc.IH[of s1] Suc.prems f by (simp add: t)
  next
    case False
    then have "r = q" "s' = s1" using Suc.prems by (auto simp: t split: sum.splits option.splits)
    then show ?thesis using f by auto
  qed
qed auto

lemma known_ifcnt_ok:
  assumes "uart_device wire (uart_addr rt) (reg_of rt ''IFCNT'') cnt regv" and "counter_ok cnt rt s"
    and "known_ifcnt wire rt s = (r, rt', s')"
  shows "cnt s' = cnt s \<and> regv s' = regv s \<and> uart_addr rt' = uart_addr rt \<and> nameToReg rt' = nameToReg rt \<and>
     counter_ok cnt rt' s' \<and> (r = Inr () \<longrightarrow> hasIFCNT rt')"
proof -
  have c: "0 \<le> reg_of rt ''IFCNT''" "reg_of rt ''IFCNT'' < 128" using assms(1) by (simp_all add: uart_device_def)
  obtain q s1 where t: "read_tries wire rt (reg_of rt ''IFCNT'') 10 s = (q, s1)"
    by (cases "read_tries wire rt (reg_of rt ''IFCNT'') 10 s")
  show ?thesis
    using assms(2,3) read_tries_ok[OF assms(1) c t]
    by (auto simp: known_ifcnt_def readRegister_def t counter_ok_def split: if_splits sum.splits option.splits)
qed

lemma poll_tries_ok:
  assumes "uart_device wire (uart_addr rt) creg cnt regv" and "0 \<le> creg" "creg < 128"
    and "poll_tries wire creg expected n saw rt s = (r, rt', s')"
    and "saw \<longrightarrow> hasIFCNT rt \<and> ifcnt rt = cnt s"
  shows "cnt s' = cnt s \<and> regv s' = regv s \<and> uart_addr rt' = uart_addr rt \<and> nameToReg rt' = nameToReg rt \<and>
     (\<forall>m saw'. r = Inr (m, saw') \<longrightarrow> (saw' \<longrightarrow> hasIFCNT rt' \<and> ifcnt rt' = cnt s') \<and>
        (m \<longrightarrow> saw' \<and> expected = cnt s))"
  using assms(1,4,5)
proof (induction n arbitrary: rt s saw)
  case (Suc n)
  obtain q s1 where t: "transportReadRegister wire rt creg s = (q, s1)" by (cases "transportReadRegister wire rt creg s")
  note f = transport_read[OF Suc.prems(1) t assms(2,3)]
  consider e where "q = Inl e" | "q = Inr None" | v where "q = Inr (Some v)" by (cases q) auto
  then show ?case
  proof cases
    case 1
    then show ?thesis using Suc.prems(2) f(1,2) by (auto simp: t)
  next
    case 2
    then have "poll_tries wire creg expected n saw rt s1 = (r, rt', s')" using Suc.prems(2) by (simp add: t)
    then show ?thesis using Suc.prems(3) by (rule Suc.IH[OF Suc.prems(1), of saw s1, unfolded f(1,2)])
  next
    case 3
    let ?rt = "rt\<lparr>ifcnt := v, hasIFCNT := True\<rparr>"
    have v: "v = cnt s" using f(3) 3 by simp
    show ?thesis
    proof (cases "v = expected")
      case True
      then show ?thesis using Suc.prems(2) f(1,2) v 3 by (auto simp: t Let_def)
    next
      case False
      have "poll_tries wire creg expected n True ?rt s1 = (r, rt', s')" using Suc.prems(2) False 3 by (simp add: t Let_def)
      moreover have "uart_device wire (uart_addr ?rt) creg cnt regv" using Suc.prems(1) by simp
      moreover have "True \<longrightarrow> hasIFCNT ?rt \<and> ifcnt ?rt = cnt s1" using v f(1) by simp
      ultimately have "cnt s' = cnt s1 \<and> regv s' = regv s1 \<and> uart_addr rt' = uart_addr ?rt \<and> nameToReg rt' = nameToReg ?rt \<and>
         (\<forall>m saw'. r = Inr (m, saw') \<longrightarrow> (saw' \<longrightarrow> hasIFCNT rt' \<and> ifcnt rt' = cnt s') \<and> (m \<longrightarrow> saw' \<and> expected = cnt s1))"
        by (intro Suc.IH)
      then show ?thesis unfolding f(1,2) by auto
    qed
  qed
qed auto

lemma write_attempt_ok:
  assumes dev: "uart_device wire (uart_addr rt) (reg_of rt ''IFCNT'') cnt regv" and c: "counter_ok cnt rt s"
    and r: "0 \<le> reg" "reg < 128" "0 \<le> val" "val < 2 ^ 32"
    and w: "write_attempt wire reg val i rt s = (out, rt', s')"
  shows "uart_addr rt' = uart_addr rt \<and> nameToReg rt' = nameToReg rt \<and> (\<forall>q. q \<noteq> reg \<longrightarrow> regv s' q = regv s q) \<and>
     (out = Written \<longrightarrow> regv s' reg = val \<and> counter_ok cnt rt' s') \<and> (\<forall>m. out = Retry m \<longrightarrow> counter_ok cnt rt' s')"
proof -
  obtain k rt1 s1 where k: "known_ifcnt wire rt s = (k, rt1, s1)" by (cases "known_ifcnt wire rt s")
  note K = known_ifcnt_ok[OF dev c k]
  have reg1: "reg_of rt1 x = reg_of rt x" for x using K by (simp add: reg_of_def)
  show ?thesis
  proof (cases k)
    case (Inl e)
    then show ?thesis using w K by (auto simp: write_attempt_def k split: if_splits)
  next
    case (Inr u)
    have dev1: "uart_device wire (uart_addr rt1) (reg_of rt ''IFCNT'') cnt regv" using dev K by simp
    obtain b s2 where b: "transportWriteRegister wire rt1 reg val s1 = (b, s2)"
      by (cases "transportWriteRegister wire rt1 reg val s1")
    note W = transport_write[OF dev1 b r]
    have frame: "q \<noteq> reg \<Longrightarrow> regv s2 q = regv s q" for q using W K by auto
    let ?e = "(ifcnt rt1 + 1) AND 0xff"
    have e: "?e = (cnt s1 + 1) mod 256" using K Inr by (simp add: counter_ok_def and_ff take_bit_eq_mod)
    obtain p rt2 s3 where p: "pollIFCNTAfterWrite wire ?e rt1 s2 = (p, rt2, s3)"
      by (cases "pollIFCNTAfterWrite wire ?e rt1 s2")
    have P: "cnt s3 = cnt s2 \<and> regv s3 = regv s2 \<and> uart_addr rt2 = uart_addr rt1 \<and> nameToReg rt2 = nameToReg rt1 \<and>
       (\<forall>m saw'. p = Inr (m, saw') \<longrightarrow> (saw' \<longrightarrow> hasIFCNT rt2 \<and> ifcnt rt2 = cnt s3) \<and> (m \<longrightarrow> saw' \<and> ?e = cnt s2))"
      using p uart_deviceD(1,2)[OF dev1] unfolding pollIFCNTAfterWrite_def reg1
      by (intro poll_tries_ok[OF dev1, where expected = ?e and n = 10 and saw = False]) auto
    have taken: "regv s2 reg = val" if "?e = cnt s2"
    proof -
      have "(cnt s1 + 1) mod 256 \<noteq> cnt s1" using uart_deviceD(3,4)[OF dev, of s1] by (cases "cnt s1 = 255") auto
      then show ?thesis using W that e by auto
    qed
    consider x where "b = Inl x" | "b = Inr False" | x where "b = Inr True" "p = Inl x"
      | "b = Inr True" "p = Inr (True, True)" | "b = Inr True" "p = Inr (False, True)" | "b = Inr True" "p = Inr (False, False)"
      using P by (cases b; cases p) auto
    then show ?thesis
    proof cases
      case 1
      then have "out = Panicked x" "rt' = rt1" "s' = s2" using w Inr by (simp_all add: write_attempt_def k b)
      then show ?thesis using K frame by simp
    next
      case 2
      then have "rt' = rt1\<lparr>hasIFCNT := False\<rparr>" "s' = s2" "out \<noteq> Written" using w Inr by (auto simp: write_attempt_def k b)
      then show ?thesis using K frame by (simp add: counter_ok_def)
    next
      case 3
      then have "out = Panicked x" "rt' = rt2" "s' = s3" using w Inr by (simp_all add: write_attempt_def k b p Let_def)
      then show ?thesis using K P frame by simp
    next
      case 4
      then have "out = Written" "rt' = rt2" "s' = s3" using w Inr by (simp_all add: write_attempt_def k b p Let_def)
      moreover have "regv s2 reg = val" "ifcnt rt2 = cnt s3" using P 4 taken by blast+
      ultimately show ?thesis using K P frame by (simp add: counter_ok_def)
    next
      case 5
      then have "rt' = rt2" "s' = s3" "out \<noteq> Written" using w Inr by (auto simp: write_attempt_def k b p Let_def)
      moreover have "ifcnt rt2 = cnt s3" using P 5 by blast
      ultimately show ?thesis using K P frame by (simp add: counter_ok_def)
    next
      case 6
      then have "rt' = rt2\<lparr>hasIFCNT := False\<rparr>" "s' = s3" "out \<noteq> Written" using w Inr by (auto simp: write_attempt_def k b p Let_def)
      then show ?thesis using K P frame by (simp add: counter_ok_def)
    qed
  qed
qed

lemma write_tries_ok:
  assumes "uart_device wire (uart_addr rt) (reg_of rt ''IFCNT'') cnt regv" and "counter_ok cnt rt s"
    and r: "0 \<le> reg" "reg < 128" "0 \<le> val" "val < 2 ^ 32"
    and "write_tries wire regName reg val n i lastErr rt s = (res, rt', s')"
  shows "(\<forall>q. q \<noteq> reg \<longrightarrow> regv s' q = regv s q) \<and> (res = Inr () \<longrightarrow> regv s' reg = val \<and> counter_ok cnt rt' s')"
  using assms(1,2,7)
proof (induction n arbitrary: i lastErr rt s)
  case (Suc n)
  obtain out rt1 s1 where a: "write_attempt wire reg val i rt s = (out, rt1, s1)" by (cases "write_attempt wire reg val i rt s")
  note A = write_attempt_ok[OF Suc.prems(1,2) r a]
  show ?case
  proof (cases out)
    case (Retry m)
    then have "write_tries wire regName reg val n (i + 1) (Some m) rt1 s1 = (res, rt', s')"
      using Suc.prems(3) by (simp add: a)
    moreover have "uart_device wire (uart_addr rt1) (reg_of rt1 ''IFCNT'') cnt regv"
      using Suc.prems(1) A by (simp add: reg_of_def)
    moreover have "counter_ok cnt rt1 s1" using A Retry by simp
    ultimately have "(\<forall>q. q \<noteq> reg \<longrightarrow> regv s' q = regv s1 q) \<and> (res = Inr () \<longrightarrow> regv s' reg = val \<and> counter_ok cnt rt' s')"
      by (intro Suc.IH)
    then show ?thesis using A by simp
  next
    case Written
    then show ?thesis using A Suc.prems(3) by (auto simp: a)
  next
    case (Panicked e)
    then show ?thesis using A Suc.prems(3) by (auto simp: a)
  qed
qed auto

text \<open>
  A driver behind a line with a plan: for each write request in turn, whether it is taken and
  whether the micro-controller's answer arrives; after the plan every request goes through.
\<close>

type_synonym demo_line = "int \<times> (int \<Rightarrow> int) \<times> (bool \<times> bool) list"

definition demo_cnt :: "demo_line \<Rightarrow> int" where
  "demo_cnt s = fst s mod 256"

definition demo_regs :: "demo_line \<Rightarrow> int \<Rightarrow> int" where
  "demo_regs s = fst (snd s)"

definition timeout_text :: string where
  "timeout_text = ''Timeout on wait for '' @ [CHR 39] @ ''tmcuart_response'' @ [CHR 39]"

definition demo_wire :: "demo_line wire" where
  "demo_wire s payload n =
     (case s of (c, m, plan) \<Rightarrow>
        if length payload = 5 then (Reply (EncodeUARTWrite 0x05 0xff 2 (c mod 256)), s)
        else let (taken, answered) = (case plan of [] \<Rightarrow> (True, True) | p # _ \<Rightarrow> p)
             in (if answered then Reply [] else WirePanic timeout_text,
                 if taken then (c + 1, m(take_bit 7 (drop_bit 21 (join_bytes 0 0 payload)) := datagram_value payload), tl plan)
                 else (c, m, tl plan)))"

lemma demo_device: "uart_device demo_wire 0 2 demo_cnt demo_regs"
proof -
  have l: "length (EncodeUARTRead 0xf5 0 reg) = 5" for reg
    by (simp add: EncodeUARTRead_def AddSerialBits_bytes)
  have lw: "length (EncodeUARTWrite 0xf5 0 reg val) = 10" for reg val
    by (simp only: EncodeUARTWrite_msg AddSerialBits_bytes write_msg_bytes)
  have v: "datagram_value (EncodeUARTWrite 0x05 0xff 2 x) = take_bit 32 x" for x
    by (rule datagram_value_write) simp
  have inj: "x = y" if "EncodeUARTWrite 0x05 0xff 2 x = EncodeUARTWrite 0x05 0xff 2 y" "0 \<le> x" "x < 2 ^ 32" "0 \<le> y" "y < 2 ^ 32" for x y
    using arg_cong[OF that(1), of datagram_value] that(2-) by (simp add: v take_bit_int_eq_self)
  have m: "0 \<le> c mod 256 \<and> c mod 256 < (2::int) ^ 32" for c using pos_mod_bound[of 256 c] by simp
  have w: "take_bit 7 (drop_bit 21 (join_bytes 0 0 (EncodeUARTWrite 0xf5 0 (reg OR 0x80) val))) = reg \<and>
      datagram_value (EncodeUARTWrite 0xf5 0 (reg OR 0x80) val) = val"
    if r: "0 \<le> reg" "reg < 128" "0 \<le> val" "val < 2 ^ 32" for reg val
  proof -
    have b: "reg OR 0x80 = reg + 128" using or_add[of reg 7 1] r by (simp add: push_bit_eq_mult)
    let ?m = "write_msg 0xf5 0 (reg OR 0x80) val"
    have bs: "bytes ?m" unfolding write_msg_bytes using r by (simp add: b)
    have j: "join_bytes 0 0 (EncodeUARTWrite 0xf5 0 (reg OR 0x80) val) = frames ?m"
      unfolding EncodeUARTWrite_msg by (rule AddSerialBits_join[OF bs])
    have "10 * 2 + 1 = (21::nat)" by simp
    moreover have "?m ! 2 = reg + 128" by (simp add: write_msg_def Let_def b)
    ultimately have f: "take_bit 8 (drop_bit 21 (frames ?m)) = reg + 128"
      using frames_byte[OF bs, of 2] unfolding write_msg_bytes by simp
    have "take_bit 7 (drop_bit 21 (frames ?m)) = take_bit 7 (take_bit 8 (drop_bit 21 (frames ?m)))"
      by (simp only: take_bit_take_bit)
    also have "\<dots> = (reg + 128) mod 128" unfolding f by (simp add: take_bit_eq_mod)
    also have "\<dots> = reg" using r by simp
    finally have g: "take_bit 7 (drop_bit 21 (frames ?m)) = reg" .
    have "datagram_value (EncodeUARTWrite 0xf5 0 (reg OR 0x80) val) = take_bit 32 val"
      by (rule datagram_value_write) (use r b in simp)
    moreover have "take_bit 32 val = val" by (rule take_bit_int_eq_self[OF r(3,4)])
    ultimately show ?thesis unfolding j g by (simp only: simp_thms)
  qed
  have rd: "demo_wire s (EncodeUARTRead 0xf5 0 reg) 10 = (Reply (EncodeUARTWrite 0x05 0xff 2 (demo_cnt s)), s)" for s reg
    by (cases s) (simp add: demo_wire_def l demo_cnt_def)
  have wr: "snd (demo_wire (c, m, plan) (EncodeUARTWrite 0xf5 0 (reg OR 0x80) val) 0) \<in>
      {(c, m, tl plan), (c + 1, m(reg := val), tl plan)}"
    if "0 \<le> reg" "reg < 128" "0 \<le> val" "val < 2 ^ 32" for c m plan reg val
  proof -
    note [simp] = w[OF that, THEN conjunct1] w[OF that, THEN conjunct2]
    show ?thesis by (simp add: demo_wire_def lw case_prod_beta Let_def)
  qed
  show ?thesis
    unfolding uart_device_def Let_def
  proof (intro conjI allI impI)
    fix s :: demo_line and v :: int
    assume "0 \<le> v \<and> v < 2 ^ 32 \<and> fst (demo_wire s (EncodeUARTRead 0xf5 0 2) 10) = Reply (EncodeUARTWrite 0x05 0xff 2 v)"
    then show "v = demo_cnt s" using inj[of "demo_cnt s" v] m[of "fst s"] by (simp add: rd demo_cnt_def)
  next
    fix s :: demo_line and reg val :: int
    assume a: "0 \<le> reg \<and> reg < 128 \<and> 0 \<le> val \<and> val < 2 ^ 32"
    obtain c m plan where s: "s = (c, m, plan)" by (cases s)
    have "snd (demo_wire s (EncodeUARTWrite 0xf5 0 (reg OR 0x80) val) 0) \<in> {(c, m, tl plan), (c + 1, m(reg := val), tl plan)}"
      using wr[of reg val c m plan] a unfolding s by simp
    then show "demo_cnt (snd (demo_wire s (EncodeUARTWrite 0xf5 0 (reg OR 0x80) val) 0)) = demo_cnt s \<and>
        demo_regs (snd (demo_wire s (EncodeUARTWrite 0xf5 0 (reg OR 0x80) val) 0)) = demo_regs s \<or>
        demo_cnt (snd (demo_wire s (EncodeUARTWrite 0xf5 0 (reg OR 0x80) val) 0)) = (demo_cnt s + 1) mod 256 \<and>
        demo_regs (snd (demo_wire s (EncodeUARTWrite 0xf5 0 (reg OR 0x80) val) 0)) = (demo_regs s)(reg := val)"
      by (elim insertE emptyE) (simp_all add: s demo_cnt_def demo_regs_def mod_simps)
  qed (simp_all add: rd demo_cnt_def)
qed

text \<open>
  C32.  The datagram codec is exact: a reply is decoded to a value if and only if it is, byte for byte,
  the datagram the encoder builds for that register and that 32-bit value; in particular every
  encoded value is read back, and a reply whose CRC, framing, address or register differs is refused.
\<close>

theorem uart_codec_exact:
  assumes "0 \<le> reg" and "reg < 256"
  shows "DecodeUARTRead reg data = Some v \<longleftrightarrow> data = EncodeUARTWrite 0x05 0xff reg v \<and> 0 \<le> v \<and> v < 2 ^ 32"
  by (rule DecodeUARTRead_iff[OF assms])

theorem uart_codec_exact_witness: "DecodeUARTRead 0x6c (EncodeUARTWrite 0x05 0xff 0x6c 0x10000053) = Some 0x10000053"
  using uart_codec_exact[of "0x6c" "EncodeUARTWrite 0x05 0xff 0x6c 0x10000053" "0x10000053"] by simp


definition demo_uart :: "bool \<Rightarrow> UARTTransportRuntime" where
  "demo_uart known = \<lparr>uart_name = ''stepper_x'', nameToReg = map_of [(''IFCNT'', 2), (''IHOLD_IRUN'', 0x10)],
     uart_addr = 0, debugEnabled = False, ifcnt = 7, hasIFCNT = known\<rparr>"



end
