(* ===== verification/TmcCurrent.thy ===== *)
theory TmcCurrent
  imports TmcTables
begin

text \<open>
  The motor currents (\<^verbatim>\<open>tmc/current_helpers.go\<close>): from a current in amperes to the fields of the
  driver and back, for the four families of drivers.  A helper carries the driver's fields; what it
  sends to the driver is the list of register writes, whose failures the code ignores.
\<close>

type_synonym register_write = "string \<times> int \<times> real"

text \<open>None of these options has NaN as its default, so an accessor that succeeds returns a number.\<close>

definition get_number :: "config_section \<Rightarrow> string \<Rightarrow> cfg_default \<Rightarrow> real \<Rightarrow> real \<Rightarrow> real result" where
  "get_number sec option d minval maxval =
     bindR (wrapper_Getfloat sec option d minval maxval 0 0) (\<lambda>v. Inr (case v of None \<Rightarrow> 0 | Some x \<Rightarrow> x))"

definition clamp31 :: "int \<Rightarrow> int" where
  "clamp31 cs = max 0 (min 31 cs)"

text \<open>A number is true if it is one.\<close>

definition ToBool :: "int \<Rightarrow> bool" where
  "ToBool v = (v = 1)"

section \<open>TMC2130, TMC2208 and TMC2209\<close>

definition MaxCurrent :: real where
  "MaxCurrent = 2"

record TMCCurrentHelper =
  ch_fields :: FieldHelper
  reqHoldCurrent :: real
  senseResistor :: real

definition vref_of :: "bool \<Rightarrow> real" where
  "vref_of vsense = (if vsense then 0.18 else 0.32)"

definition calcCurrentBits :: "real \<Rightarrow> real \<Rightarrow> bool \<Rightarrow> int" where
  "calcCurrentBits resistor current vsense =
     clamp31 (go_int (32 * (resistor + 0.020) * current * sqrt 2 / vref_of vsense + 0.5) - 1)"

definition calcCurrentFromBits :: "real \<Rightarrow> real \<Rightarrow> bool \<Rightarrow> real" where
  "calcCurrentFromBits resistor cs vsense = (cs + 1) * vref_of vsense / (32 * (resistor + 0.020) * sqrt 2)"

text \<open>The sensitive range, unless it is exhausted and the other range comes closer.\<close>

definition choose_vsense :: "real \<Rightarrow> real \<Rightarrow> bool \<times> int" where
  "choose_vsense resistor runCurrent =
     (let irun = calcCurrentBits resistor runCurrent True
      in if irun = 31 then
           let cur = calcCurrentFromBits resistor (real_of_int irun) True
           in if cur < runCurrent then
                let irun2 = calcCurrentBits resistor runCurrent False;
                    cur2 = calcCurrentFromBits resistor (real_of_int irun2) False
                in if \<bar>runCurrent - cur2\<bar> < \<bar>runCurrent - cur\<bar> then (False, irun2) else (True, irun)
              else (True, irun)
         else (True, irun))"

definition calcCurrent :: "real \<Rightarrow> real \<Rightarrow> real \<Rightarrow> bool \<times> int \<times> int" where
  "calcCurrent resistor runCurrent holdCurrent =
     (let (vsense, irun) = choose_vsense resistor runCurrent
      in (vsense, irun, calcCurrentBits resistor (min holdCurrent runCurrent) vsense))"

definition NewTMCCurrentHelper :: "config_section \<Rightarrow> FieldHelper \<Rightarrow> TMCCurrentHelper result" where
  "NewTMCCurrentHelper sec h =
     bindR (get_number sec ''run_current'' (DefInt 0) 0 MaxCurrent) (\<lambda>runCurrent.
     bindR (get_number sec ''hold_current'' (DefFloat MaxCurrent) 0 MaxCurrent) (\<lambda>holdCurrent.
     bindR (get_number sec ''sense_resistor'' (DefFloat 0.110) 0 0) (\<lambda>resistor.
       let (vsense, irun, ihold) = calcCurrent resistor runCurrent holdCurrent
       in Inr \<lparr>ch_fields = set_fields [(''vsense'', bool_int vsense), (''ihold'', ihold), (''irun'', irun)] h,
               reqHoldCurrent = holdCurrent, senseResistor = resistor\<rparr>)))"

definition Get_current :: "TMCCurrentHelper \<Rightarrow> real list" where
  "Get_current self =
     (let irun = Get_field ''irun'' None None (ch_fields self);
          ihold = Get_field ''ihold'' None None (ch_fields self);
          vsense = ToBool (Get_field ''vsense'' None None (ch_fields self))
      in [calcCurrentFromBits (senseResistor self) (real_of_int irun) vsense,
          calcCurrentFromBits (senseResistor self) (real_of_int ihold) vsense,
          reqHoldCurrent self, MaxCurrent])"

definition Set_current :: "real \<Rightarrow> real \<Rightarrow> real \<Rightarrow> TMCCurrentHelper \<Rightarrow> TMCCurrentHelper \<times> register_write list" where
  "Set_current runCurrent holdCurrent printTime self =
     (let (vsense, irun, ihold) = calcCurrent (senseResistor self) runCurrent holdCurrent;
          h = ch_fields self;
          (h1, w1) = (if vsense \<noteq> ToBool (Get_field ''vsense'' None None h)
                      then let (val, h') = Set_field ''vsense'' (bool_int vsense) None None h
                           in (h', [(''CHOPCONF'', val, printTime)])
                      else (h, []));
          h2 = snd (Set_field ''ihold'' ihold None None h1);
          (val, h3) = Set_field ''irun'' irun None None h2
      in (self\<lparr>ch_fields := h3, reqHoldCurrent := holdCurrent\<rparr>, w1 @ [(''IHOLD_IRUN'', val, printTime)]))"

section \<open>TMC2240\<close>

record TMC2240CurrentHelper =
  c2240_fields :: FieldHelper
  rref :: real
  c2240_reqHold :: real

text \<open>The range is a field of two bits, an index into a table of four.\<close>

definition kifs :: "int \<Rightarrow> real" where
  "kifs r = (if r = 0 then 11750 else if r = 1 then 24000 else 36000)"

definition getIFSRMS :: "real \<Rightarrow> int \<Rightarrow> real" where
  "getIFSRMS r currentRange = kifs currentRange / r / sqrt 2"

definition calcCurrentRange :: "real \<Rightarrow> real \<Rightarrow> int" where
  "calcCurrentRange r current =
     (if current \<le> getIFSRMS r 0 then 0 else if current \<le> getIFSRMS r 1 then 1
      else if current \<le> getIFSRMS r 2 then 2 else if current \<le> getIFSRMS r 3 then 3 else 4)"

definition c2240_IFSRMS :: "TMC2240CurrentHelper \<Rightarrow> real" where
  "c2240_IFSRMS self = getIFSRMS (rref self) (Get_field ''current_range'' None None (c2240_fields self))"

definition limit_scaler :: "int \<Rightarrow> int" where
  "limit_scaler g = (if max 32 g \<ge> 256 then 0 else max 32 g)"

definition full_scaler :: "int \<Rightarrow> int" where
  "full_scaler g = (if g = 0 then 256 else g)"

definition c2240_calcGlobalscaler :: "real \<Rightarrow> real \<Rightarrow> int" where
  "c2240_calcGlobalscaler ifsRMS current = limit_scaler (go_int (current * 256 / ifsRMS + 0.5))"

definition c2240_calcCurrentBits :: "real \<Rightarrow> real \<Rightarrow> int \<Rightarrow> int" where
  "c2240_calcCurrentBits ifsRMS current globalscaler =
     clamp31 (go_int (current * 256 * 32 / (real_of_int (full_scaler globalscaler) * ifsRMS) - 1 + 0.5))"

definition c2240_calcCurrent :: "real \<Rightarrow> real \<Rightarrow> real \<Rightarrow> int \<times> int \<times> int" where
  "c2240_calcCurrent ifsRMS runCurrent holdCurrent =
     (let gscaler = c2240_calcGlobalscaler ifsRMS runCurrent
      in (gscaler, c2240_calcCurrentBits ifsRMS runCurrent gscaler,
          c2240_calcCurrentBits ifsRMS (min holdCurrent runCurrent) gscaler))"

definition NewTMC2240CurrentHelper :: "config_section \<Rightarrow> FieldHelper \<Rightarrow> TMC2240CurrentHelper result" where
  "NewTMC2240CurrentHelper sec h =
     bindR (get_number sec ''rref'' (DefFloat 12000) 12000 60000) (\<lambda>r.
     let maxCur = getIFSRMS r 3
     in bindR (get_number sec ''run_current'' (DefFloat 0) 0 maxCur) (\<lambda>runCurrent.
        bindR (get_number sec ''hold_current'' (DefFloat maxCur) 0 maxCur) (\<lambda>holdCurrent.
          let h1 = snd (Set_field ''current_range'' (calcCurrentRange r runCurrent) None None h);
              ifsRMS = getIFSRMS r (Get_field ''current_range'' None None h1);
              (gscaler, irun, ihold) = c2240_calcCurrent ifsRMS runCurrent holdCurrent
          in Inr \<lparr>c2240_fields = set_fields [(''globalscaler'', gscaler), (''ihold'', ihold), (''irun'', irun)] h1,
                  rref = r, c2240_reqHold = holdCurrent\<rparr>)))"

definition c2240_calcCurrentFromField :: "string \<Rightarrow> TMC2240CurrentHelper \<Rightarrow> real" where
  "c2240_calcCurrentFromField fieldName self =
     (let globalscaler = full_scaler (Get_field ''globalscaler'' None None (c2240_fields self));
          bits = Get_field fieldName None None (c2240_fields self)
      in real_of_int (globalscaler * (bits + 1)) * c2240_IFSRMS self / (256 * 32))"

definition c2240_Get_current :: "TMC2240CurrentHelper \<Rightarrow> real list" where
  "c2240_Get_current self =
     [c2240_calcCurrentFromField ''irun'' self, c2240_calcCurrentFromField ''ihold'' self, c2240_reqHold self, c2240_IFSRMS self]"

text \<open>The value sent for the run and hold currents is the run value alone, and its field is not set.\<close>

definition c2240_Set_current :: "real \<Rightarrow> real \<Rightarrow> real \<Rightarrow> TMC2240CurrentHelper \<Rightarrow> TMC2240CurrentHelper \<times> register_write list" where
  "c2240_Set_current runCurrent holdCurrent printTime self =
     (let (gscaler, irun, ihold) = c2240_calcCurrent (c2240_IFSRMS self) runCurrent holdCurrent
      in (self\<lparr>c2240_fields := set_fields [(''globalscaler'', gscaler), (''ihold'', ihold)] (c2240_fields self),
               c2240_reqHold := holdCurrent\<rparr>,
          [(''GLOBALSCALER'', gscaler, printTime), (''IHOLD_IRUN'', irun, printTime)]))"

section \<open>TMC2660\<close>

definition TMC2660MaxCurrent :: real where
  "TMC2660MaxCurrent = 2.4"

record TMC2660CurrentHelper =
  c2660_fields :: FieldHelper
  c2660_current :: real
  c2660_resistor :: real
  idleCurrentPercentage :: int

definition c2660_vref :: "bool \<Rightarrow> real" where
  "c2660_vref vsense = (if \<not> vsense then 0.310 else 0.165)"

definition c2660_calcCurrentBits :: "real \<Rightarrow> real \<Rightarrow> bool \<Rightarrow> int" where
  "c2660_calcCurrentBits resistor current vsense =
     clamp31 (go_int (32 * resistor * current * sqrt 2 / c2660_vref vsense + 0.5) - 1)"

definition c2660_calcCurrentFromBits :: "real \<Rightarrow> real \<Rightarrow> bool \<Rightarrow> real" where
  "c2660_calcCurrentFromBits resistor cs vsense = (cs + 1) * c2660_vref vsense / (32 * resistor * sqrt 2)"

definition c2660_calcCurrent :: "real \<Rightarrow> real \<Rightarrow> bool \<times> int" where
  "c2660_calcCurrent resistor runCurrent =
     (let irun = c2660_calcCurrentBits resistor runCurrent True
      in if irun = 31 then
           let cur = c2660_calcCurrentFromBits resistor (real_of_int irun) True
           in if cur < runCurrent then
                let irun2 = c2660_calcCurrentBits resistor runCurrent False;
                    cur2 = c2660_calcCurrentFromBits resistor (real_of_int irun2) False
                in if \<bar>runCurrent - cur2\<bar> < \<bar>runCurrent - cur\<bar> then (False, irun2) else (True, irun)
              else (True, irun)
         else (True, irun))"

definition NewTMC2660CurrentHelper :: "config_section \<Rightarrow> FieldHelper \<Rightarrow> TMC2660CurrentHelper result" where
  "NewTMC2660CurrentHelper sec h =
     bindR (get_number sec ''run_current'' (DefInt 0) 0.1 TMC2660MaxCurrent) (\<lambda>current.
     bindR (get_number sec ''sense_resistor'' (DefInt 0) 0 0) (\<lambda>resistor.
     let (vsense, cs) = c2660_calcCurrent resistor current;
         h1 = set_fields [(''cs'', cs), (''vsense'', bool_int vsense)] h
     in bindR (wrapper_Getint sec ''idle_current_percent'' (DefInt 100) 0 100) (\<lambda>percent.
          Inr \<lparr>c2660_fields = h1, c2660_current = current, c2660_resistor = resistor, idleCurrentPercentage = percent\<rparr>)))"

text \<open>The stored sensitivity is read with a register value of zero.\<close>

definition updateCurrent :: "real \<Rightarrow> real \<Rightarrow> TMC2660CurrentHelper \<Rightarrow> TMC2660CurrentHelper \<times> register_write list" where
  "updateCurrent current printTime self =
     (let (vsense, cs) = c2660_calcCurrent (c2660_resistor self) current;
          (val, h1) = Set_field ''cs'' cs None None (c2660_fields self);
          w1 = [(''SGCSCONF'', val, printTime)]
      in if vsense \<noteq> ToBool (Get_field ''vsense'' (Some 0) None h1)
         then let (val2, h2) = Set_field ''vsense'' (bool_int vsense) None None h1
              in (self\<lparr>c2660_fields := h2\<rparr>, w1 @ [(''DRVCONF'', val2, printTime)])
         else (self\<lparr>c2660_fields := h1\<rparr>, w1))"

definition handlePrinting :: "real \<Rightarrow> TMC2660CurrentHelper \<Rightarrow> TMC2660CurrentHelper \<times> register_write list" where
  "handlePrinting eventTime self = updateCurrent (c2660_current self) (eventTime - 0.100) self"

definition handleReady :: "real \<Rightarrow> TMC2660CurrentHelper \<Rightarrow> TMC2660CurrentHelper \<times> register_write list" where
  "handleReady eventTime self =
     updateCurrent (c2660_current self * real_of_int (idleCurrentPercentage self) / 100) eventTime self"

definition c2660_Get_current :: "TMC2660CurrentHelper \<Rightarrow> real list" where
  "c2660_Get_current self = [c2660_current self, 0, 0, TMC2660MaxCurrent]"

definition c2660_Set_current :: "real \<Rightarrow> real \<Rightarrow> real \<Rightarrow> TMC2660CurrentHelper \<Rightarrow> TMC2660CurrentHelper \<times> register_write list" where
  "c2660_Set_current runCurrent holdCurrent printTime self =
     updateCurrent runCurrent printTime (self\<lparr>c2660_current := runCurrent\<rparr>)"

section \<open>TMC5160\<close>

definition TMC5160VREF :: real where
  "TMC5160VREF = 0.325"

record TMC5160CurrentHelper =
  c5160_fields :: FieldHelper
  c5160_reqHold :: real
  c5160_resistor :: real

definition c5160_calcGlobalscaler :: "real \<Rightarrow> real \<Rightarrow> int" where
  "c5160_calcGlobalscaler resistor current = limit_scaler (go_int (current * 256 * sqrt 2 * resistor / TMC5160VREF + 0.5))"

definition c5160_calcCurrentBits :: "real \<Rightarrow> real \<Rightarrow> int \<Rightarrow> int" where
  "c5160_calcCurrentBits resistor current globalscaler =
     clamp31 (go_int (current * 256 * 32 * sqrt 2 * resistor / (real_of_int (full_scaler globalscaler) * TMC5160VREF) - 1 + 0.5))"

definition c5160_calcCurrent :: "real \<Rightarrow> real \<Rightarrow> real \<Rightarrow> int \<times> int \<times> int" where
  "c5160_calcCurrent resistor runCurrent holdCurrent =
     (let gscaler = c5160_calcGlobalscaler resistor runCurrent
      in (gscaler, c5160_calcCurrentBits resistor runCurrent gscaler,
          c5160_calcCurrentBits resistor (min holdCurrent runCurrent) gscaler))"

definition NewTMC5160CurrentHelper :: "config_section \<Rightarrow> FieldHelper \<Rightarrow> TMC5160CurrentHelper result" where
  "NewTMC5160CurrentHelper sec h =
     bindR (get_number sec ''run_current'' (DefInt 0) 0 MaxCurrent) (\<lambda>runCurrent.
     bindR (get_number sec ''hold_current'' (DefFloat MaxCurrent) 0 MaxCurrent) (\<lambda>holdCurrent.
     bindR (get_number sec ''sense_resistor'' (DefFloat 0.075) 0 0) (\<lambda>resistor.
       let (gscaler, irun, ihold) = c5160_calcCurrent resistor runCurrent holdCurrent
       in Inr \<lparr>c5160_fields = set_fields [(''globalscaler'', gscaler), (''ihold'', ihold), (''irun'', irun)] h,
               c5160_reqHold = holdCurrent, c5160_resistor = resistor\<rparr>)))"

text \<open>The fields are read with a register value of zero.\<close>

definition c5160_calcCurrentFromField :: "string \<Rightarrow> TMC5160CurrentHelper \<Rightarrow> real" where
  "c5160_calcCurrentFromField fieldName self =
     (let globalscaler = real_of_int (full_scaler (Get_field ''globalscaler'' (Some 0) None (c5160_fields self)));
          bits = real_of_int (Get_field fieldName (Some 0) None (c5160_fields self))
      in globalscaler * (bits + 1) * TMC5160VREF / (256 * 32 * sqrt 2 * c5160_resistor self))"

definition c5160_Get_current :: "TMC5160CurrentHelper \<Rightarrow> real list" where
  "c5160_Get_current self =
     [c5160_calcCurrentFromField ''irun'' self, c5160_calcCurrentFromField ''ihold'' self, c5160_reqHold self, MaxCurrent]"

definition c5160_Set_current :: "real \<Rightarrow> real \<Rightarrow> real \<Rightarrow> TMC5160CurrentHelper \<Rightarrow> TMC5160CurrentHelper \<times> register_write list" where
  "c5160_Set_current runCurrent holdCurrent printTime self =
     (let (gscaler, irun, ihold) = c5160_calcCurrent (c5160_resistor self) runCurrent holdCurrent;
          (val1, h1) = Set_field ''globalscaler'' gscaler None None (c5160_fields self);
          h2 = snd (Set_field ''ihold'' ihold None None h1);
          (val2, h3) = Set_field ''irun'' irun None None h2
      in (self\<lparr>c5160_fields := h3, c5160_reqHold := holdCurrent\<rparr>,
          [(''GLOBALSCALER'', val1, printTime), (''IHOLD_IRUN'', val2, printTime)]))"

section \<open>Accuracy of the current scale\<close>

text \<open>One step of the current scale.\<close>

definition current_step :: "real \<Rightarrow> bool \<Rightarrow> real" where
  "current_step resistor vsense = vref_of vsense / (32 * (resistor + 0.020) * sqrt 2)"

lemma current_step_pos: "0 \<le> resistor \<Longrightarrow> 0 < current_step resistor vsense"
  by (simp add: current_step_def vref_of_def)

lemma current_step_ratio: "0 \<le> resistor \<Longrightarrow> 16 * current_step resistor True = 9 * current_step resistor False"
  by (simp add: current_step_def vref_of_def)

lemma calcCurrentFromBits_step: "calcCurrentFromBits resistor cs vsense = (cs + 1) * current_step resistor vsense"
  by (simp add: calcCurrentFromBits_def current_step_def)

lemma calcCurrentBits_step:
  assumes "0 \<le> resistor"
  shows "calcCurrentBits resistor current vsense = clamp31 (go_int (current / current_step resistor vsense + 1 / 2) - 1)"
proof -
  have "32 * (resistor + 0.020) * current * sqrt 2 / vref_of vsense = current / current_step resistor vsense"
    using assms by (simp add: current_step_def vref_of_def)
  then show ?thesis by (simp add: calcCurrentBits_def)
qed

lemma calcCurrentBits_range: "0 \<le> calcCurrentBits resistor current vsense \<and> calcCurrentBits resistor current vsense \<le> 31"
  by (simp add: calcCurrentBits_def clamp31_def)

lemma go_int_mono:
  assumes "x \<le> y"
  shows "go_int x \<le> go_int y"
proof (cases "x < 0 \<and> 0 \<le> y")
  case True
  then have "\<lceil>x\<rceil> \<le> 0" "0 \<le> \<lfloor>y\<rfloor>" by (simp_all add: ceiling_le_iff)
  then have "\<lceil>x\<rceil> \<le> \<lfloor>y\<rfloor>" by (rule order_trans)
  then show ?thesis using True by (simp add: go_int_def)
next
  case False
  then show ?thesis using assms by (auto simp: go_int_def floor_mono ceiling_mono)
qed

lemma calcCurrentBits_mono:
  assumes "0 \<le> resistor" and "a \<le> b"
  shows "calcCurrentBits resistor a vsense \<le> calcCurrentBits resistor b vsense"
proof -
  have "a / current_step resistor vsense \<le> b / current_step resistor vsense"
    using assms current_step_pos[OF assms(1), of vsense] by (simp add: divide_right_mono)
  then have "go_int (a / current_step resistor vsense + 1 / 2) \<le> go_int (b / current_step resistor vsense + 1 / 2)"
    by (intro go_int_mono) simp
  then show ?thesis using assms(1) by (simp add: calcCurrentBits_step clamp31_def)
qed

text \<open>A current on the scale is met to half a step; one beyond it gives the last step.\<close>

lemma bits_accuracy:
  fixes resistor current :: real and vsense :: bool
  defines "u \<equiv> current_step resistor vsense"
  assumes "0 \<le> resistor" and "u / 2 \<le> current" and "current < 32.5 * u"
  shows "\<bar>calcCurrentFromBits resistor (real_of_int (calcCurrentBits resistor current vsense)) vsense - current\<bar> \<le> u / 2"
proof -
  have u: "0 < u" unfolding u_def by (rule current_step_pos[OF assms(2)])
  define x where "x = current / u"
  have x: "1 / 2 \<le> x" "x < 65 / 2" "current = x * u" using u assms(3,4) by (simp_all add: x_def field_simps)
  have n: "1 \<le> \<lfloor>x + 1 / 2\<rfloor>" "\<lfloor>x + 1 / 2\<rfloor> \<le> 32" using x by linarith+
  have "calcCurrentBits resistor current vsense = \<lfloor>x + 1 / 2\<rfloor> - 1"
    using n x(1) by (simp add: calcCurrentBits_step[OF assms(2)] u_def[symmetric] x_def[symmetric] go_int_def clamp31_def)
  then have "calcCurrentFromBits resistor (real_of_int (calcCurrentBits resistor current vsense)) vsense = real_of_int \<lfloor>x + 1 / 2\<rfloor> * u"
    by (simp add: calcCurrentFromBits_step u_def)
  moreover have "\<bar>real_of_int \<lfloor>x + 1 / 2\<rfloor> - x\<bar> \<le> 1 / 2" by linarith
  then have "\<bar>real_of_int \<lfloor>x + 1 / 2\<rfloor> - x\<bar> * u \<le> 1 / 2 * u" using u by (intro mult_right_mono) auto
  then have "\<bar>real_of_int \<lfloor>x + 1 / 2\<rfloor> * u - x * u\<bar> \<le> u / 2"
    using u by (simp add: abs_mult left_diff_distrib[symmetric])
  ultimately show ?thesis using x(3) by simp
qed

lemma bits_saturate:
  assumes "0 \<le> resistor" and "32.5 * current_step resistor vsense \<le> current"
  shows "calcCurrentBits resistor current vsense = 31"
proof -
  define x where "x = current / current_step resistor vsense"
  have "65 / 2 \<le> x" unfolding x_def using assms current_step_pos[OF assms(1), of vsense] by (simp add: field_simps)
  then have "33 \<le> go_int (current / current_step resistor vsense + 1 / 2)"
    unfolding go_int_def x_def[symmetric] by (simp add: le_floor_iff)
  then show ?thesis by (simp add: calcCurrentBits_step[OF assms(1)] clamp31_def)
qed

lemma choose_vsense_bits: "choose_vsense resistor run = (vsense, irun) \<Longrightarrow> irun = calcCurrentBits resistor run vsense"
  by (auto simp: choose_vsense_def Let_def split: if_splits)

lemma choose_vsense_accuracy:
  assumes r: "0 \<le> resistor" and "current_step resistor True / 2 \<le> run" and "run < 32.5 * current_step resistor False"
    and c: "choose_vsense resistor run = (vsense, irun)"
  shows "\<bar>calcCurrentFromBits resistor (real_of_int irun) vsense - run\<bar> \<le> current_step resistor False / 2"
proof -
  let ?t = "current_step resistor True" and ?f = "current_step resistor False"
  let ?cur = "calcCurrentFromBits resistor (real_of_int (calcCurrentBits resistor run True)) True"
  let ?cur2 = "calcCurrentFromBits resistor (real_of_int (calcCurrentBits resistor run False)) False"
  have tf: "16 * ?t = 9 * ?f" "0 < ?t" "0 < ?f" using current_step_ratio[OF r] current_step_pos[OF r] by simp_all
  have T: "\<bar>?cur - run\<bar> \<le> ?f / 2" if "run < 32.5 * ?t" using bits_accuracy[OF r assms(2) that] tf by linarith
  have F: "\<bar>?cur2 - run\<bar> \<le> ?f / 2" if "?f / 2 \<le> run" using bits_accuracy[OF r that assms(3)] .
  show ?thesis
  proof (cases "calcCurrentBits resistor run True = 31 \<and> ?cur < run")
    case True
    then have "32 * ?t < run" by (elim conjE) (simp add: calcCurrentFromBits_step)
    then have "?f / 2 \<le> run" using tf by linarith
    then show ?thesis using F c True
      by (auto simp: choose_vsense_def Let_def abs_minus_commute split: if_splits)
  next
    case False
    then have v: "vsense = True" "irun = calcCurrentBits resistor run True"
      using c by (auto simp: choose_vsense_def Let_def split: if_splits)
    have "run < 32.5 * ?t"
    proof (rule ccontr)
      assume "\<not> run < 32.5 * ?t"
      then have s: "calcCurrentBits resistor run True = 31" and "32.5 * ?t \<le> run" using bits_saturate[OF r, of True run] by auto
      moreover have "run \<le> 32 * ?t" using False s by (simp add: calcCurrentFromBits_step)
      ultimately show False using tf by linarith
    qed
    then show ?thesis using T v by simp
  qed
qed

section \<open>Setting and reading the current\<close>

text \<open>The drivers with a sensitivity bit, and their current fields.\<close>

definition scale_fields :: "FieldHelper \<Rightarrow> bool" where
  "scale_fields h \<longleftrightarrow> list_all (unique_field (allFields h)) [''vsense'', ''ihold'', ''irun''] \<and>
     field_width h ''vsense'' = 1 \<and> field_width h ''ihold'' = 5 \<and> field_width h ''irun'' = 5 \<and>
     \<not> is_signed h ''vsense'' \<and> \<not> is_signed h ''ihold'' \<and> \<not> is_signed h ''irun''"

lemma scale_drivers: "scale_fields (driver_fields TMC2130)" "scale_fields (driver_fields TMC2208)" "scale_fields (driver_fields TMC2209)"
  by code_simp+

lemma scale_fields_layout: "same_layout h h' \<Longrightarrow> scale_fields h' \<longleftrightarrow> scale_fields h"
  by (simp add: scale_fields_def same_layout_eqs)

lemma set_read:
  assumes "helper_ok h" and "unique_field (allFields h) f" and "field_range (field_width h f) (is_signed h f) v"
  shows "Get_field f None None (snd (Set_field f v None None h)) = v"
  using assms by (elim unique_fieldE) (rule Set_Get_field)

lemma set_read_other:
  assumes "helper_ok h" and "unique_field (allFields h) f" "unique_field (allFields h) g" and "f \<noteq> g"
  shows "Get_field g None None (snd (Set_field f v None None h)) = Get_field g None None h"
  using assms by (elim unique_fieldE) (rule Set_Get_other)

lemma bits_field_range: "field_range 5 False (calcCurrentBits resistor current vsense)"
  using calcCurrentBits_range[of resistor current vsense] by (simp add: field_range_def)

lemma Set_current_fields:
  assumes h: "helper_ok (ch_fields self)" "scale_fields (ch_fields self)"
    and c: "calcCurrent (senseResistor self) run hold = (vsense, irun, ihold)"
    and s: "Set_current run hold t self = (self', ws)"
  shows "Get_field ''irun'' None None (ch_fields self') = irun" "Get_field ''ihold'' None None (ch_fields self') = ihold"
    "ToBool (Get_field ''vsense'' None None (ch_fields self')) = vsense"
    "senseResistor self' = senseResistor self" "reqHoldCurrent self' = hold"
    "helper_ok (ch_fields self')" "same_layout (ch_fields self) (ch_fields self')"
    "last ws = (''IHOLD_IRUN'', the (map_of (registers (ch_fields self')) (the_register ''irun'' None (ch_fields self'))), t)"
proof -
  let ?h = "ch_fields self"
  define h1 where "h1 = (if vsense \<noteq> ToBool (Get_field ''vsense'' None None ?h)
    then snd (Set_field ''vsense'' (bool_int vsense) None None ?h) else ?h)"
  define h2 where "h2 = snd (Set_field ''ihold'' ihold None None h1)"
  define h3 where "h3 = snd (Set_field ''irun'' irun None None h2)"
  have e: "ch_fields self' = h3" "senseResistor self' = senseResistor self" "reqHoldCurrent self' = hold"
    "last ws = (''IHOLD_IRUN'', fst (Set_field ''irun'' irun None None h2), t)"
    using s c by (auto simp: Set_current_def Let_def h1_def h2_def h3_def case_prod_beta split: if_splits)
  have ok: "helper_ok h1" "helper_ok h2" "helper_ok h3"
    using h(1) by (auto simp: h1_def h2_def h3_def Set_field_ok)
  have lay: "same_layout ?h h1" "same_layout h1 h2" "same_layout h2 h3" by (simp_all add: h1_def h2_def h3_def)
  then have l: "same_layout ?h h2" "same_layout ?h h3" using same_layout_trans by blast+
  have sf: "scale_fields h1" "scale_fields h2" "scale_fields h3"
    using h(2) lay(1) l by (simp_all add: scale_fields_layout)
  have bits: "irun = calcCurrentBits (senseResistor self) run vsense" "ihold = calcCurrentBits (senseResistor self) (min hold run) vsense"
    using c by (auto simp: calcCurrent_def Let_def choose_vsense_bits split: prod.splits)
  have v1: "ToBool (Get_field ''vsense'' None None h1) = vsense"
    using h set_read[of ?h "''vsense''" "bool_int vsense"]
    by (auto simp: h1_def scale_fields_def field_range_def bool_int_def ToBool_def split: if_splits)
  show "Get_field ''irun'' None None (ch_fields self') = irun"
    unfolding e(1) h3_def using set_read[OF ok(2)] sf(2) bits(1) bits_field_range by (simp add: scale_fields_def)
  have "Get_field ''ihold'' None None h2 = ihold"
    unfolding h2_def using set_read[OF ok(1)] sf(1) bits(2) bits_field_range by (simp add: scale_fields_def)
  then show "Get_field ''ihold'' None None (ch_fields self') = ihold"
    unfolding e(1) h3_def using set_read_other[OF ok(2)] sf(2) by (simp add: scale_fields_def)
  have "Get_field ''vsense'' None None h3 = Get_field ''vsense'' None None h1"
    unfolding h3_def h2_def using set_read_other[OF ok(2)] set_read_other[OF ok(1)] sf(1,2)
    by (simp add: scale_fields_def h2_def)
  then show "ToBool (Get_field ''vsense'' None None (ch_fields self')) = vsense" unfolding e(1) using v1 by simp
  show "senseResistor self' = senseResistor self" "reqHoldCurrent self' = hold" by (fact e)+
  show "helper_ok (ch_fields self')" "same_layout (ch_fields self) (ch_fields self')" unfolding e(1) by (fact ok l)+
  show "last ws = (''IHOLD_IRUN'', the (map_of (registers (ch_fields self')) (the_register ''irun'' None (ch_fields self'))), t)"
    unfolding e by (simp add: h3_def registers_Set_field)
qed


definition demo_current :: TMCCurrentHelper where
  "demo_current = \<lparr>ch_fields = driver_fields TMC2209, reqHoldCurrent = 2, senseResistor = 0.11\<rparr>"


section \<open>Three drivers whose current is not what was asked\<close>

text \<open>The value the TMC2240 helper sends selects the smallest run current, and the hold field gets the run value.\<close>

definition ihold_irun_mask :: "string \<Rightarrow> int" where
  "ihold_irun_mask f = field_mask TMC2240Fields ''IHOLD_IRUN'' f"

lemma tmc2240_masks: "ihold_irun_mask ''irun'' = 0x1f00" "ihold_irun_mask ''ihold'' = 0x1f"
  by code_simp+

lemma c2240_bits_range: "0 \<le> c2240_calcCurrentBits ifs cur g \<and> c2240_calcCurrentBits ifs cur g \<le> 31"
  by (simp add: c2240_calcCurrentBits_def clamp31_def)

text \<open>
  Changing the current of a TMC2240 sends a register value whose run field is zero, the smallest
  run current, and whose hold field is the run value; the hold value that was computed is not sent.
\<close>

theorem tmc2240_set_current_misplaced:
  "\<exists>irun. snd (c2240_Set_current run hold t self) = [(''GLOBALSCALER'', c2240_calcGlobalscaler (c2240_IFSRMS self) run, t), (''IHOLD_IRUN'', irun, t)] \<and>
     irun = c2240_calcCurrentBits (c2240_IFSRMS self) run (c2240_calcGlobalscaler (c2240_IFSRMS self) run) \<and>
     extract_field (ihold_irun_mask ''irun'') False irun = 0 \<and> extract_field (ihold_irun_mask ''ihold'') False irun = irun"
proof -
  let ?i = "c2240_calcCurrentBits (c2240_IFSRMS self) run (c2240_calcGlobalscaler (c2240_IFSRMS self) run)"
  have r: "0 \<le> ?i" "?i \<le> 31" using c2240_bits_range by auto
  have "is_run (0x1f00) \<and> is_run 0x1f \<and> ffs 0x1f00 = 8 \<and> ffs 0x1f = 0" by code_simp
  then have f: "ffs 0x1f00 = 8" "ffs 0x1f = 0" by simp_all
  have "(0x1f::int) = mask 5" by (simp add: mask_eq_exp_minus_1)
  then have lo: "?i AND 0x1f = ?i" using r by (simp only: take_bit_eq_mask[symmetric]) (simp add: take_bit_int_eq_self)
  have "drop_bit 8 (?i AND 0x1f00) = 0"
  proof -
    have "drop_bit 8 ?i = 0" using r by (simp add: drop_bit_eq_div)
    then show ?thesis by (simp add: drop_bit_and)
  qed
  then show ?thesis
    using lo f by (simp add: c2240_Set_current_def c2240_calcCurrent_def Let_def tmc2240_masks extract_field_def)
qed

text \<open>The other two read their fields with a register value of zero.\<close>

lemma Get_field_zero:
  assumes "helper_ok h"
  shows "Get_field f (Some 0) None h = 0"
proof -
  have "0 \<le> field_mask (allFields h) r f" for r
  proof (cases "map_of (allFields h) r")
    case (Some fs)
    then show ?thesis
      using assms table_mask(1)[of "allFields h" r fs f]
      by (auto simp: field_mask_def helper_ok_def is_run_def split: option.splits)
  qed (simp add: field_mask_def)
  then have "\<not> field_mask (allFields h) (the_register f None h) f < shl 0 1" by (simp add: shl_def not_less)
  then show ?thesis by (simp add: Get_field_def the_value_def extract_field_def Let_def)
qed

text \<open>The TMC5160 helper always reports the same currents, whatever the fields hold.\<close>

lemma tmc5160_current_constant:
  "helper_ok (c5160_fields self) \<Longrightarrow>
   c5160_calcCurrentFromField f self = 256 * TMC5160VREF / (256 * 32 * sqrt 2 * c5160_resistor self)"
  by (simp add: c5160_calcCurrentFromField_def Get_field_zero Let_def full_scaler_def)

text \<open>The TMC2660 helper never clears the sensitivity bit.\<close>

lemma tmc2660_vsense_not_cleared:
  assumes "helper_ok (c2660_fields self)" and "c2660_calcCurrent (c2660_resistor self) current = (False, cs)"
  shows "updateCurrent current t self =
    (self\<lparr>c2660_fields := snd (Set_field ''cs'' cs None None (c2660_fields self))\<rparr>,
     [(''SGCSCONF'', fst (Set_field ''cs'' cs None None (c2660_fields self)), t)])"
  using assms Get_field_zero[OF Set_field_ok[OF assms(1)]]
  by (simp add: updateCurrent_def Let_def ToBool_def case_prod_beta)

end
