(* ===== verification/MsgProto.thy ===== *)
theory MsgProto
  imports ConfigAccess
begin

text \<open>
  The protocol between the host and the micro-controllers (\<^verbatim>\<open>msgproto/msgproto.go\<close>): parameter
  types and their encoding, message formats, the framing of blocks with length, sequence number,
  CRC and sync byte, and the dictionary a micro-controller sends to identify itself.

  A byte is an integer, as in the source; the maps the source iterates are lists in the order of
  the iteration.  A value an interface may hold is of the datatype \<open>pvalue\<close>.
\<close>

unbundle bit_operations_syntax

section \<open>Parameter types\<close>

definition MESSAGE_MIN :: nat where "MESSAGE_MIN = 5"
definition MESSAGE_MAX :: nat where "MESSAGE_MAX = 64"
definition MESSAGE_HEADER_SIZE :: nat where "MESSAGE_HEADER_SIZE = 2"
definition MESSAGE_TRAILER_SIZE :: nat where "MESSAGE_TRAILER_SIZE = 3"
definition MESSAGE_SEQ_MASK :: int where "MESSAGE_SEQ_MASK = 0x0f"
definition MESSAGE_DEST :: int where "MESSAGE_DEST = 0x10"
definition MESSAGE_SYNC :: int where "MESSAGE_SYNC = 0x7e"

text \<open>Shift to the left without a width; the places where 64 bits matter wrap explicitly.\<close>

definition lsh :: "int \<Rightarrow> nat \<Rightarrow> int" where
  "lsh x n = x * 2 ^ n"

definition wrap64 :: "int \<Rightarrow> int" where
  "wrap64 x = signed_take_bit 63 x"

definition crc_step :: "int \<Rightarrow> int \<Rightarrow> int" where
  "crc_step data crc =
     (let d1 = data XOR (crc AND 0xff);
          d = d1 XOR lsh (d1 AND 0x0f) 4
      in (lsh d 8 OR drop_bit 8 crc) XOR drop_bit 4 d XOR lsh d 3)"

definition Crc16_ccitt :: "int list \<Rightarrow> int list" where
  "Crc16_ccitt buf = (let crc = fold crc_step buf 0xffff in [drop_bit 8 crc, crc AND 0xff])"

text \<open>The value of an enumeration is a float for a single entry and an integer for an entry of a range.\<close>

datatype enum_value = EnumFloat real | EnumInt int

datatype pt =
    PT_uint32 | PT_int32 | PT_uint16 | PT_int16 | PT_byte
  | PT_string | PT_progmem_buffer | PT_buffer
  | Enumeration pt string "(string \<times> enum_value) list"

datatype pvalue = VInt int | VBytes "int list" | VStr string | VNil

fun pt_signed :: "pt \<Rightarrow> bool" where
  "pt_signed PT_int32 = True"
| "pt_signed PT_int16 = True"
| "pt_signed _ = False"

fun Is_int :: "pt \<Rightarrow> bool" where
  "Is_int PT_string = False"
| "Is_int PT_progmem_buffer = False"
| "Is_int PT_buffer = False"
| "Is_int (Enumeration _ _ _) = False"
| "Is_int _ = True"

fun Is_dynamic_string :: "pt \<Rightarrow> bool" where
  "Is_dynamic_string PT_string = True"
| "Is_dynamic_string PT_progmem_buffer = True"
| "Is_dynamic_string PT_buffer = True"
| "Is_dynamic_string _ = False"

fun Max_length :: "pt \<Rightarrow> nat" where
  "Max_length PT_uint32 = 5"
| "Max_length PT_int32 = 5"
| "Max_length PT_uint16 = 3"
| "Max_length PT_int16 = 3"
| "Max_length PT_byte = 2"
| "Max_length PT_string = 64"
| "Max_length PT_progmem_buffer = 64"
| "Max_length PT_buffer = 64"
| "Max_length (Enumeration t _ _) = Max_length t"

definition high_group :: "nat \<Rightarrow> int \<Rightarrow> int" where
  "high_group n v = (drop_bit n v AND 0x7f) OR 0x80"

definition uint32_Encode :: "int \<Rightarrow> int list" where
  "uint32_Encode v =
     (if v \<ge> 0xc000000 \<or> v < -0x4000000 then [high_group 28 v] else []) @
     (if v \<ge> 0x180000 \<or> v < -0x80000 then [high_group 21 v] else []) @
     (if v \<ge> 0x3000 \<or> v < -0x1000 then [high_group 14 v] else []) @
     (if v \<ge> 0x60 \<or> v < -0x20 then [high_group 7 v] else []) @
     [v AND 0x7f]"

definition string_Encode :: "int list \<Rightarrow> int list" where
  "string_Encode v = int (length v) # v"

fun pt_Encode :: "pt \<Rightarrow> pvalue \<Rightarrow> int list result" where
  "pt_Encode (Enumeration t enum_name enums) val =
     (case val of VStr s \<Rightarrow>
        (case map_of enums s of
           None \<Rightarrow> Inl (GoPanic (''Enumeration_error '' @ enum_name @ '' '' @ s))
         | Some (EnumInt n) \<Rightarrow> pt_Encode t (VInt n)
         | Some (EnumFloat x) \<Rightarrow> Inl TypeAssertion)
      | _ \<Rightarrow> Inl TypeAssertion)"
| "pt_Encode PT_string val = (case val of VBytes v \<Rightarrow> Inr (string_Encode v) | _ \<Rightarrow> Inl TypeAssertion)"
| "pt_Encode PT_progmem_buffer val = (case val of VBytes v \<Rightarrow> Inr (string_Encode v) | _ \<Rightarrow> Inl TypeAssertion)"
| "pt_Encode PT_buffer val = (case val of VBytes v \<Rightarrow> Inr (string_Encode v) | _ \<Rightarrow> Inl TypeAssertion)"
| "pt_Encode _ val = (case val of VInt v \<Rightarrow> Inr (uint32_Encode v) | _ \<Rightarrow> Inl TypeAssertion)"

text \<open>The groups after the first: the rest of the input runs out with an index out of range.\<close>

fun vlq_more :: "int \<Rightarrow> int \<Rightarrow> int list \<Rightarrow> nat \<Rightarrow> (int \<times> nat) result" where
  "vlq_more c v [] pos = (if c AND 0x80 \<noteq> 0x80 then Inr (v, pos) else Inl IndexOutOfRange)"
| "vlq_more c v (c' # rest) pos =
     (if c AND 0x80 \<noteq> 0x80 then Inr (v, pos)
      else vlq_more c' (wrap64 (lsh v 7 OR (c' AND 0x7f))) rest (pos + 1))"

definition int_Parse :: "bool \<Rightarrow> int list \<Rightarrow> nat \<Rightarrow> (int \<times> nat) result" where
  "int_Parse signed s pos =
     bindR (go_index s pos) (\<lambda>c.
       let v = (if c AND 0x60 = 0x60 then (c AND 0x7f) OR -0x20 else c AND 0x7f)
       in bindR (vlq_more c v (drop (pos + 1) s) (pos + 1)) (\<lambda>(v', pos').
            Inr (if \<not> signed then v' AND 0xffffffff else v', pos')))"

definition string_Parse :: "int list \<Rightarrow> nat \<Rightarrow> (int list \<times> nat) result" where
  "string_Parse s pos =
     bindR (go_index s pos) (\<lambda>l.
       if int pos + l + 1 > int (length s) then Inr ([], 0)
       else if l < 0 then Inl IndexOutOfRange
       else Inr (take (nat l) (drop (pos + 1) s), pos + nat l + 1))"

text \<open>Conversion of a float to an integer truncates.\<close>

definition trunc_float :: "real \<Rightarrow> int" where
  "trunc_float x = (if x < 0 then \<lceil>x\<rceil> else \<lfloor>x\<rfloor>)"

fun enum_int :: "enum_value \<Rightarrow> int" where
  "enum_int (EnumInt n) = n"
| "enum_int (EnumFloat x) = trunc_float x"

definition Reverse_enums :: "(string \<times> enum_value) list \<Rightarrow> int \<rightharpoonup> string" where
  "Reverse_enums enums = fold (\<lambda>(k, v) m. m(enum_int v \<mapsto> k)) enums Map.empty"

fun pt_Parse :: "pt \<Rightarrow> int list \<Rightarrow> nat \<Rightarrow> (pvalue \<times> nat) result" where
  "pt_Parse (Enumeration t enum_name enums) s pos =
     bindR (pt_Parse t s pos) (\<lambda>(val, pos').
       case val of VInt v \<Rightarrow>
         Inr (VStr (case Reverse_enums enums v of None \<Rightarrow> ''?'' @ FormatInt v | Some k \<Rightarrow> k), pos')
       | _ \<Rightarrow> Inl TypeAssertion)"
| "pt_Parse PT_string s pos = bindR (string_Parse s pos) (\<lambda>(v, pos'). Inr (VBytes v, pos'))"
| "pt_Parse PT_progmem_buffer s pos = bindR (string_Parse s pos) (\<lambda>(v, pos'). Inr (VBytes v, pos'))"
| "pt_Parse PT_buffer s pos = bindR (string_Parse s pos) (\<lambda>(v, pos'). Inr (VBytes v, pos'))"
| "pt_Parse t s pos = bindR (int_Parse (pt_signed t) s pos) (\<lambda>(v, pos'). Inr (VInt v, pos'))"

section \<open>Formats\<close>

definition MessageTypes :: "string \<rightharpoonup> pt" where
  "MessageTypes = map_of
     [(''%u'', PT_uint32), (''%i'', PT_int32), (''%hu'', PT_uint16), (''%hi'', PT_int16), (''%c'', PT_byte),
      (''%s'', PT_string), (''%.*s'', PT_progmem_buffer), (''%*s'', PT_buffer)]"

type_synonym enumerations = "(string \<times> (string \<times> enum_value) list) list"

text \<open>The first enumeration whose name the parameter's name is, or ends with after an underscore.\<close>

fun find_enum :: "string \<Rightarrow> enumerations \<Rightarrow> (string \<times> (string \<times> enum_value) list) option" where
  "find_enum name [] = None"
| "find_enum name ((enum_name, enums) # es) =
     (if name = enum_name \<or> HasSuffix name (CHR ''_'' # enum_name) then Some (enum_name, enums) else find_enum name es)"

definition lookup_param :: "enumerations \<Rightarrow> string \<Rightarrow> (string \<times> pt option) result" where
  "lookup_param enums arg =
     (case split_char CHR ''='' arg of
        name # fmt # _ \<Rightarrow>
          (case find_enum name enums of
             None \<Rightarrow> Inr (name, MessageTypes fmt)
           | Some (enum_name, es) \<Rightarrow>
               (case MessageTypes fmt of
                  None \<Rightarrow> Inl TypeAssertion
                | Some t \<Rightarrow> Inr (name, Some (Enumeration t enum_name es))))
      | _ \<Rightarrow> Inl IndexOutOfRange)"

fun map_result :: "('a \<Rightarrow> 'b result) \<Rightarrow> 'a list \<Rightarrow> 'b list result" where
  "map_result f [] = Inr []"
| "map_result f (x # xs) = bindR (f x) (\<lambda>y. bindR (map_result f xs) (\<lambda>ys. Inr (y # ys)))"

definition Lookup_params :: "string \<Rightarrow> enumerations \<Rightarrow> (string \<times> pt option) list result" where
  "Lookup_params msgformat enums =
     map_result (lookup_param enums) (filter (\<lambda>a. a \<noteq> []) (tl (split_char CHR '' '' msgformat)))"

text \<open>Up to four characters from the percent sign are tried; a slice beyond the end panics.\<close>

fun match_type :: "nat \<Rightarrow> nat \<Rightarrow> string \<Rightarrow> pt option result" where
  "match_type i 0 args = Inr None"
| "match_type i (Suc n) args =
     (if i + 1 > length args then Inl IndexOutOfRange
      else case MessageTypes (take (i + 1) args) of Some t \<Rightarrow> Inr (Some t) | None \<Rightarrow> match_type (i + 1) n args)"

function output_params :: "string \<Rightarrow> pt list \<Rightarrow> pt list result" where
  "output_params args acc =
     (case dropWhile (\<lambda>c. c \<noteq> CHR ''%'') args of
        [] \<Rightarrow> Inr acc
      | c # rest \<Rightarrow>
          (if rest = [] \<or> hd rest \<noteq> CHR ''%'' then
             bindR (match_type 0 4 (c # rest)) (\<lambda>m. case m of
               Some t \<Rightarrow> Inl (GoPanic ''Invalid output format'')
             | None \<Rightarrow> output_params rest acc)
           else output_params rest acc))"
  by pat_completeness auto
termination
proof (relation "measure (\<lambda>(args, acc). length args)")
  fix args acc c rest
  assume "dropWhile (\<lambda>c. c \<noteq> CHR ''%'') args = c # rest"
  then have "length (c # rest) \<le> length args" by (metis length_dropWhile_le)
  then show "((rest, acc :: pt list), args, acc) \<in> measure (\<lambda>(args, acc). length args)" by simp
  then show "((rest, acc), args, acc) \<in> measure (\<lambda>(args, acc). length args)" .
qed simp

declare output_params.simps [simp del]

definition Lookup_output_params :: "string \<Rightarrow> pt list result" where
  "Lookup_output_params msgformat = output_params msgformat []"

definition Convert_msg_format :: "string \<Rightarrow> string" where
  "Convert_msg_format msgformat =
     fold (\<lambda>cond ret. ReplaceAll cond ''%s'' ret) [''%u'', ''%i'', ''%hu'', ''%hi'', ''%c'', ''%.*s'', ''%*s''] msgformat"

record MessageFormat =
  msgid_bytes :: "int list"
  Msgformat :: string
  Debugformat :: string
  Name :: string
  Param_names :: "(string \<times> pt option) list"

definition NewMessageFormat :: "int list \<Rightarrow> string \<Rightarrow> enumerations \<Rightarrow> MessageFormat result" where
  "NewMessageFormat idb msgformat enums =
     bindR (Lookup_params msgformat enums) (\<lambda>ps.
       Inr \<lparr>msgid_bytes = idb, Msgformat = msgformat, Debugformat = Convert_msg_format msgformat,
            Name = hd (split_char CHR '' '' msgformat), Param_names = ps\<rparr>)"

text \<open>
  Encoding by position: a parameter of an unknown type is skipped, and so is a value that is
  neither a number nor a list of bytes.
\<close>

fun encode_params :: "pt option list \<Rightarrow> pvalue list \<Rightarrow> int list result" where
  "encode_params [] vals = Inr []"
| "encode_params (None # ts) vals = encode_params ts (tl vals)"
| "encode_params (Some t # ts) [] = Inl IndexOutOfRange"
| "encode_params (Some t # ts) (v # vs) =
     bindR (case v of VInt _ \<Rightarrow> pt_Encode t v | VBytes _ \<Rightarrow> pt_Encode t v | _ \<Rightarrow> Inr []) (\<lambda>a.
     bindR (encode_params ts vs) (\<lambda>b. Inr (a @ b)))"

definition mf_Encode :: "MessageFormat \<Rightarrow> pvalue list \<Rightarrow> int list result" where
  "mf_Encode mf params = bindR (encode_params (map snd (Param_names mf)) params) (\<lambda>b. Inr (msgid_bytes mf @ b))"

fun encode_named :: "(string \<times> pt option) list \<Rightarrow> (string \<rightharpoonup> pvalue) \<Rightarrow> int list result" where
  "encode_named [] params = Inr []"
| "encode_named ((name, t) # ps) params =
     bindR (case t of None \<Rightarrow> Inr [] | Some t \<Rightarrow> pt_Encode t (case params name of None \<Rightarrow> VNil | Some v \<Rightarrow> v)) (\<lambda>a.
     bindR (encode_named ps params) (\<lambda>b. Inr (a @ b)))"

definition Encode_by_name :: "MessageFormat \<Rightarrow> (string \<rightharpoonup> pvalue) \<Rightarrow> int list result" where
  "Encode_by_name mf params = bindR (encode_named (Param_names mf) params) (\<lambda>b. Inr (msgid_bytes mf @ b))"

fun parse_params :: "(string \<times> pt option) list \<Rightarrow> int list \<Rightarrow> nat \<Rightarrow> (string \<rightharpoonup> pvalue) \<Rightarrow> ((string \<rightharpoonup> pvalue) \<times> nat) result" where
  "parse_params [] s pos out = Inr (out, pos)"
| "parse_params ((name, None) # ps) s pos out = Inl TypeAssertion"
| "parse_params ((name, Some t) # ps) s pos out =
     bindR (pt_Parse t s pos) (\<lambda>(v, pos1). parse_params ps s pos1 (out(name \<mapsto> v)))"

definition mf_Parse :: "MessageFormat \<Rightarrow> int list \<Rightarrow> nat \<Rightarrow> ((string \<rightharpoonup> pvalue) \<times> nat) result" where
  "mf_Parse mf s pos = parse_params (Param_names mf) s (pos + length (msgid_bytes mf)) Map.empty"

record OutputFormat =
  out_msgid_bytes :: "int list"
  out_Msgformat :: string
  out_Debugformat :: string
  out_Param_types :: "pt list"
  out_Name :: string

definition NewOutputFormat :: "int list \<Rightarrow> string \<Rightarrow> OutputFormat result" where
  "NewOutputFormat idb msgformat =
     bindR (Lookup_output_params msgformat) (\<lambda>ts.
       Inr \<lparr>out_msgid_bytes = idb, out_Msgformat = msgformat, out_Debugformat = Convert_msg_format msgformat,
            out_Param_types = ts, out_Name = ''#output''\<rparr>)"

text \<open>A dynamic string is parsed to a list of bytes, which is not the \<open>string\<close> the code asserts.\<close>

fun parse_outputs :: "pt list \<Rightarrow> int list \<Rightarrow> nat \<Rightarrow> (pvalue list \<times> nat) result" where
  "parse_outputs [] s pos = Inr ([], pos)"
| "parse_outputs (t # ts) s pos =
     bindR (pt_Parse t s pos) (\<lambda>(v, pos1).
       if Is_dynamic_string t then Inl TypeAssertion
       else bindR (parse_outputs ts s pos1) (\<lambda>(vs, pos2). Inr (v # vs, pos2)))"

definition of_Parse :: "OutputFormat \<Rightarrow> int list \<Rightarrow> nat \<Rightarrow> (pvalue list \<times> nat) result" where
  "of_Parse f s pos = parse_outputs (out_Param_types f) s (pos + length (out_msgid_bytes f))"

text \<open>The parser of the identifier is a zero \<open>PT_int32\<close> and so reads it unsigned.\<close>

definition uf_Parse :: "int list \<Rightarrow> nat \<Rightarrow> ((string \<rightharpoonup> pvalue) \<times> int) result" where
  "uf_Parse s pos =
     bindR (int_Parse False s pos) (\<lambda>(msgid, _).
       let msgid = (if int (length s) - 1 = int pos then s ! pos else msgid)
       in Inr ([''#msgid'' \<mapsto> VInt msgid, ''#msg'' \<mapsto> VBytes s], int (length s) - int MESSAGE_TRAILER_SIZE))"

section \<open>The parser\<close>

datatype format = MsgFmt MessageFormat | OutFmt OutputFormat

text \<open>The values of a decoded JSON document.\<close>

datatype json = JNum real | JStr string | JBool bool | JNull | JArr "json list" | JObj "(string \<times> json) list"

record MessageParser =
  Enumerations :: enumerations
  Messages :: "(int \<times> string \<times> string) list"
  Messages_by_id :: "int \<rightharpoonup> format"
  Messages_by_name :: "string \<rightharpoonup> MessageFormat"
  msgid_by_format :: "string \<rightharpoonup> int"
  Config :: "(string \<times> json) list"
  Version :: string
  Build_versions :: string

definition Check_packet :: "int list \<Rightarrow> int" where
  "Check_packet s =
     (if length s < MESSAGE_MIN then 0
      else let msglen = s ! 0; msgseq = s ! 1 in
        if msglen < int MESSAGE_MIN \<or> msglen > int MESSAGE_MAX then -1
        else if msgseq AND NOT MESSAGE_SEQ_MASK \<noteq> MESSAGE_DEST then -1
        else if int (length s) < msglen then 0
        else if s ! nat (msglen - 1) \<noteq> MESSAGE_SYNC then -1
        else if Crc16_ccitt (take (nat msglen - MESSAGE_TRAILER_SIZE) s)
                  \<noteq> take 2 (drop (nat msglen - 3) s) then -1
        else msglen)"

definition Encode_msgblock :: "int \<Rightarrow> int list \<Rightarrow> int list" where
  "Encode_msgblock seq cmd =
     (let out = int (MESSAGE_MIN + length cmd) # ((seq AND MESSAGE_SEQ_MASK) OR MESSAGE_DEST) # cmd
      in out @ Crc16_ccitt out @ [MESSAGE_SYNC])"

text \<open>
  A format for debugging output does not have the methods the parser asserts, so a message of such
  a format panics.
\<close>

definition mp_Parse :: "MessageParser \<Rightarrow> int list \<Rightarrow> (string \<rightharpoonup> pvalue) result" where
  "mp_Parse mp s =
     bindR (int_Parse True s MESSAGE_HEADER_SIZE) (\<lambda>(msgid, _).
     bindR (case Messages_by_id mp msgid of
              None \<Rightarrow> bindR (uf_Parse s MESSAGE_HEADER_SIZE) (\<lambda>(params, pos). Inr (params, pos, ''#unknown''))
            | Some (MsgFmt mf) \<Rightarrow>
                bindR (mf_Parse mf s MESSAGE_HEADER_SIZE) (\<lambda>(params, pos). Inr (params, int pos, Name mf))
            | Some (OutFmt _) \<Rightarrow> Inl TypeAssertion) (\<lambda>(params, pos, name).
       if pos \<noteq> int (length s) - int MESSAGE_TRAILER_SIZE then Inl (GoPanic ''Extra data at end of message'')
       else Inr (params(''#name'' \<mapsto> VStr name))))"

fun low_bytes :: "nat \<Rightarrow> int \<Rightarrow> int list" where
  "low_bytes 0 tval = []"
| "low_bytes (Suc n) tval = (tval AND 0xff) # low_bytes n (drop_bit 8 tval)"

definition Parse_buffer :: "string \<Rightarrow> int list" where
  "Parse_buffer value = (if value = [] then [] else rev (low_bytes (length value div 2) (Atoi_value value)))"

definition Lookup_command :: "MessageParser \<Rightarrow> string \<Rightarrow> MessageFormat result" where
  "Lookup_command mp msgformat =
     (let msgname = hd (split_char CHR '' '' (TrimSpace msgformat))
      in case Messages_by_name mp msgname of
           None \<Rightarrow> Inl (GoError (''Unknown command: '' @ msgname))
         | Some mf \<Rightarrow>
             if msgformat \<noteq> Msgformat mf then
               Inl (GoError (''Command format mismatch: '' @ msgformat @ '' vs '' @ Msgformat mf))
             else Inr mf)"

definition lookup_msgid :: "MessageParser \<Rightarrow> string \<Rightarrow> int result" where
  "lookup_msgid mp msgformat =
     (case msgid_by_format mp msgformat of
        None \<Rightarrow> Inl (GoPanic (''Unknown command: '' @ msgformat)) | Some msgid \<Rightarrow> Inr msgid)"

definition Name_to_type :: "MessageFormat \<Rightarrow> string \<Rightarrow> pt option" where
  "Name_to_type mf name = (case map_of (rev (Param_names mf)) name of None \<Rightarrow> None | Some t \<Rightarrow> t)"

definition split_arg :: "string \<Rightarrow> (string \<times> string) result" where
  "split_arg arg = (case split_char CHR ''='' arg of name # value # _ \<Rightarrow> Inr (name, value) | _ \<Rightarrow> Inl IndexOutOfRange)"

definition arg_value :: "pt \<Rightarrow> string \<Rightarrow> pvalue" where
  "arg_value t value =
     (if Is_dynamic_string t then VBytes (Parse_buffer value)
      else if Is_int t then VInt (Atoi_value value) else VStr value)"

definition Create_command :: "MessageParser \<Rightarrow> string \<Rightarrow> int list result" where
  "Create_command mp msg =
     (let parts = split_char CHR '' '' (TrimSpace msg)
      in case Messages_by_name mp (hd parts) of
           None \<Rightarrow> Inr []
         | Some mf \<Rightarrow>
             bindR (map_result split_arg (tl parts)) (\<lambda>args.
               if \<exists>(name, value) \<in> set args. Name_to_type mf name = None then Inr []
               else Encode_by_name mf
                 (\<lambda>name. case map_of (rev args) name of None \<Rightarrow> None
                    | Some value \<Rightarrow> map_option (\<lambda>t. arg_value t value) (Name_to_type mf name))))"

section \<open>The dictionary of a micro-controller\<close>

fun upsert :: "'k \<Rightarrow> 'v \<Rightarrow> ('k \<times> 'v) list \<Rightarrow> ('k \<times> 'v) list" where
  "upsert k v [] = [(k, v)]"
| "upsert k v ((k', v') # m) = (if k = k' then (k, v) # m else (k', v') # upsert k v m)"

text \<open>\<open>unicode.IsNumber\<close> on a single byte.\<close>

definition IsNumber :: "char \<Rightarrow> bool" where
  "IsNumber c = (let n = of_char c :: nat in (48 \<le> n \<and> n \<le> 57) \<or> n \<in> set [0xb2, 0xb3, 0xb9, 0xbc, 0xbd, 0xbe])"

definition enum_root :: "string \<Rightarrow> string" where
  "enum_root enum = rev (dropWhile IsNumber (rev enum))"

definition enum_entry :: "string \<Rightarrow> json \<Rightarrow> (string \<times> enum_value) list \<Rightarrow> (string \<times> enum_value) list result" where
  "enum_entry enum val enums =
     (case val of
        JNum x \<Rightarrow> Inr (upsert enum (EnumFloat x) enums)
      | JArr vs \<Rightarrow>
          (let root = enum_root enum;
               start_enum = (if length root \<noteq> length enum then Atoi_value (drop (length root) enum) else 0)
           in bindR (go_index vs 0) (\<lambda>v0. case v0 of
                JNum start_value \<Rightarrow>
                  bindR (go_index vs 1) (\<lambda>v1. case v1 of
                    JNum count \<Rightarrow>
                      Inr (fold (\<lambda>i. upsert (root @ FormatInt (start_enum + int i)) (EnumInt (trunc_float start_value + int i)))
                             [0..<nat (trunc_float count)] enums)
                  | _ \<Rightarrow> Inl TypeAssertion)
              | _ \<Rightarrow> Inl TypeAssertion))
      | _ \<Rightarrow> Inl TypeAssertion)"

fun fold_result :: "('a \<Rightarrow> 's \<Rightarrow> 's result) \<Rightarrow> 'a list \<Rightarrow> 's \<Rightarrow> 's result" where
  "fold_result f [] s = Inr s"
| "fold_result f (x # xs) s = bindR (f x s) (fold_result f xs)"

definition Fill_enumerations :: "(string \<times> json) list \<Rightarrow> enumerations \<Rightarrow> enumerations result" where
  "Fill_enumerations =
     fold_result (\<lambda>(add_name, add_enums) es. case add_enums of
        JObj entries \<Rightarrow>
          bindR (fold_result (\<lambda>(enum, val). enum_entry enum val) entries []) (\<lambda>enums. Inr (upsert add_name enums es))
      | _ \<Rightarrow> Inl TypeAssertion)"

definition message_type :: "int \<Rightarrow> int list \<Rightarrow> int list \<Rightarrow> string" where
  "message_type msgid command_ids output_tags =
     (if msgid \<in> set output_tags then ''output'' else if msgid \<in> set command_ids then ''command'' else ''response'')"

definition init_message :: "int list \<Rightarrow> int list \<Rightarrow> string \<times> int \<Rightarrow> MessageParser \<Rightarrow> MessageParser result" where
  "init_message command_ids output_tags m mp =
     (let (msgformat, msgid) = m;
          msgtype = message_type msgid command_ids output_tags;
          mp1 = mp\<lparr>Messages := Messages mp @ [(msgid, msgtype, msgformat)],
                   msgid_by_format := (msgid_by_format mp)(msgformat \<mapsto> msgid)\<rparr>;
          idb = uint32_Encode msgid
      in if msgtype = ''output'' then
           bindR (NewOutputFormat idb msgformat) (\<lambda>f.
             Inr (mp1\<lparr>Messages_by_id := (Messages_by_id mp1)(msgid \<mapsto> OutFmt f)\<rparr>))
         else
           bindR (NewMessageFormat idb msgformat (Enumerations mp1)) (\<lambda>f.
             Inr (mp1\<lparr>Messages_by_id := (Messages_by_id mp1)(msgid \<mapsto> MsgFmt f),
                      Messages_by_name := (Messages_by_name mp1)(Name f \<mapsto> f)\<rparr>)))"

definition Init_messages :: "(string \<times> int) list \<Rightarrow> int list \<Rightarrow> int list \<Rightarrow> MessageParser \<Rightarrow> MessageParser result" where
  "Init_messages messages command_ids output_tags = fold_result (init_message command_ids output_tags) messages"

definition DefaultMessages :: "(string \<times> int) list" where
  "DefaultMessages = [(''identify_response offset=%u data=%.*s'', 0), (''identify offset=%u count=%c'', 1)]"

definition empty_parser :: MessageParser where
  "empty_parser = \<lparr>Enumerations = [], Messages = [], Messages_by_id = Map.empty, Messages_by_name = Map.empty,
     msgid_by_format = Map.empty, Config = [], Version = [], Build_versions = []\<rparr>"

definition NewMessageParser :: "MessageParser result" where
  "NewMessageParser = Init_messages DefaultMessages [] [] empty_parser"

fun json_obj :: "json option \<Rightarrow> (string \<times> json) list result" where
  "json_obj (Some (JObj kvs)) = Inr kvs"
| "json_obj _ = Inl TypeAssertion"

fun json_str :: "json option \<Rightarrow> string result" where
  "json_str (Some (JStr s)) = Inr s"
| "json_str _ = Inl TypeAssertion"

fun json_tag :: "string \<times> json \<Rightarrow> (string \<times> int) result" where
  "json_tag (k, JNum x) = Inr (k, trunc_float x)"
| "json_tag (k, _) = Inl TypeAssertion"

text \<open>
  The dictionary arrives as a decoded JSON object.  Its \<open>output\<close> entry, when there is one, is never
  of the type the code asserts.
\<close>

definition Process_identify :: "(string \<times> json) list \<Rightarrow> MessageParser \<Rightarrow> MessageParser result" where
  "Process_identify data mp =
     bindR (case map_of data ''enumerations'' of None \<Rightarrow> Inr [] | v \<Rightarrow> json_obj v) (\<lambda>es.
     bindR (Fill_enumerations es (Enumerations mp)) (\<lambda>enums.
     bindR (json_obj (map_of data ''commands'')) (\<lambda>commands.
     bindR (json_obj (map_of data ''responses'')) (\<lambda>responses.
     bindR (case map_of data ''output'' of None \<Rightarrow> Inr () | Some _ \<Rightarrow> Inl TypeAssertion) (\<lambda>_.
     bindR (map_result json_tag commands) (\<lambda>cs.
     bindR (map_result json_tag responses) (\<lambda>rs.
     bindR (Init_messages (fold (\<lambda>(k, v). upsert k v) (cs @ rs) []) (map snd cs) [] (mp\<lparr>Enumerations := enums\<rparr>)) (\<lambda>mp1.
     bindR (case map_of data ''config'' of None \<Rightarrow> Inr [] | v \<Rightarrow> json_obj v) (\<lambda>cfg.
     bindR (json_str (map_of data ''version'')) (\<lambda>ver.
     bindR (json_str (map_of data ''build_versions'')) (\<lambda>builds.
       Inr (mp1\<lparr>Config := fold (\<lambda>(k, v). upsert k v) cfg (Config mp1), Version := ver, Build_versions := builds\<rparr>))))))))))))"

fun FindCommandTag :: "(int \<times> string \<times> string) list \<Rightarrow> string \<Rightarrow> int option" where
  "FindCommandTag [] msgformat = None"
| "FindCommandTag ((msgid, _, f) # ms) msgformat = (if f = msgformat then Some msgid else FindCommandTag ms msgformat)"

text \<open>
  Firmware constants: the kinds a caller asks for and the values an interface holds.  A constant
  is stored as JSON decodes it, so an integer is a float.
\<close>

datatype kind = KString | KInt | KFloat64

datatype const_value = CInt int | CFloat real | CStr string | COther json

fun const_of_json :: "json \<Rightarrow> const_value result" where
  "const_of_json (JNum x) = Inr (CFloat x)"
| "const_of_json (JStr s) = Inr (CStr s)"
| "const_of_json JNull = Inl (GoPanic ''nil pointer dereference'')"
| "const_of_json v = Inr (COther v)"

text \<open>Formatting a float with the zero verb yields the percent sign and the verb.\<close>

fun get_constant4kind :: "const_value \<Rightarrow> kind \<Rightarrow> const_value option" where
  "get_constant4kind (CStr s) k =
     (case k of KString \<Rightarrow> Some (CStr s)
      | KInt \<Rightarrow> Some (CInt (case Atoi s of None \<Rightarrow> 0 | Some n \<Rightarrow> n))
      | KFloat64 \<Rightarrow> Some (case ParseFloat s of None \<Rightarrow> CInt 0 | Some x \<Rightarrow> CFloat x))"
| "get_constant4kind (CInt n) k =
     (case k of KString \<Rightarrow> Some (CStr (FormatInt n)) | KInt \<Rightarrow> Some (CInt n) | KFloat64 \<Rightarrow> Some (CFloat (of_int n)))"
| "get_constant4kind (CFloat x) k =
     (case k of KString \<Rightarrow> Some (CStr [CHR ''%'', CHR 0x00]) | KInt \<Rightarrow> Some (CInt (trunc_float x)) | KFloat64 \<Rightarrow> Some (CFloat x))"
| "get_constant4kind (COther _) k = None"

definition Get_constant :: "MessageParser \<Rightarrow> string \<Rightarrow> const_value option \<Rightarrow> kind \<Rightarrow> const_value option result" where
  "Get_constant mp name d k =
     (case map_of (Config mp) name of
        None \<Rightarrow> Inr d
      | Some j \<Rightarrow> bindR (const_of_json j) (\<lambda>v. Inr (get_constant4kind v k)))"

definition Get_constant_float :: "MessageParser \<Rightarrow> string \<Rightarrow> const_value option \<Rightarrow> real result" where
  "Get_constant_float mp name d =
     bindR (Get_constant mp name d KFloat64) (\<lambda>v. Inr (case v of Some (CFloat x) \<Rightarrow> x | _ \<Rightarrow> 0))"

definition Get_constant_int :: "MessageParser \<Rightarrow> string \<Rightarrow> const_value option \<Rightarrow> int result" where
  "Get_constant_int mp name d =
     bindR (Get_constant mp name d KInt) (\<lambda>v. case v of None \<Rightarrow> Inr 0 | Some (CInt n) \<Rightarrow> Inr n | _ \<Rightarrow> Inl TypeAssertion)"

section \<open>Integers survive the encoding\<close>

lemma lsh_push_bit: "lsh x n = push_bit n x"
  by (simp add: lsh_def push_bit_eq_mult)

lemma numeral_mask:
  "(0x7f :: int) = mask 7" "(0x80 :: int) = push_bit 7 1" "(0xff :: int) = mask 8" "(0xffffffff :: int) = mask 32"
  by (simp_all add: mask_eq_exp_minus_1 push_bit_eq_mult)

lemma high_group_bits:
  "high_group n v AND 0x80 = 0x80"
  "high_group n v AND 0x7f = drop_bit n v AND 0x7f"
  "high_group n v AND 0x60 = drop_bit n v AND 0x60"
proof -
  have seven: "bit (0x7f :: int) i \<longleftrightarrow> i < 7" for i
    unfolding numeral_mask by (simp add: bit_mask_iff)
  have eight: "bit (0x80 :: int) i \<longleftrightarrow> i = 7" for i
    unfolding numeral_mask by (simp only: bit_push_bit_iff bit_1_iff) auto
  have six: "bit (0x60 :: int) i \<Longrightarrow> i < 7" for i
  proof -
    assume "bit (0x60 :: int) i"
    moreover have "(0x60 :: int) = take_bit 7 0x60" by simp
    ultimately show "i < 7" by (metis bit_take_bit_iff)
  qed
  show "high_group n v AND 0x80 = 0x80"
    by (rule bit_eqI) (auto simp: high_group_def bit_and_iff bit_or_iff seven eight)
  show "high_group n v AND 0x7f = drop_bit n v AND 0x7f"
    by (rule bit_eqI) (auto simp: high_group_def bit_and_iff bit_or_iff seven eight)
  show "high_group n v AND 0x60 = drop_bit n v AND 0x60"
    by (rule bit_eqI) (auto simp: high_group_def bit_and_iff bit_or_iff seven eight dest: six)
qed

lemma append_group:
  "lsh (drop_bit (n + 7) v) 7 OR (drop_bit n v AND 0x7f) = drop_bit n v"
proof (rule bit_eqI)
  fix i
  have "bit (0x7f :: int) i \<longleftrightarrow> i < 7"
    unfolding numeral_mask by (simp add: bit_mask_iff)
  then show "bit (lsh (drop_bit (n + 7) v) 7 OR (drop_bit n v AND 0x7f)) i = bit (drop_bit n v) i"
    by (auto simp: lsh_push_bit bit_and_iff bit_or_iff bit_push_bit_iff bit_drop_bit_eq not_less algebra_simps)
qed

lemma first_group:
  fixes w :: int
  assumes "- 0x20 \<le> w" and "w < 0x60"
  shows "(if w AND 0x60 = 0x60 then (w AND 0x7f) OR - 0x20 else w AND 0x7f) = w"
proof -
  have "\<forall>w \<in> set [- 32..95]. (if w AND 0x60 = 0x60 then (w AND 0x7f) OR - 0x20 else w AND 0x7f) = (w :: int)"
    by code_simp
  moreover have "w \<in> set [- 32..95]" unfolding set_upto atLeastAtMost_iff using assms by (intro conjI) linarith+
  ultimately show ?thesis by blast
qed

lemma low_group_bits:
  "(v AND 0x7f) AND 0x80 = (0 :: int)"
  "(v AND 0x7f) AND 0x7f = (v AND 0x7f :: int)"
  "(v AND 0x7f) AND 0x60 = (v AND 0x60 :: int)"
  by (simp_all add: and.assoc)

definition in_vlq :: "int \<Rightarrow> bool" where
  "in_vlq v \<longleftrightarrow> - (2 ^ 33) \<le> v \<and> v < 0x60 * 2 ^ 28"

lemma drop_bit_between:
  fixes v :: int
  shows "min v 0 \<le> drop_bit n v" and "drop_bit n v \<le> max v 0"
proof -
  have d: "(1 :: int) \<le> 2 ^ n" by simp
  have q: "2 ^ n * drop_bit n v + v mod 2 ^ n = v" by (simp add: drop_bit_eq_div)
  have r: "0 \<le> v mod 2 ^ n" "v mod 2 ^ n < 2 ^ n" by simp_all
  show "min v 0 \<le> drop_bit n v"
  proof (rule ccontr)
    assume "\<not> min v 0 \<le> drop_bit n v"
    then have "drop_bit n v + 1 \<le> v" "v \<le> 0 \<or> drop_bit n v + 1 \<le> 0" by (auto simp: min_def split: if_splits)
    then have n: "drop_bit n v + 1 \<le> min v 0" by (auto simp: min_def)
    have "2 ^ n * (drop_bit n v + 1) \<le> 2 ^ n * min v 0"
      using n by (intro mult_left_mono) simp_all
    also have "\<dots> \<le> 1 * min v 0"
      using d by (intro mult_right_mono_neg) simp_all
    finally show False using q r by (simp add: algebra_simps)
  qed
  show "drop_bit n v \<le> max v 0"
  proof (rule ccontr)
    assume "\<not> drop_bit n v \<le> max v 0"
    then have n: "max v 0 + 1 \<le> drop_bit n v" by simp
    have "1 * (max v 0 + 1) \<le> 2 ^ n * (max v 0 + 1)"
      using d by (intro mult_right_mono) simp_all
    also have "\<dots> \<le> 2 ^ n * drop_bit n v"
      using n by (intro mult_left_mono) simp_all
    finally have "v < 2 ^ n * drop_bit n v" by simp
    moreover have "2 ^ n * drop_bit n v \<le> v" by (subst (2) q[symmetric]) (simp add: r)
    ultimately show False by simp
  qed
qed

lemma wrap64_small: "in_vlq v \<Longrightarrow> wrap64 (drop_bit n v) = drop_bit n v"
proof -
  assume v: "in_vlq v"
  have "- (2 ^ 63) \<le> min v 0" "max v 0 < 2 ^ 63" using v by (simp_all add: in_vlq_def)
  then have "- (2 ^ 63) \<le> drop_bit n v" "drop_bit n v < 2 ^ 63"
    using drop_bit_between[where v = v and n = n] by linarith+
  then show ?thesis unfolding wrap64_def by (intro signed_take_bit_int_eq_self) simp_all
qed

lemmas vlq_bits = high_group_bits low_group_bits append_group wrap64_small

lemma vlq_more_last: "c AND 0x80 \<noteq> 0x80 \<Longrightarrow> vlq_more c v rest pos = Inr (v, pos)"
  by (cases rest) simp_all

lemma int_Parse_at:
  assumes "(if c AND 0x60 = 0x60 then (c AND 0x7f) OR - 0x20 else c AND 0x7f) = w"
  shows "int_Parse signed (pre @ c # rest) (length pre) =
         bindR (vlq_more c w rest (length pre + 1)) (\<lambda>(v', pos').
           Inr (if \<not> signed then v' AND 0xffffffff else v', pos'))"
  using assms by (simp only: int_Parse_def Let_def go_index_append_right[where i = 0, simplified] go_index_Cons bindR_simps) simp

lemma uint32_Encode_parse:
  assumes v: "in_vlq v"
  shows "int_Parse signed (pre @ uint32_Encode v @ post) (length pre)
         = Inr (if signed then v else v AND 0xffffffff, length pre + length (uint32_Encode v))"
proof -
  have g: "lsh (drop_bit 28 v) 7 OR (drop_bit 21 v AND 0x7f) = drop_bit 21 v"
    "lsh (drop_bit 21 v) 7 OR (drop_bit 14 v AND 0x7f) = drop_bit 14 v"
    "lsh (drop_bit 14 v) 7 OR (drop_bit 7 v AND 0x7f) = drop_bit 7 v"
    "lsh (drop_bit 7 v) 7 OR (v AND 0x7f) = v"
    using append_group[of 21 v] append_group[of 14 v] append_group[of 7 v] append_group[of 0 v] by simp_all
  have w: "wrap64 v = v" using wrap64_small[OF v, of 0] by simp
  have f: "(if drop_bit n v AND 0x60 = 0x60 then (drop_bit n v AND 0x7f) OR - 0x20 else drop_bit n v AND 0x7f) = drop_bit n v"
    if "- 0x20 * 2 ^ n \<le> v" "v < 0x60 * 2 ^ n" for n
  proof (rule first_group)
    show "- 0x20 \<le> drop_bit n v"
      using zdiv_mono1[OF that(1), of "2 ^ n"] nonzero_mult_div_cancel_right[of "2 ^ n :: int" "- 0x20"]
      by (simp add: drop_bit_eq_div)
    show "drop_bit n v < 0x60"
    proof (rule ccontr)
      assume "\<not> drop_bit n v < 0x60"
      then have "0x60 * 2 ^ n \<le> drop_bit n v * 2 ^ n" by (intro mult_right_mono) simp_all
      moreover have "drop_bit n v * 2 ^ n + v mod 2 ^ n = v" "0 \<le> v mod 2 ^ n"
        using div_mult_mod_eq[of v "2 ^ n"] by (simp_all add: drop_bit_eq_div)
      ultimately show False using that(2) by linarith
    qed
  qed
  have hf: "(if high_group n v AND 0x60 = 0x60 then (high_group n v AND 0x7f) OR - 0x20 else high_group n v AND 0x7f) = drop_bit n v"
    if "- 0x20 * 2 ^ n \<le> v" "v < 0x60 * 2 ^ n" for n
    unfolding high_group_bits by (rule f[OF that])
  have lf: "(if (v AND 0x7f) AND 0x60 = 0x60 then ((v AND 0x7f) AND 0x7f) OR - 0x20 else (v AND 0x7f) AND 0x7f) = v"
    if "- 0x20 \<le> v" "v < 0x60"
    unfolding low_group_bits by (rule first_group[OF that])
  note simps = vlq_more_last vlq_bits g w v
  have "- (2 ^ 33) \<le> v" "v < 0x60 * 2 ^ 28" using v by (simp_all add: in_vlq_def)
  then consider "v \<ge> 0xc000000 \<or> v < -0x4000000"
    | "v < 0xc000000" "v \<ge> -0x4000000" "v \<ge> 0x180000 \<or> v < -0x80000"
    | "v < 0x180000" "v \<ge> -0x80000" "v \<ge> 0x3000 \<or> v < -0x1000"
    | "v < 0x3000" "v \<ge> -0x1000" "v \<ge> 0x60 \<or> v < -0x20"
    | "v < 0x60" "v \<ge> -0x20" by linarith
  then show ?thesis
  proof cases
    case 1
    then have e: "uint32_Encode v = [high_group 28 v, high_group 21 v, high_group 14 v, high_group 7 v, v AND 0x7f]"
      by (auto simp: uint32_Encode_def)
    show ?thesis
      unfolding e append_Cons append_Nil
      by (subst int_Parse_at[OF hf[of 28]]) (use v in \<open>simp_all add: simps in_vlq_def\<close>)
  next
    case 2
    then have e: "uint32_Encode v = [high_group 21 v, high_group 14 v, high_group 7 v, v AND 0x7f]"
      by (auto simp: uint32_Encode_def)
    show ?thesis
      unfolding e append_Cons append_Nil
      by (subst int_Parse_at[OF hf[of 21]]) (use 2 in \<open>simp_all add: simps in_vlq_def\<close>)
  next
    case 3
    then have e: "uint32_Encode v = [high_group 14 v, high_group 7 v, v AND 0x7f]"
      by (auto simp: uint32_Encode_def)
    show ?thesis
      unfolding e append_Cons append_Nil
      by (subst int_Parse_at[OF hf[of 14]]) (use 3 in \<open>simp_all add: simps in_vlq_def\<close>)
  next
    case 4
    then have e: "uint32_Encode v = [high_group 7 v, v AND 0x7f]"
      by (auto simp: uint32_Encode_def)
    show ?thesis
      unfolding e append_Cons append_Nil
      by (subst int_Parse_at[OF hf[of 7]]) (use 4 in \<open>simp_all add: simps in_vlq_def\<close>)
  next
    case 5
    then have e: "uint32_Encode v = [v AND 0x7f]"
      by (auto simp: uint32_Encode_def)
    show ?thesis
      unfolding e append_Cons append_Nil
      by (subst int_Parse_at[OF lf]) (use 5 in \<open>simp_all add: simps in_vlq_def\<close>)
  qed
qed

section \<open>Messages survive the encoding\<close>

text \<open>The values a parameter can carry: numbers in the range of the type, names an enumeration numbers uniquely.\<close>

fun fits :: "pt \<Rightarrow> pvalue \<Rightarrow> bool" where
  "fits (Enumeration t _ enums) v =
     (case v of VStr s \<Rightarrow>
        (case map_of enums s of Some (EnumInt n) \<Rightarrow>
           Is_int t \<and> fits t (VInt n) \<and> (\<forall>(k, w) \<in> set enums. enum_int w = n \<longrightarrow> k = s)
         | _ \<Rightarrow> False)
      | _ \<Rightarrow> False)"
| "fits t v =
     (if Is_dynamic_string t then (case v of VBytes _ \<Rightarrow> True | _ \<Rightarrow> False)
      else case v of VInt n \<Rightarrow> if pt_signed t then - (2 ^ 31) \<le> n \<and> n < 2 ^ 31 else 0 \<le> n \<and> n < 2 ^ 32 | _ \<Rightarrow> False)"

lemma mask32: "0 \<le> n \<Longrightarrow> n < 2 ^ 32 \<Longrightarrow> n AND 0xffffffff = (n :: int)"
  unfolding numeral_mask by (simp only: take_bit_eq_mask[symmetric] take_bit_int_eq_self)

lemma fold_upd_other:
  "\<forall>(k, w) \<in> set es. f w \<noteq> n \<Longrightarrow> fold (\<lambda>(k, w) m. m(f w \<mapsto> k)) es m n = m n"
  by (induction es arbitrary: m) auto

lemma fold_upd_unique:
  "\<forall>(k, w) \<in> set es. f w = n \<longrightarrow> k = s \<Longrightarrow> (s, w0) \<in> set es \<Longrightarrow> f w0 = n \<Longrightarrow>
   fold (\<lambda>(k, w) m. m(f w \<mapsto> k)) es m n = Some s"
proof (induction es arbitrary: m w0)
  case (Cons e es)
  show ?case
  proof (cases "\<exists>w. (s, w) \<in> set es \<and> f w = n")
    case True
    then obtain w where "(s, w) \<in> set es" "f w = n" by blast
    then have "\<And>m. fold (\<lambda>(k, w) m. m(f w \<mapsto> k)) es m n = Some s"
      using Cons.IH Cons.prems(1) by (simp del: fun_upd_apply)
    then show ?thesis by (simp del: fun_upd_apply)
  next
    case False
    then have "e = (s, w0)" using Cons.prems by auto
    moreover have "\<forall>(k, w) \<in> set es. f w \<noteq> n" using False Cons.prems(1) by auto
    ultimately show ?thesis using Cons.prems(3) by (simp add: fold_upd_other fun_upd_same del: fun_upd_apply)
  qed
qed simp

lemma Reverse_enums_unique:
  assumes "map_of enums s = Some (EnumInt n)" and "\<forall>(k, w) \<in> set enums. enum_int w = n \<longrightarrow> k = s"
  shows "Reverse_enums enums n = Some s"
  unfolding Reverse_enums_def
  using fold_upd_unique[of enums enum_int n s "EnumInt n" Map.empty] assms(2) map_of_SomeD[OF assms(1)] by simp

lemma string_Encode_parse:
  "string_Parse (pre @ string_Encode v @ post) (length pre) = Inr (v, length pre + length (string_Encode v))"
  by (simp add: string_Parse_def string_Encode_def go_index_def nth_append)

lemma fits_int:
  assumes "Is_int t" and "fits t (VInt n)"
  shows "pt_Encode t (VInt n) = Inr (uint32_Encode n)"
    and "pt_Parse t (pre @ uint32_Encode n @ post) (length pre) = Inr (VInt n, length pre + length (uint32_Encode n))"
proof -
  show "pt_Encode t (VInt n) = Inr (uint32_Encode n)" using assms by (cases t) simp_all
  have "in_vlq n" using assms by (cases t) (simp_all add: in_vlq_def)
  note p = uint32_Encode_parse[OF this]
  show "pt_Parse t (pre @ uint32_Encode n @ post) (length pre) = Inr (VInt n, length pre + length (uint32_Encode n))"
    using assms by (cases t) (simp_all add: p mask32[simplified])
qed

lemma pt_roundtrip:
  assumes "fits t v"
  shows "\<exists>bs. pt_Encode t v = Inr bs \<and>
           (\<forall>pre post. pt_Parse t (pre @ bs @ post) (length pre) = Inr (v, length pre + length bs))"
proof (cases "\<exists>u name enums. t = Enumeration u name enums")
  case True
  then obtain u name enums where t: "t = Enumeration u name enums" by blast
  obtain s n where v: "v = VStr s" "map_of enums s = Some (EnumInt n)" "Is_int u" "fits u (VInt n)"
    "\<forall>(k, w) \<in> set enums. enum_int w = n \<longrightarrow> k = s"
    using assms unfolding t by (auto split: pvalue.splits option.splits enum_value.splits)
  show ?thesis
    unfolding t v(1) using fits_int[OF v(3,4)] Reverse_enums_unique[OF v(2,5)]
    by (intro exI[of _ "uint32_Encode n"]) (simp add: v(2))
next
  case False
  show ?thesis
  proof (cases v)
    case (VInt n)
    then have "Is_int t" using assms False by (cases t) auto
    then show ?thesis using assms fits_int[of t n] VInt by auto
  next
    case (VBytes b)
    then have "t \<in> {PT_string, PT_progmem_buffer, PT_buffer}" using assms False by (cases t) auto
    then show ?thesis unfolding VBytes by (intro exI[of _ "string_Encode b"]) (auto simp: string_Encode_parse)
  qed (use assms False in \<open>cases t; auto\<close>)+
qed

definition params_fit :: "(string \<times> pt option) list \<Rightarrow> (string \<rightharpoonup> pvalue) \<Rightarrow> bool" where
  "params_fit ps params \<longleftrightarrow>
     (\<forall>(name, t) \<in> set ps. case (t, params name) of (Some t, Some v) \<Rightarrow> fits t v | _ \<Rightarrow> False)"

lemma params_roundtrip:
  assumes "params_fit ps params"
  shows "\<exists>bs. encode_named ps params = Inr bs \<and>
           (\<forall>pre post out. parse_params ps (pre @ bs @ post) (length pre) out =
              Inr (out ++ (params |` (fst ` set ps)), length pre + length bs))"
  using assms
proof (induction ps)
  case Nil
  then show ?case by simp
next
  case (Cons p ps)
  obtain name t v where p: "p = (name, Some t)" and v: "params name = Some v" "fits t v"
    using Cons.prems by (cases p) (auto simp: params_fit_def split: option.splits)
  obtain a where a: "pt_Encode t v = Inr a"
    "\<And>pre post. pt_Parse t (pre @ a @ post) (length pre) = Inr (v, length pre + length a)"
    using pt_roundtrip[OF v(2)] by blast
  obtain b where b: "encode_named ps params = Inr b"
    "\<And>pre post out. parse_params ps (pre @ b @ post) (length pre) out =
       Inr (out ++ (params |` (fst ` set ps)), length pre + length b)"
    using Cons by (auto simp: params_fit_def)
  have m: "out(name \<mapsto> v) ++ (params |` (fst ` set ps)) = out ++ (params |` insert name (fst ` set ps))" for out
    using v(1) by (auto simp: map_add_def restrict_map_def fun_eq_iff split: option.splits)
  have "parse_params (p # ps) (pre @ (a @ b) @ post) (length pre) out =
      Inr (out ++ (params |` (fst ` set (p # ps))), length pre + length (a @ b))" for pre post out
    using a(2)[of pre "b @ post"] b(2)[of "pre @ a" post "out(name \<mapsto> v)"] by (simp add: p m)
  then show ?case using a(1) b(1) v(1) by (intro exI[of _ "a @ b"]) (simp add: p)
qed


lemma encode_positional:
  assumes "params_fit ps params" and "\<forall>(name, t) \<in> set ps. \<forall>u. t = Some u \<longrightarrow> Is_int u \<or> Is_dynamic_string u"
  shows "encode_params (map snd ps) (map (\<lambda>(name, t). the (params name)) ps) = encode_named ps params"
  using assms
proof (induction ps)
  case (Cons p ps)
  obtain name t v where p: "p = (name, Some t)" and v: "params name = Some v" "fits t v"
    using Cons.prems by (cases p) (auto simp: params_fit_def split: option.splits)
  have "\<not> (\<exists>s. v = VStr s)" "v \<noteq> VNil"
    using v(2) Cons.prems(2) unfolding p by (cases t; auto split: pvalue.splits)+
  then have "(case v of VInt _ \<Rightarrow> pt_Encode t v | VBytes _ \<Rightarrow> pt_Encode t v | _ \<Rightarrow> Inr []) = pt_Encode t v"
    by (cases v) auto
  then show ?case using Cons v by (simp add: p params_fit_def)
qed simp

text \<open>The parsers the program can have: a new one, and one after every dictionary it has processed.\<close>

inductive parser_reach :: "MessageParser \<Rightarrow> bool" where
  new: "NewMessageParser = Inr mp \<Longrightarrow> parser_reach mp"
| identify: "parser_reach mp \<Longrightarrow> Process_identify data mp = Inr mp' \<Longrightarrow> parser_reach mp'"

definition ids_encoded :: "MessageParser \<Rightarrow> bool" where
  "ids_encoded mp \<longleftrightarrow>
     (\<forall>msgid mf. Messages_by_id mp msgid = Some (MsgFmt mf) \<longrightarrow> msgid_bytes mf = uint32_Encode msgid)"

lemma init_message_ids:
  "init_message cs os m mp = Inr mp' \<Longrightarrow> ids_encoded mp \<Longrightarrow> ids_encoded mp'"
  by (auto simp: init_message_def ids_encoded_def NewMessageFormat_def Let_def go_results
      split: prod.splits if_splits)

lemma fold_result_invariant:
  "fold_result f xs s = Inr s' \<Longrightarrow> (\<And>x s s'. f x s = Inr s' \<Longrightarrow> P s \<Longrightarrow> P s') \<Longrightarrow> P s \<Longrightarrow> P s'"
  by (induction f xs s rule: fold_result.induct) (auto simp: go_results)

lemma Init_messages_ids:
  "Init_messages ms cs os mp = Inr mp' \<Longrightarrow> ids_encoded mp \<Longrightarrow> ids_encoded mp'"
  unfolding Init_messages_def by (rule fold_result_invariant[where P = ids_encoded]) (auto intro: init_message_ids)

lemma bindR_E:
  assumes "bindR r f = Inr y"
  obtains x where "r = Inr x" and "f x = Inr y"
  using assms by (auto simp: go_results)

lemma Process_identify_inits:
  assumes "Process_identify data mp = Inr mp'"
  shows "\<exists>ms cs enums mp1. Init_messages ms cs [] (mp\<lparr>Enumerations := enums\<rparr>) = Inr mp1 \<and>
           Messages_by_id mp' = Messages_by_id mp1"
  using assms unfolding Process_identify_def
proof (elim bindR_E)
  fix enums cs rs mp1 cfg ver builds
  assume i: "Init_messages (fold (\<lambda>(k, v). upsert k v) (cs @ rs) []) (map snd cs) [] (mp\<lparr>Enumerations := enums\<rparr>) = Inr mp1"
    and e: "Inr (mp1\<lparr>Config := fold (\<lambda>(k, v). upsert k v) cfg (Config mp1), Version := ver, Build_versions := builds\<rparr>) = Inr mp'"
  have "Messages_by_id mp' = Messages_by_id mp1" using e by auto
  with i show ?thesis by blast
qed

lemma parser_reach_ids: "parser_reach mp \<Longrightarrow> ids_encoded mp"
proof (induction rule: parser_reach.induct)
  case (new mp)
  then show ?case
    unfolding NewMessageParser_def
    by (rule Init_messages_ids) (simp add: ids_encoded_def empty_parser_def)
next
  case (identify mp data mp')
  obtain ms cs enums mp1 where i: "Init_messages ms cs [] (mp\<lparr>Enumerations := enums\<rparr>) = Inr mp1"
    and mp': "Messages_by_id mp' = Messages_by_id mp1"
    using Process_identify_inits[OF identify.hyps(2)] by blast
  have "ids_encoded (mp\<lparr>Enumerations := enums\<rparr>)" using identify.IH by (simp add: ids_encoded_def)
  then have "ids_encoded mp1" by (rule Init_messages_ids[OF i])
  then show ?case by (simp add: ids_encoded_def mp')
qed

lemma Encode_msgblock_unfold:
  "Encode_msgblock seq cmd =
     [int (MESSAGE_MIN + length cmd), (seq AND MESSAGE_SEQ_MASK) OR MESSAGE_DEST] @ cmd @
     Crc16_ccitt (int (MESSAGE_MIN + length cmd) # ((seq AND MESSAGE_SEQ_MASK) OR MESSAGE_DEST) # cmd) @ [MESSAGE_SYNC]"
  by (simp add: Encode_msgblock_def Let_def)

lemma length_Crc16 [simp]: "length (Crc16_ccitt buf) = 2"
  by (simp add: Crc16_ccitt_def Let_def)

lemma length_Encode_msgblock [simp]: "length (Encode_msgblock seq cmd) = MESSAGE_MIN + length cmd"
  by (simp add: Encode_msgblock_unfold MESSAGE_MIN_def)

lemma block_roundtrip:
  assumes id: "Messages_by_id mp msgid = Some (MsgFmt mf)" "msgid_bytes mf = uint32_Encode msgid" "in_vlq msgid"
    and p: "params_fit (Param_names mf) params" "dom params = fst ` set (Param_names mf)"
  shows "\<exists>cmd. Encode_by_name mf params = Inr cmd \<and>
           mp_Parse mp (Encode_msgblock seq cmd) = Inr (params(''#name'' \<mapsto> VStr (Name mf)))"
proof -
  obtain bs where bs: "encode_named (Param_names mf) params = Inr bs"
    "\<And>pre post out. parse_params (Param_names mf) (pre @ bs @ post) (length pre) out =
       Inr (out ++ (params |` (fst ` set (Param_names mf))), length pre + length bs)"
    using params_roundtrip[OF p(1)] by blast
  define cmd where "cmd = msgid_bytes mf @ bs"
  define hdr where "hdr = [int (MESSAGE_MIN + length cmd), (seq AND MESSAGE_SEQ_MASK) OR MESSAGE_DEST]"
  define trl where "trl = Crc16_ccitt (hdr @ cmd) @ [MESSAGE_SYNC]"
  have blk: "Encode_msgblock seq cmd = hdr @ uint32_Encode msgid @ bs @ trl"
    by (simp add: Encode_msgblock_unfold hdr_def trl_def cmd_def id(2))
  have hl: "MESSAGE_HEADER_SIZE = length hdr" by (simp add: hdr_def MESSAGE_HEADER_SIZE_def)
  have len: "int (length (Encode_msgblock seq cmd)) - int MESSAGE_TRAILER_SIZE = int (length hdr + length (uint32_Encode msgid) + length bs)"
    unfolding blk by (simp add: trl_def MESSAGE_TRAILER_SIZE_def)
  have all: "params |` dom params = params" by (auto simp: restrict_map_def fun_eq_iff domIff)
  have "mf_Parse mf (Encode_msgblock seq cmd) MESSAGE_HEADER_SIZE =
      Inr (params, length hdr + length (uint32_Encode msgid) + length bs)"
    using bs(2)[of "hdr @ uint32_Encode msgid" trl Map.empty]
    by (simp add: mf_Parse_def blk id(2) hl p(2)[symmetric] all)
  moreover have "int_Parse True (Encode_msgblock seq cmd) MESSAGE_HEADER_SIZE = Inr (msgid, length hdr + length (uint32_Encode msgid))"
    unfolding blk hl using uint32_Encode_parse[OF id(3)] by simp
  ultimately have "mp_Parse mp (Encode_msgblock seq cmd) = Inr (params(''#name'' \<mapsto> VStr (Name mf)))"
    using len by (simp add: mp_Parse_def id(1))
  moreover have "Encode_by_name mf params = Inr cmd" by (simp add: Encode_by_name_def bs(1) cmd_def)
  ultimately show ?thesis by blast
qed

section \<open>Blocks\<close>

lemma xor_cancel:
  fixes a b c :: int
  shows "a XOR c = b XOR c \<longleftrightarrow> a = b" and "c XOR a = c XOR b \<longleftrightarrow> a = b"
  by (metis xor.assoc xor_self_eq xor.right_neutral, metis xor.assoc xor_self_eq xor.left_neutral)

definition is_byte :: "int \<Rightarrow> bool" where
  "is_byte b \<longleftrightarrow> 0 \<le> b \<and> b < 256"

text \<open>The high byte of a CRC step determines the byte that was mixed in.\<close>

definition crc_high :: "int \<Rightarrow> int" where
  "crc_high x = (let y = x XOR lsh (x AND 0x0f) 4 in y XOR drop_bit 5 y)"

lemma crc_high_inj:
  assumes "is_byte x" and "is_byte x'" and "crc_high x = crc_high x'"
  shows "x = x'"
proof -
  have "\<forall>x \<in> set [0..255]. (let z = crc_high x; y = z XOR drop_bit 5 z in y XOR lsh (y AND 0x0f) 4) = x"
    by code_simp
  moreover have "x \<in> set [0..255]" "x' \<in> set [0..255]"
    using assms(1,2) unfolding set_upto atLeastAtMost_iff is_byte_def by auto
  ultimately show ?thesis using assms(3) by metis
qed

lemma byte_xor:
  assumes "is_byte d"
  shows "is_byte (d XOR (c AND 0xff))"
proof -
  have "c AND 0xff < 2 ^ 8" using AND_upper2''[of "0xff" "2 ^ 8" c] by simp
  then show ?thesis
    using assms XOR_upper[of d 8 "c AND 0xff"] by (simp add: is_byte_def)
qed

lemma byte_mix:
  assumes "is_byte x"
  shows "is_byte (x XOR lsh (x AND 0x0f) 4)"
proof -
  have "lsh (x AND 0x0f) 4 < 2 ^ 8" using AND_upper2''[of "0x0f" "0x10" x] by (simp add: lsh_def)
  moreover have "0 \<le> lsh (x AND 0x0f) 4" by (simp add: lsh_def)
  ultimately show ?thesis
    using assms XOR_upper[of x 8 "lsh (x AND 0x0f) 4"] by (simp add: is_byte_def)
qed

definition is_crc :: "int \<Rightarrow> bool" where
  "is_crc c \<longleftrightarrow> 0 \<le> c \<and> c < 2 ^ 16"

lemma crc_high_byte:
  assumes "is_crc c"
  shows "0 \<le> drop_bit 8 c" and "drop_bit 8 c < 256"
proof -
  have "0 \<le> c" "c \<le> 65535" using assms by (simp_all add: is_crc_def)
  then have "0 \<le> c div 256" "c div 256 < 256" using zdiv_mono1[of c 65535 256] by (simp_all add: pos_imp_zdiv_nonneg_iff)
  then show "0 \<le> drop_bit 8 c" and "drop_bit 8 c < 256" by (simp_all add: drop_bit_eq_div)
qed

lemma crc_step_range:
  assumes "is_byte d" and "is_crc c"
  shows "is_crc (crc_step d c)"
proof -
  define y where "y = (d XOR (c AND 0xff)) XOR lsh ((d XOR (c AND 0xff)) AND 0x0f) 4"
  have y: "0 \<le> y" "y < 256"
    using byte_mix[OF byte_xor[OF assms(1), of c]] by (simp_all add: y_def is_byte_def)
  have "drop_bit 8 c < 2 ^ 16" "0 \<le> drop_bit 8 c" using crc_high_byte[OF assms(2)] by simp_all
  then have a: "lsh y 8 OR drop_bit 8 c < 2 ^ 16" "0 \<le> lsh y 8 OR drop_bit 8 c"
    using OR_upper[of "lsh y 8" 16 "drop_bit 8 c"] y by (simp_all add: lsh_def)
  have b: "drop_bit 4 y < 2 ^ 16" "0 \<le> drop_bit 4 y" "lsh y 3 < 2 ^ 16" "0 \<le> lsh y 3"
    using y by (simp_all add: drop_bit_eq_div lsh_def)
  have "drop_bit 4 y XOR lsh y 3 < 2 ^ 16" "0 \<le> drop_bit 4 y XOR lsh y 3"
    using XOR_upper[of "drop_bit 4 y" 16 "lsh y 3"] b by simp_all
  then have "(lsh y 8 OR drop_bit 8 c) XOR (drop_bit 4 y XOR lsh y 3) < 2 ^ 16"
    "0 \<le> (lsh y 8 OR drop_bit 8 c) XOR (drop_bit 4 y XOR lsh y 3)"
    using XOR_upper[of "lsh y 8 OR drop_bit 8 c" 16 "drop_bit 4 y XOR lsh y 3"] a by simp_all
  then show ?thesis by (simp add: is_crc_def crc_step_def Let_def y_def)
qed

lemma crc_step_high:
  assumes "is_byte d" and "is_crc c"
  shows "drop_bit 8 (crc_step d c) = crc_high (d XOR (c AND 0xff))"
proof -
  define y where "y = (d XOR (c AND 0xff)) XOR lsh ((d XOR (c AND 0xff)) AND 0x0f) 4"
  have y: "0 \<le> y" "y < 256"
    using byte_mix[OF byte_xor[OF assms(1), of c]] by (simp_all add: y_def is_byte_def)
  have z: "drop_bit 8 (drop_bit 8 c) = 0" "drop_bit 8 (drop_bit 4 y) = 0"
    using assms(2) y by (simp_all add: is_crc_def drop_bit_eq_div zdiv_zmult2_eq[symmetric])
  have l: "drop_bit 8 (lsh y 8) = y" "drop_bit 8 (lsh y 3) = drop_bit 5 y"
    using drop_bit_push_bit[of 8 3 y] drop_bit_push_bit[of 8 8 y] by (simp_all add: lsh_push_bit)
  have "crc_step d c = (lsh y 8 OR drop_bit 8 c) XOR drop_bit 4 y XOR lsh y 3"
    by (simp add: crc_step_def Let_def y_def)
  moreover have "crc_high (d XOR (c AND 0xff)) = y XOR drop_bit 5 y" by (simp add: crc_high_def Let_def y_def)
  ultimately show ?thesis by (simp only: drop_bit_xor drop_bit_or l z) simp
qed

lemma crc_step_inj:
  assumes "is_byte d" "is_byte d'" "is_crc c" "is_crc c'" and eq: "crc_step d c = crc_step d' c'"
  shows "d XOR (c AND 0xff) = d' XOR (c' AND 0xff)" and "drop_bit 8 c = drop_bit 8 c'"
proof -
  show x: "d XOR (c AND 0xff) = d' XOR (c' AND 0xff)"
    by (rule crc_high_inj[OF byte_xor[OF assms(1)] byte_xor[OF assms(2)]])
      (simp only: crc_step_high[OF assms(1,3), symmetric] crc_step_high[OF assms(2,4), symmetric] eq)
  define y where "y = (d XOR (c AND 0xff)) XOR lsh ((d XOR (c AND 0xff)) AND 0x0f) 4"
  have "(lsh y 8 OR drop_bit 8 c) XOR drop_bit 4 y XOR lsh y 3 = (lsh y 8 OR drop_bit 8 c') XOR drop_bit 4 y XOR lsh y 3"
    using eq unfolding crc_step_def Let_def y_def x by simp
  then have "take_bit 8 (lsh y 8 OR drop_bit 8 c) = take_bit 8 (lsh y 8 OR drop_bit 8 c')"
    by (simp only: xor_cancel)
  moreover have "take_bit 8 (lsh y 8 OR drop_bit 8 c) = drop_bit 8 c" if "is_crc c" for c
    using crc_high_byte[OF that] by (simp add: take_bit_or lsh_push_bit take_bit_push_bit take_bit_int_eq_self_iff)
  note t = this
  ultimately show "drop_bit 8 c = drop_bit 8 c'" by (simp only: t[OF assms(3)] t[OF assms(4)])
qed

lemma crc_step_inj_crc:
  assumes "is_byte d" "is_crc c" "is_crc c'" "crc_step d c = crc_step d c'"
  shows "c = c'"
proof -
  note i = crc_step_inj[OF assms(1,1,2,3,4)]
  have "c AND 0xff = c' AND 0xff"
    using i(1) by (simp only: xor_cancel)
  then have "take_bit 8 c = take_bit 8 c'" unfolding numeral_mask by (simp only: take_bit_eq_mask)
  then show ?thesis using i(2) by (metis bits_ident)
qed

lemma crc_fold_range:
  "\<forall>b \<in> set buf. is_byte b \<Longrightarrow> is_crc c \<Longrightarrow> is_crc (fold crc_step buf c)"
  by (induction buf arbitrary: c) (simp_all add: crc_step_range)

lemma crc_fold_inj:
  "\<forall>b \<in> set buf. is_byte b \<Longrightarrow> is_crc c \<Longrightarrow> is_crc c' \<Longrightarrow> fold crc_step buf c = fold crc_step buf c' \<Longrightarrow> c = c'"
proof (induction buf arbitrary: c c')
  case (Cons b buf)
  then have "crc_step b c = crc_step b c'" using Cons.IH[of "crc_step b c" "crc_step b c'"] crc_step_range by simp
  then show ?case using Cons.prems crc_step_inj_crc[of b c c'] by simp
qed simp

lemma crc_ffff: "is_crc 0xffff"
  by (simp add: is_crc_def)

lemma Crc16_inj:
  assumes "Crc16_ccitt a = Crc16_ccitt b"
  shows "fold crc_step a 0xffff = fold crc_step b 0xffff"
proof -
  have "drop_bit 8 (fold crc_step a 0xffff) = drop_bit 8 (fold crc_step b 0xffff)"
    "fold crc_step a 0xffff AND 0xff = fold crc_step b 0xffff AND 0xff"
    using assms by (simp_all add: Crc16_ccitt_def Let_def)
  then have "take_bit 8 (fold crc_step a 0xffff) = take_bit 8 (fold crc_step b 0xffff)"
    unfolding numeral_mask by (simp only: take_bit_eq_mask)
  then show ?thesis using \<open>drop_bit 8 _ = _\<close> by (metis bits_ident)
qed

lemma Crc16_one_byte:
  assumes "\<forall>b \<in> set (xs @ b # ys). is_byte b" and "is_byte b'" and "b \<noteq> b'"
  shows "Crc16_ccitt (xs @ b # ys) \<noteq> Crc16_ccitt (xs @ b' # ys)"
proof
  assume "Crc16_ccitt (xs @ b # ys) = Crc16_ccitt (xs @ b' # ys)"
  from Crc16_inj[OF this]
  have e: "fold crc_step ys (crc_step b (fold crc_step xs 0xffff)) = fold crc_step ys (crc_step b' (fold crc_step xs 0xffff))"
    by simp
  have c: "is_crc (fold crc_step xs 0xffff)" using assms(1) crc_ffff by (intro crc_fold_range) auto
  have "crc_step b (fold crc_step xs 0xffff) = crc_step b' (fold crc_step xs 0xffff)"
    by (rule crc_fold_inj[OF _ _ _ e]) (use assms c in \<open>simp_all add: crc_step_range\<close>)
  from crc_step_inj(1)[OF _ assms(2) c c this] have "b = b'"
    using assms(1) by (simp add: xor_cancel)
  with assms(3) show False ..
qed

text \<open>What the check says of anything that has the shape of a block.\<close>

definition block_header :: "nat \<Rightarrow> int \<Rightarrow> int list" where
  "block_header n seq = [int (MESSAGE_MIN + n), (seq AND MESSAGE_SEQ_MASK) OR MESSAGE_DEST]"

lemma Encode_msgblock_parts:
  "Encode_msgblock seq cmd =
     block_header (length cmd) seq @ cmd @ Crc16_ccitt (block_header (length cmd) seq @ cmd) @ [MESSAGE_SYNC]"
  by (simp add: Encode_msgblock_def block_header_def Let_def)

lemma seq_byte:
  "((seq AND MESSAGE_SEQ_MASK) OR MESSAGE_DEST) AND NOT MESSAGE_SEQ_MASK = MESSAGE_DEST"
  "x AND NOT MESSAGE_SEQ_MASK = MESSAGE_DEST \<Longrightarrow> (x AND MESSAGE_SEQ_MASK) OR MESSAGE_DEST = x"
proof -
  have "(MESSAGE_SEQ_MASK AND NOT MESSAGE_SEQ_MASK) = 0" "MESSAGE_DEST AND NOT MESSAGE_SEQ_MASK = MESSAGE_DEST"
    by (simp_all add: MESSAGE_SEQ_MASK_def MESSAGE_DEST_def)
  then show "((seq AND MESSAGE_SEQ_MASK) OR MESSAGE_DEST) AND NOT MESSAGE_SEQ_MASK = MESSAGE_DEST"
    by (simp add: bit.conj_disj_distrib2 and.assoc)
  assume x: "x AND NOT MESSAGE_SEQ_MASK = MESSAGE_DEST"
  have "(x AND MESSAGE_SEQ_MASK) OR (x AND NOT MESSAGE_SEQ_MASK) = x"
    by (rule bit_eqI) (auto simp: bit_and_iff bit_or_iff bit_not_iff)
  then show "(x AND MESSAGE_SEQ_MASK) OR MESSAGE_DEST = x" by (simp only: x)
qed

lemma Check_packet_shape:
  assumes "length cmd \<le> 59" and "length crc = 2"
  shows "Check_packet (block_header (length cmd) seq @ cmd @ crc @ [MESSAGE_SYNC] @ rest) =
           (if Crc16_ccitt (block_header (length cmd) seq @ cmd) = crc then int (MESSAGE_MIN + length cmd) else -1)"
proof -
  define s where "s = block_header (length cmd) seq @ cmd @ crc @ [MESSAGE_SYNC] @ rest"
  have "s ! 0 = int (MESSAGE_MIN + length cmd)" "s ! 1 = (seq AND MESSAGE_SEQ_MASK) OR MESSAGE_DEST"
    "length s = MESSAGE_MIN + length cmd + length rest"
    using assms by (simp_all add: s_def block_header_def MESSAGE_MIN_def)
  moreover have "s ! (4 + length cmd) = MESSAGE_SYNC"
    using assms nth_append_length_plus[of "block_header (length cmd) seq @ cmd @ crc" "MESSAGE_SYNC # rest" 0]
    by (simp add: s_def block_header_def nth_append)
  moreover have "take (2 + length cmd) s = block_header (length cmd) seq @ cmd" "take 2 (drop (2 + length cmd) s) = crc"
    using assms by (simp_all add: s_def block_header_def)
  ultimately have "Check_packet s = (if Crc16_ccitt (block_header (length cmd) seq @ cmd) = crc then int (MESSAGE_MIN + length cmd) else -1)"
    using assms by (simp add: Check_packet_def seq_byte MESSAGE_MIN_def MESSAGE_MAX_def MESSAGE_TRAILER_SIZE_def Let_def nat_add_distrib)
  then show ?thesis unfolding s_def .
qed

lemma Check_packet_block:
  "length cmd \<le> 59 \<Longrightarrow> Check_packet (Encode_msgblock seq cmd @ rest) = int (length (Encode_msgblock seq cmd))"
  using Check_packet_shape[of cmd "Crc16_ccitt (block_header (length cmd) seq @ cmd)" seq rest]
  by (simp add: Encode_msgblock_parts block_header_def MESSAGE_MIN_def)

lemma Check_packet_accepts:
  assumes "0 < Check_packet s"
  shows "\<exists>seq cmd rest. length cmd \<le> 59 \<and> s = Encode_msgblock seq cmd @ rest"
proof -
  define m where "m = nat (s ! 0)"
  have l: "5 \<le> length s" and r: "5 \<le> s ! 0" "s ! 0 \<le> 64" and q: "s ! 1 AND NOT MESSAGE_SEQ_MASK = MESSAGE_DEST"
    and n: "s ! 0 \<le> int (length s)" and y: "s ! nat (s ! 0 - 1) = MESSAGE_SYNC"
    and c: "Crc16_ccitt (take (m - 3) s) = take 2 (drop (m - 3) s)"
    using assms unfolding Check_packet_def Let_def MESSAGE_MIN_def MESSAGE_MAX_def MESSAGE_TRAILER_SIZE_def m_def
    by (simp_all split: if_splits)
  have m: "5 \<le> m" "m \<le> 64" "m \<le> length s" "int m = s ! 0" using r n by (simp_all add: m_def)
  define cmd where "cmd = take (m - 5) (drop 2 s)"
  have lc: "length cmd = m - 5" using m by (simp add: cmd_def)
  have "take 2 s = [s ! 0, s ! 1]"
    using l by (cases s; cases "tl s") auto
  then have h: "take 2 s = block_header (length cmd) (s ! 1)"
    using m by (simp add: block_header_def seq_byte(2)[OF q, simplified] lc MESSAGE_MIN_def)
  have p: "take (m - 3) s = block_header (length cmd) (s ! 1) @ cmd"
  proof -
    have "take (2 + (m - 5)) s = take 2 s @ take (m - 5) (drop 2 s)" by (rule take_add)
    moreover have "2 + (m - 5) = m - 3" using m(1) by simp
    ultimately show ?thesis by (simp only: h cmd_def)
  qed
  have e: "drop (m - 3) s = take 2 (drop (m - 3) s) @ MESSAGE_SYNC # drop m s"
  proof -
    have "s ! (m - 1) = MESSAGE_SYNC" using y m by (simp add: m_def nat_diff_distrib)
    then have "drop (m - 1) s = MESSAGE_SYNC # drop m s" using m Cons_nth_drop_Suc[of "m - 1" s] by simp
    moreover have "drop 2 (drop (m - 3) s) = drop (m - 1) s" 
    proof -
      have "2 + (m - 3) = m - 1" using m(1) by simp
      then show ?thesis by (simp only: drop_drop)
    qed
    ultimately show ?thesis by (metis append_take_drop_id)
  qed
  have "s = take (m - 3) s @ drop (m - 3) s" by simp
  also have "\<dots> = Encode_msgblock (s ! 1) cmd @ drop m s"
    using c unfolding p by (subst e) (simp add: Encode_msgblock_parts)
  finally have "s = Encode_msgblock (s ! 1) cmd @ drop m s" .
  moreover have "length cmd \<le> 59" using lc m(2) by simp
  ultimately show ?thesis by blast
qed

lemma Check_packet_prefix:
  assumes "length cmd \<le> 59" and "k < length (Encode_msgblock seq cmd)"
  shows "Check_packet (take k (Encode_msgblock seq cmd)) = 0"
proof (cases "k < 5")
  case True
  then show ?thesis by (simp add: Check_packet_def MESSAGE_MIN_def)
next
  case False
  then have "take k (Encode_msgblock seq cmd) ! 0 = int (5 + length cmd)"
    "take k (Encode_msgblock seq cmd) ! 1 = (seq AND MESSAGE_SEQ_MASK) OR MESSAGE_DEST"
    by (simp_all add: Encode_msgblock_parts block_header_def MESSAGE_MIN_def)
  then show ?thesis
    using False assms by (simp add: Check_packet_def seq_byte MESSAGE_MIN_def MESSAGE_MAX_def Let_def)
qed

lemma Check_packet_corrupted:
  assumes cmd: "length cmd \<le> 59" "\<forall>b \<in> set cmd. is_byte b" and i: "i < length cmd" and b: "is_byte b" "b \<noteq> cmd ! i"
  shows "Check_packet ((Encode_msgblock seq cmd)[i + 2 := b] @ rest) = -1"
proof -
  let ?h = "block_header (length cmd) seq"
  have split: "cmd = take i cmd @ cmd ! i # drop (Suc i) cmd" by (rule id_take_nth_drop[OF i])
  have upd: "cmd[i := b] = take i cmd @ b # drop (Suc i) cmd" by (rule upd_conv_take_nth_drop[OF i])
  have "seq AND MESSAGE_SEQ_MASK < 2 ^ 8" "0 \<le> seq AND MESSAGE_SEQ_MASK"
    using AND_upper2''[of "0x0f" "2 ^ 8" seq] by (simp_all add: MESSAGE_SEQ_MASK_def)
  then have "is_byte ((seq AND MESSAGE_SEQ_MASK) OR MESSAGE_DEST)"
    using OR_upper[of "seq AND MESSAGE_SEQ_MASK" 8 MESSAGE_DEST] by (simp add: is_byte_def MESSAGE_DEST_def)
  then have h: "\<forall>b \<in> set ?h. is_byte b" using cmd(1) by (simp add: block_header_def is_byte_def MESSAGE_MIN_def)
  have "\<forall>b \<in> set (?h @ cmd). is_byte b" using h cmd(2) by auto
  then have "\<forall>b \<in> set ((?h @ take i cmd) @ cmd ! i # drop (Suc i) cmd). is_byte b"
    by (simp only: append_assoc split[symmetric])
  from Crc16_one_byte[OF this b(1)] b(2)
  have "Crc16_ccitt (?h @ cmd[i := b]) \<noteq> Crc16_ccitt (?h @ cmd)"
    unfolding append_assoc split[symmetric] upd by auto
  moreover have "(Encode_msgblock seq cmd)[i + 2 := b] = ?h @ cmd[i := b] @ Crc16_ccitt (?h @ cmd) @ [MESSAGE_SYNC]"
    using i by (simp add: Encode_msgblock_parts block_header_def list_update_append)
  ultimately show ?thesis
    using Check_packet_shape[of "cmd[i := b]" "Crc16_ccitt (?h @ cmd)" seq rest] cmd(1) by simp
qed

text \<open>
  C38: every message survives the wire.  For a parser the program can have, a message format it
  knows by its identifier and parameters that fit the format's types, the command built from them
  by name, put in a block, is parsed to exactly these parameters and the name of the message; a
  block of at most 59 bytes of payload passes the check of packets, whatever follows it; and
  encoding by position gives the same bytes when the format has no enumeration.
\<close>

theorem message_roundtrip:
  assumes "parser_reach mp" and "Messages_by_id mp msgid = Some (MsgFmt mf)"
    and "- (2 ^ 31) \<le> msgid" and "msgid < 2 ^ 31"
    and "params_fit (Param_names mf) params" and "dom params = fst ` set (Param_names mf)"
  shows "\<exists>cmd. Encode_by_name mf params = Inr cmd \<and>
           mp_Parse mp (Encode_msgblock seq cmd) = Inr (params(''#name'' \<mapsto> VStr (Name mf))) \<and>
           (length cmd \<le> 59 \<longrightarrow> Check_packet (Encode_msgblock seq cmd @ rest) = int (length (Encode_msgblock seq cmd))) \<and>
           ((\<forall>(name, t) \<in> set (Param_names mf). \<forall>u. t = Some u \<longrightarrow> Is_int u \<or> Is_dynamic_string u) \<longrightarrow>
            mf_Encode mf (map (\<lambda>(name, t). the (params name)) (Param_names mf)) = Inr cmd)"
proof -
  have idb: "msgid_bytes mf = uint32_Encode msgid"
    using parser_reach_ids[OF assms(1)] assms(2) by (simp add: ids_encoded_def)
  have "in_vlq msgid" using assms(3,4) by (simp add: in_vlq_def)
  from block_roundtrip[OF assms(2) idb this assms(5,6), of seq]
  obtain cmd where cmd: "Encode_by_name mf params = Inr cmd"
    "mp_Parse mp (Encode_msgblock seq cmd) = Inr (params(''#name'' \<mapsto> VStr (Name mf)))" by blast
  have "mf_Encode mf (map (\<lambda>(name, t). the (params name)) (Param_names mf)) = Inr cmd"
    if "\<forall>(name, t) \<in> set (Param_names mf). \<forall>u. t = Some u \<longrightarrow> Is_int u \<or> Is_dynamic_string u"
    using cmd(1) encode_positional[OF assms(5) that] by (simp add: mf_Encode_def Encode_by_name_def)
  with cmd show ?thesis using Check_packet_block[of cmd seq rest] by blast
qed

theorem message_roundtrip_witness:
  "\<exists>mp mf cmd. parser_reach mp \<and> Messages_by_id mp 1 = Some (MsgFmt mf) \<and> Name mf = ''identify'' \<and>
     Encode_by_name mf [''offset'' \<mapsto> VInt 40, ''count'' \<mapsto> VInt 40] = Inr cmd \<and>
     mp_Parse mp (Encode_msgblock 5 cmd) =
       Inr ([''offset'' \<mapsto> VInt 40, ''count'' \<mapsto> VInt 40, ''#name'' \<mapsto> VStr ''identify''])"
proof -
  let ?mf = "\<lparr>msgid_bytes = [1], Msgformat = ''identify offset=%u count=%c'', Debugformat = ''identify offset=%s count=%s'',
    Name = ''identify'', Param_names = [(''offset'', Some PT_uint32), (''count'', Some PT_byte)]\<rparr>"
  let ?params = "[''offset'' \<mapsto> VInt 40, ''count'' \<mapsto> VInt 40]"
  have "case NewMessageParser of Inl _ \<Rightarrow> False | Inr mp \<Rightarrow> Messages_by_id mp 1 = Some (MsgFmt ?mf)"
    by code_simp
  then obtain mp where mp: "NewMessageParser = Inr mp" "Messages_by_id mp 1 = Some (MsgFmt ?mf)"
    by (auto split: sum.splits)
  have r: "parser_reach mp" using mp(1) by (rule parser_reach.new)
  obtain cmd where "Encode_by_name ?mf ?params = Inr cmd"
    "mp_Parse mp (Encode_msgblock 5 cmd) = Inr (?params(''#name'' \<mapsto> VStr ''identify''))"
    using message_roundtrip[OF r mp(2), of ?params 5 "[]"] by (auto simp: params_fit_def)
  with r mp(2) show ?thesis by (intro exI[of _ mp] exI[of _ ?mf] exI[of _ cmd]) simp
qed

text \<open>
  C39: the check of packets is exact.  It returns a length exactly when the input starts with an
  encoded block of at most 59 bytes of payload, and it is that block's length; every proper prefix
  of a block asks for more data and is never thrown away; and a block in which one byte of the
  payload has been changed to any other byte is rejected.
\<close>

theorem Check_packet_exact:
  assumes "length cmd \<le> 59" and "\<forall>b \<in> set cmd. is_byte b"
    and "i < length cmd" and "is_byte b" and "b \<noteq> cmd ! i" and "k < length (Encode_msgblock seq cmd)"
  shows "(0 < Check_packet s \<and> n = Check_packet s \<longleftrightarrow>
            (\<exists>seq cmd rest. length cmd \<le> 59 \<and> s = Encode_msgblock seq cmd @ rest \<and> n = int (length (Encode_msgblock seq cmd)))) \<and>
         Check_packet (take k (Encode_msgblock seq cmd)) = 0 \<and>
         Check_packet ((Encode_msgblock seq cmd)[i + 2 := b] @ rest) = -1"
proof (intro conjI)
  show "(0 < Check_packet s \<and> n = Check_packet s) =
          (\<exists>seq cmd rest. length cmd \<le> 59 \<and> s = Encode_msgblock seq cmd @ rest \<and> n = int (length (Encode_msgblock seq cmd)))"
    (is "?accepted = ?block")
  proof
    assume a: ?accepted
    then obtain seq cmd rest where c: "length cmd \<le> 59" "s = Encode_msgblock seq cmd @ rest"
      using Check_packet_accepts by blast
    then show ?block using a Check_packet_block[OF c(1)] by blast
  next
    assume ?block
    then show ?accepted using Check_packet_block by (auto simp: MESSAGE_MIN_def)
  qed
qed (use assms Check_packet_prefix Check_packet_corrupted in auto)

theorem Check_packet_exact_witness:
  "Check_packet (take 3 (Encode_msgblock 5 [1, 40, 40])) = 0 \<and>
   Check_packet ((Encode_msgblock 5 [1, 40, 40])[3 := 41] @ [7]) = -1 \<and>
   (0 < Check_packet (Encode_msgblock 5 [1, 40, 40]) \<and> 8 = Check_packet (Encode_msgblock 5 [1, 40, 40]))"
  using Check_packet_exact[of "[1, 40, 40]" 1 41 3 5 "Encode_msgblock 5 [1, 40, 40]" 8 "[7]"]
    Check_packet_block[of "[1, 40, 40]" 5 "[]"]
  by (simp add: is_byte_def MESSAGE_MIN_def numeral_3_eq_3)

text \<open>A dictionary that lists debugging output is never accepted, and a parameter type in an output format is refused.\<close>

lemma Process_identify_output: "map_of data ''output'' = Some v \<Longrightarrow> Process_identify data mp \<noteq> Inr mp'"
  by (auto simp: Process_identify_def go_results)

lemma Lookup_output_params_refuses: "Lookup_output_params ''count %u'' = Inl (GoPanic ''Invalid output format'')"
  by code_simp

end
