(* ===== verification/GCodeParse.thy ===== *)
theory GCodeParse
  imports ConfigAccess
begin

text \<open>
  From a line of G-code to a command with typed parameters (\<^verbatim>\<open>gcode/gcode_parse_helpers.go\<close>,
  \<^verbatim>\<open>gcode/command_params.go\<close> and \<^verbatim>\<open>ParseDispatchCommandLine\<close> in \<^verbatim>\<open>gcode/dispatch_runtime.go\<close>).
  Lines are ASCII.  A position in a line that a function advances is the rest of the line.
\<close>

section \<open>Tokens\<close>

definition IsDigitChar :: "char \<Rightarrow> bool" where
  "IsDigitChar c = is_digit c"

definition IsDigitString :: "string \<Rightarrow> bool" where
  "IsDigitString s = (s \<noteq> [] \<and> list_all is_digit s)"

definition IsQuote :: "char \<Rightarrow> bool" where
  "IsQuote c = (c = CHR 0x22 \<or> c = CHR 0x27)"

definition is_letter :: "char \<Rightarrow> bool" where
  "is_letter c = ((CHR ''A'' \<le> c \<and> c \<le> CHR ''Z'') \<or> (CHR ''a'' \<le> c \<and> c \<le> CHR ''z''))"

definition IsCommandValid :: "string \<Rightarrow> bool" where
  "IsCommandValid cmd =
     (if ToUpper cmd \<noteq> cmd then False
      else if \<not> list_all (\<lambda>r. is_letter r \<or> is_digit r) (ReplaceAll ''_'' ''A'' cmd) then False
      else if length cmd > 0 \<and> is_digit (cmd ! 0) then False
      else if length cmd > 1 \<and> is_digit (cmd ! 1) then False
      else True)"

definition IsValuePart :: "char \<Rightarrow> bool" where
  "IsValuePart c = (IsDigitChar c \<or> c = CHR ''.'' \<or> c = CHR ''-'')"

definition GetKey :: "string \<Rightarrow> string \<times> string" where
  "GetKey line = (takeWhile (\<lambda>c. \<not> IsValuePart c) line, dropWhile (\<lambda>c. \<not> IsValuePart c) line)"

definition GetVal :: "string \<Rightarrow> string \<times> string" where
  "GetVal line = (takeWhile IsValuePart line, dropWhile IsValuePart line)"

definition IsTraditionalGCode :: "string \<Rightarrow> bool" where
  "IsTraditionalGCode cmd =
     (if cmd = [] then False
      else let c = hd (split_char CHR '' '' (ToUpper cmd))
           in length c > 1 \<and> CHR ''A'' \<le> c ! 0 \<and> c ! 0 \<le> CHR ''Z'' \<and> is_digit (c ! 1))"

text \<open>\<open>strings.Fields\<close>.\<close>

definition Fields :: "string \<Rightarrow> string list" where
  "Fields s = filter (\<lambda>p. p \<noteq> []) (split_char CHR '' '' (map (\<lambda>c. if is_space c then CHR '' '' else c) s))"

lemma token_rest_shorter:
  assumes "part \<noteq> []"
  shows "length (snd (GetVal (snd (GetKey part)))) < length part"
proof (cases "IsValuePart (hd part)")
  case True
  then show ?thesis
    using assms by (cases part) (auto simp: GetKey_def GetVal_def le_imp_less_Suc length_dropWhile_le)
next
  case False
  then have "length (snd (GetKey part)) < length part"
    using assms by (cases part) (auto simp: GetKey_def le_imp_less_Suc length_dropWhile_le)
  moreover have "length (snd (GetVal (snd (GetKey part)))) \<le> length (snd (GetKey part))"
    by (simp add: GetVal_def length_dropWhile_le)
  ultimately show ?thesis by simp
qed

function part_tokens :: "string \<Rightarrow> string list" where
  "part_tokens part =
     (if part = [] then []
      else let (key, rest) = GetKey part; (val, rest') = GetVal rest in key # val # part_tokens rest')"
  by pat_completeness auto
termination
  by (relation "measure length") (use token_rest_shorter in \<open>auto, metis snd_conv\<close>)

declare part_tokens.simps [simp del]

definition ParseGcodeTokens :: "string \<Rightarrow> string list" where
  "ParseGcodeTokens input = [] # concat (map part_tokens (Fields input))"

definition ParseBooleanString :: "string \<Rightarrow> bool \<times> bool" where
  "ParseBooleanString state =
     (if state \<in> set [''1'', ''true'', ''on'', ''enable'', ''enabled''] then (True, True)
      else if state \<in> set [''0'', ''false'', ''off'', ''disable'', ''disabled''] then (False, True)
      else (False, False))"

section \<open>Extended parameters\<close>

definition trim_left :: "string \<Rightarrow> string" where
  "trim_left s = dropWhile (\<lambda>c. c = CHR '' '' \<or> c = CHR 9) s"

text \<open>One value: what follows it, or nothing where the loop ends.\<close>

definition read_value :: "string \<Rightarrow> (string \<times> string option) result" where
  "read_value params =
     (let c = hd params in
      if IsQuote c then
        (let body = takeWhile (\<lambda>x. x \<noteq> c) (tl params); after = dropWhile (\<lambda>x. x \<noteq> c) (tl params)
         in if after = [] then Inl (GoError ''malformed command: missing closing quote'')
            else Inr (body, if tl after \<noteq> [] then Some (trim_left (tl after)) else None))
      else
        (let value = takeWhile (\<lambda>x. x \<noteq> CHR '' '') params; after = dropWhile (\<lambda>x. x \<noteq> CHR '' '') params
         in Inr (TrimSpace value, if after = [] then None else Some (trim_left (tl after)))))"

lemma trim_left_length: "length (trim_left s) \<le> length s"
  by (simp add: trim_left_def length_dropWhile_le)

lemma tl_dropWhile_length: "s \<noteq> [] \<Longrightarrow> length (tl (dropWhile P s)) < length s"
  using length_dropWhile_le[of P s] by (cases s) (auto simp del: dropWhile.simps)

lemma read_value_shorter:
  assumes "read_value params = Inr (v, Some rest)" and "params \<noteq> []"
  shows "length rest < length params"
proof (cases "IsQuote (hd params)")
  case True
  then have "rest = trim_left (tl (dropWhile (\<lambda>x. x \<noteq> hd params) (tl params)))"
    using assms(1) by (simp add: read_value_def Let_def split: if_splits)
  then have "length rest \<le> length (tl (dropWhile (\<lambda>x. x \<noteq> hd params) (tl params)))"
    by (simp only: trim_left_length)
  also have "\<dots> \<le> length (tl params)"
    using length_dropWhile_le[of "\<lambda>x. x \<noteq> hd params" "tl params"] by simp
  finally show ?thesis using assms(2) by (cases params) simp_all
next
  case False
  then have "rest = trim_left (tl (dropWhile (\<lambda>x. x \<noteq> CHR '' '') params))"
    using assms(1) by (simp add: read_value_def Let_def split: if_splits)
  then have "length rest \<le> length (tl (dropWhile (\<lambda>x. x \<noteq> CHR '' '') params))"
    by (simp only: trim_left_length)
  then show ?thesis using tl_dropWhile_length[OF assms(2)] by (rule le_less_trans)
qed

function read_params :: "string \<Rightarrow> (string \<rightharpoonup> string) \<Rightarrow> (string \<rightharpoonup> string) result" where
  "read_params params results =
     (case dropWhile (\<lambda>c. c \<noteq> CHR ''='') params of
        [] \<Rightarrow> Inr results
      | _ # value \<Rightarrow>
          if value = [] then Inr results
          else case read_value value of
            Inl e \<Rightarrow> Inl e
          | Inr (v, rest) \<Rightarrow>
              (let results' = results(ToUpper (TrimSpace (takeWhile (\<lambda>c. c \<noteq> CHR ''='') params)) \<mapsto> v)
               in case rest of None \<Rightarrow> Inr results' | Some params' \<Rightarrow> read_params params' results'))"
  by pat_completeness auto
termination
proof (relation "measure (\<lambda>(params, results). length params)")
  fix params :: string and results results' :: "string \<rightharpoonup> string" and c w p v rest params'
  assume d: "dropWhile (\<lambda>c. c \<noteq> CHR ''='') params = c # w" and n: "w \<noteq> []"
    and r: "read_value w = Inr p" "(v, rest) = p" "rest = Some params'"
  have "length (c # w) \<le> length params" by (metis d length_dropWhile_le)
  moreover have "length params' < length w" using read_value_shorter[of w v params'] r n by simp
  ultimately show "((params', results'), params, results) \<in> measure (\<lambda>(params, results). length params)" by simp
qed simp

declare read_params.simps [simp del]

definition ParseExtendedParams :: "string \<Rightarrow> (string \<rightharpoonup> string) result" where
  "ParseExtendedParams input = read_params (TrimSpace input) Map.empty"

section \<open>Command lines\<close>

record ParsedDispatchCommand =
  OriginalLine :: string
  Command :: string
  Params :: "string \<rightharpoonup> string"

fun token_params :: "string list \<Rightarrow> (string \<rightharpoonup> string) \<Rightarrow> (string \<rightharpoonup> string)" where
  "token_params (key # value # parts) m = token_params parts (m(key \<mapsto> TrimSpace value))"
| "token_params _ m = m"

definition trim_blanks :: "string \<Rightarrow> string" where
  "trim_blanks s = rev (dropWhile (\<lambda>c. c = CHR '' '') (rev (dropWhile (\<lambda>c. c = CHR '' '') s)))"

definition ParseDispatchCommandLine :: "string \<Rightarrow> ParsedDispatchCommand" where
  "ParseDispatchCommandLine input =
     (let origline = trim_blanks input;
          line = takeWhile (\<lambda>c. c \<noteq> CHR '';'') origline;
          parts = ParseGcodeTokens (ToUpper line);
          cmd = (if length parts \<ge> 3 \<and> parts ! 1 = ''N'' then TrimSpace (concat (drop 3 parts))
                 else if length parts \<ge> 3 then TrimSpace (concat (take 3 parts)) else [])
      in \<lparr>OriginalLine = origline, Command = cmd, Params = token_params (tl parts) Map.empty\<rparr>)"

section \<open>Typed parameters\<close>

text \<open>The default of a lookup: the mark of a required parameter, nothing, or a value of the lookup's type.\<close>

datatype 'a gdefault = Required | NoDefault | Default 'a

definition lookup_default :: "string \<Rightarrow> string \<Rightarrow> 'a gdefault \<Rightarrow> 'a \<Rightarrow> 'a result" where
  "lookup_default commandline name d zero =
     (case d of Required \<Rightarrow> Inl (GoPanic (''Error on '' @ commandline @ '': missing '' @ name))
      | NoDefault \<Rightarrow> Inr zero | Default v \<Rightarrow> Inr v)"

definition param_text :: "(string \<rightharpoonup> string) \<Rightarrow> string \<Rightarrow> string" where
  "param_text params name = (case params name of None \<Rightarrow> [] | Some v \<Rightarrow> v)"

text \<open>Bounds of a plain lookup are only reported in the log.\<close>

definition Get_param :: "(string \<rightharpoonup> string) \<Rightarrow> string \<Rightarrow> string \<Rightarrow> string gdefault \<Rightarrow> string result" where
  "Get_param params commandline name d =
     (let value = param_text params name in if value = [] then lookup_default commandline name d [] else Inr value)"

definition Get_int :: "(string \<rightharpoonup> string) \<Rightarrow> string \<Rightarrow> string \<Rightarrow> int gdefault \<Rightarrow> int result" where
  "Get_int params commandline name d =
     (let value = param_text params name
      in if value = [] then lookup_default commandline name d 0 else Inr (ParseInt_value 32 value))"

definition float_value :: "string \<Rightarrow> real" where
  "float_value s = (case ParseFloat s of None \<Rightarrow> 0 | Some x \<Rightarrow> x)"

text \<open>A bound that is violated replaces the value; the result \<open>None\<close> is NaN.\<close>

definition Get_float :: "(string \<rightharpoonup> string) \<Rightarrow> string \<Rightarrow> string \<Rightarrow> real option gdefault \<Rightarrow>
    real option \<Rightarrow> real option \<Rightarrow> real option \<Rightarrow> real option \<Rightarrow> real option result" where
  "Get_float params commandline name d minval maxval above1 below1 =
     (let value = param_text params name
      in if value = [] then lookup_default commandline name d (Some 0)
         else let val = float_value value in
           if minval \<noteq> None \<and> val < the minval then Inr minval
           else if maxval \<noteq> None \<and> val > the maxval then Inr maxval
           else if above1 \<noteq> None \<and> val \<le> the above1 then Inr above1
           else if below1 \<noteq> None \<and> val \<ge> the below1 then Inr below1
           else Inr (Some val))"

definition Get_floatP :: "(string \<rightharpoonup> string) \<Rightarrow> string \<Rightarrow> real option \<Rightarrow> real option" where
  "Get_floatP params name d = (case params name of None \<Rightarrow> d | Some value \<Rightarrow> Some (float_value value))"

definition Has_param :: "(string \<rightharpoonup> string) \<Rightarrow> string \<Rightarrow> bool" where
  "Has_param params name = (params name \<noteq> None)"

fun index_of :: "string \<Rightarrow> string \<Rightarrow> nat option" where
  "index_of sub [] = (if sub = [] then Some 0 else None)"
| "index_of sub (c # s) = (if HasPrefix (c # s) sub then Some 0 else map_option Suc (index_of sub s))"

definition checksum_start :: "string \<Rightarrow> nat option" where
  "checksum_start s =
     (if CHR ''*'' \<in> set s then Some (length s - 1 - length (takeWhile (\<lambda>c. c \<noteq> CHR ''*'') (rev s))) else None)"

definition GetRawCommandParameters :: "string \<Rightarrow> string \<Rightarrow> string result" where
  "GetRawCommandParameters command origline =
     (if length command > length origline then Inl IndexOutOfRange
      else
        let direct = (ToUpper (take (length command) origline) = command);
            start = (if direct then length command
                     else case index_of command (ToUpper origline) of
                       None \<Rightarrow> length command | Some i \<Rightarrow> i + length command);
            param_end = (if direct then length origline
                     else case checksum_start origline of
                       None \<Rightarrow> length origline
                     | Some i \<Rightarrow> if IsDigitString (drop (i + 1) origline) then i else length origline);
            param_start = (if start < length origline \<and> is_space (origline ! start) then start + 1 else start)
        in Inr (if param_start \<ge> param_end then [] else drop param_start (take param_end origline)))"

section \<open>Lines the dispatcher reads\<close>

lemma ParseDispatchCommandLine_move:
  "let p = ParseDispatchCommandLine '' g1 x10.5 Y-3 F600 ; move'' in
     Command p = ''G1'' \<and> map (Params p) [''X'', ''Y'', ''F'', ''Z''] = [Some ''10.5'', Some ''-3'', Some ''600'', None]"
  by code_simp

text \<open>
  With a line number the whole rest of the line becomes the name of the command, so a numbered
  move is not dispatched as a move.
\<close>

lemma ParseDispatchCommandLine_numbered: "Command (ParseDispatchCommandLine ''N12 G1 X5'') = ''G1X5''"
  by code_simp

lemma ParseExtendedParams_example:
  "(case ParseExtendedParams ''name=park MOVE=1 msg=\"a b\" '' of Inl _ \<Rightarrow> []
    | Inr m \<Rightarrow> map m [''NAME'', ''MOVE'', ''MSG'']) = [Some ''park'', Some ''1'', Some ''a b'']"
  by code_simp

lemma GetRawCommandParameters_example:
  "GetRawCommandParameters ''SAVE_GCODE_STATE'' ''save_gcode_state NAME=x'' = Inr ''NAME=x''"
  by code_simp

end
