(* ===== verification/GCodeMove.thy ===== *)
theory GCodeMove
  imports GCodeParse
begin

text \<open>
  The coordinate system of G-code (\<^verbatim>\<open>gcode/gcode_move_module.go\<close>): the module keeps the machine
  position, the base every absolute coordinate is added to, the offset of homing, the factors of
  speed and extrusion and the saved states, and turns commands into moves of the toolhead or of
  the transform in front of it.

  Positions have four entries.  A slice the code copies or passes on is a list.  Moves go to a
  \<open>target\<close>, which may refuse them; a command returns the new state, the calls it made and its result,
  so that the state after a panic is that at the panic.
\<close>

section \<open>State\<close>

datatype target = Unset | ToToolhead | ToTransform nat

type_synonym call = "target \<times> real list \<times> real"
type_synonym mover = "target \<Rightarrow> real list \<Rightarrow> real \<Rightarrow> unit result"

record savedState =
  sv_absoluteCoord :: bool
  sv_absoluteExtrude :: bool
  sv_basePosition :: "real list"
  sv_lastPosition :: "real list"
  sv_homingPosition :: "real list"
  sv_speed :: real
  sv_speedFactor :: real
  sv_extrudeFactor :: real

record GCodeMoveModule =
  isPrinterReady :: bool
  absoluteCoord :: bool
  absoluteExtrude :: bool
  basePosition :: "real list"
  lastPosition :: "real list"
  homingPosition :: "real list"
  speed :: real
  speedFactor :: real
  extrudeFactor :: real
  savedStates :: "string \<rightharpoonup> savedState"
  moveTransform :: "nat option"
  moveWithTransform :: target

definition LoadConfigGCodeMove :: GCodeMoveModule where
  "LoadConfigGCodeMove =
     \<lparr>isPrinterReady = False, absoluteCoord = True, absoluteExtrude = True,
      basePosition = [0, 0, 0, 0], lastPosition = [0, 0, 0, 0], homingPosition = [0, 0, 0, 0],
      speed = 25, speedFactor = 1 / 60, extrudeFactor = 1, savedStates = Map.empty,
      moveTransform = None, moveWithTransform = Unset\<rparr>"

section \<open>Events\<close>

text \<open>The position comes from where moves go to; before anything is connected it is the origin.\<close>

definition positionWithTransform :: "(target \<Rightarrow> real list) \<Rightarrow> GCodeMoveModule \<Rightarrow> real list" where
  "positionWithTransform getpos s = (if moveWithTransform s = Unset then [0, 0, 0, 0] else getpos (moveWithTransform s))"

definition Reset_last_position :: "(target \<Rightarrow> real list) \<Rightarrow> GCodeMoveModule \<Rightarrow> GCodeMoveModule" where
  "Reset_last_position getpos s =
     (if isPrinterReady s then s\<lparr>lastPosition := positionWithTransform getpos s\<rparr> else s)"

definition gm_handle_ready :: "(target \<Rightarrow> real list) \<Rightarrow> bool \<Rightarrow> GCodeMoveModule \<Rightarrow> GCodeMoveModule result" where
  "gm_handle_ready getpos has_toolhead s =
     (let s1 = s\<lparr>isPrinterReady := True\<rparr> in
      if \<not> has_toolhead then Inl (GoPanic ''gcode_move requires toolhead runtime'')
      else let s2 = (if moveTransform s1 = None then s1\<lparr>moveWithTransform := ToToolhead\<rparr> else s1)
           in Inr (Reset_last_position getpos s2))"

definition gm_handle_shutdown :: "GCodeMoveModule \<Rightarrow> GCodeMoveModule" where
  "gm_handle_shutdown s = (if \<not> isPrinterReady s then s else s\<lparr>isPrinterReady := False\<rparr>)"

definition gm_handle_activate_extruder :: "(target \<Rightarrow> real list) \<Rightarrow> GCodeMoveModule \<Rightarrow> GCodeMoveModule" where
  "gm_handle_activate_extruder getpos s =
     (let s1 = (Reset_last_position getpos s)\<lparr>extrudeFactor := 1\<rparr>
      in s1\<lparr>basePosition := (basePosition s1)[3 := lastPosition s1 ! 3]\<rparr>)"

definition gm_handle_home_rails_end :: "(target \<Rightarrow> real list) \<Rightarrow> nat list option \<Rightarrow> GCodeMoveModule \<Rightarrow> GCodeMoveModule" where
  "gm_handle_home_rails_end getpos axes s =
     (let s1 = Reset_last_position getpos s in
      case axes of None \<Rightarrow> s1
      | Some as \<Rightarrow> fold (\<lambda>axis t. t\<lparr>basePosition := (basePosition t)[axis := homingPosition t ! axis]\<rparr>) as s1)"

text \<open>The transform that was in place is returned, or the one of the toolhead when there is a toolhead.\<close>

definition Set_move_transform :: "target option \<Rightarrow> nat \<Rightarrow> bool \<Rightarrow> GCodeMoveModule \<Rightarrow> (GCodeMoveModule \<times> target option) result" where
  "Set_move_transform toolhead_transform transform force s =
     (if moveTransform s \<noteq> None \<and> \<not> force then Inl (GoPanic ''G-Code move transform already specified'')
      else Inr (s\<lparr>moveTransform := Some transform, moveWithTransform := ToTransform transform\<rparr>,
                case moveTransform s of None \<Rightarrow> toolhead_transform | Some t \<Rightarrow> Some (ToTransform t)))"

section \<open>Status\<close>

definition get_gcode_position :: "GCodeMoveModule \<Rightarrow> real list" where
  "get_gcode_position s =
     (let p = map2 (-) (lastPosition s) (basePosition s) in p[3 := p ! 3 / extrudeFactor s])"

definition get_gcode_speed :: "GCodeMoveModule \<Rightarrow> real" where
  "get_gcode_speed s = speed s / speedFactor s"

definition get_gcode_speed_override :: "GCodeMoveModule \<Rightarrow> real" where
  "get_gcode_speed_override s = speedFactor s * 60"

record gcode_status =
  st_speed_factor :: real
  st_speed :: real
  st_extrude_factor :: real
  st_absolute_coordinates :: bool
  st_absolute_extrude :: bool
  st_homing_origin :: "real list"
  st_position :: "real list"
  st_gcode_position :: "real list"

definition gm_Get_status :: "GCodeMoveModule \<Rightarrow> gcode_status" where
  "gm_Get_status s =
     \<lparr>st_speed_factor = get_gcode_speed_override s, st_speed = get_gcode_speed s, st_extrude_factor = extrudeFactor s,
      st_absolute_coordinates = absoluteCoord s, st_absolute_extrude = absoluteExtrude s,
      st_homing_origin = homingPosition s, st_position = lastPosition s, st_gcode_position = get_gcode_position s\<rparr>"

definition GCodePositionZ :: "GCodeMoveModule \<Rightarrow> real" where
  "GCodePositionZ s = st_gcode_position (gm_Get_status s) ! 2"

section \<open>Moves\<close>

definition move_axis :: "(string \<rightharpoonup> string) \<Rightarrow> nat \<times> string \<Rightarrow> GCodeMoveModule \<Rightarrow> GCodeMoveModule" where
  "move_axis params pa s =
     (let (pos, axis) = pa in
      case params axis of None \<Rightarrow> s
      | Some raw \<Rightarrow>
          (case ParseFloat raw of None \<Rightarrow> s
           | Some x \<Rightarrow>
               if \<not> absoluteCoord s then s\<lparr>lastPosition := (lastPosition s)[pos := lastPosition s ! pos + x]\<rparr>
               else s\<lparr>lastPosition := (lastPosition s)[pos := x + basePosition s ! pos]\<rparr>))"

definition move_extruder :: "(string \<rightharpoonup> string) \<Rightarrow> GCodeMoveModule \<Rightarrow> GCodeMoveModule" where
  "move_extruder params s =
     (case params ''E'' of None \<Rightarrow> s
      | Some raw \<Rightarrow>
          (case ParseFloat raw of None \<Rightarrow> s
           | Some e \<Rightarrow>
               let x = e * extrudeFactor s in
               if \<not> absoluteCoord s \<or> \<not> absoluteExtrude s then s\<lparr>lastPosition := (lastPosition s)[3 := lastPosition s ! 3 + x]\<rparr>
               else s\<lparr>lastPosition := (lastPosition s)[3 := x + basePosition s ! 3]\<rparr>))"

definition applyMoveParameters :: "mover \<Rightarrow> (string \<rightharpoonup> string) \<Rightarrow> string \<Rightarrow> GCodeMoveModule \<Rightarrow>
    GCodeMoveModule \<times> call list \<times> unit result" where
  "applyMoveParameters mv params commandline s =
     (let s1 = fold (move_axis params) [(0, ''X''), (1, ''Y''), (2, ''Z'')] s;
          s2 = move_extruder params s1;
          f = (case params ''F'' of None \<Rightarrow> Inr (speed s2)
               | Some raw \<Rightarrow>
                   (case ParseFloat raw of None \<Rightarrow> Inl (GoPanic (''Unable to parse move '' @ commandline))
                    | Some x \<Rightarrow>
                        if x \<le> 0 then Inl (GoPanic (''Invalid speed in '' @ commandline))
                        else Inr (x * speedFactor s2)))
      in case f of
           Inl e \<Rightarrow> (s2, [], Inl e)
         | Inr v \<Rightarrow>
             let s3 = s2\<lparr>speed := v\<rparr> in
             if moveWithTransform s3 = Unset then (s3, [], Inl (GoPanic ''gcode_move not ready''))
             else (s3, [(moveWithTransform s3, lastPosition s3, speed s3)],
                   mv (moveWithTransform s3) (lastPosition s3) (speed s3)))"

section \<open>Commands\<close>

definition axes4 :: "(nat \<times> string) list" where
  "axes4 = [(0, ''X''), (1, ''Y''), (2, ''Z''), (3, ''E'')]"

text \<open>A float parameter without bounds: absent, or the number its text denotes.\<close>

definition opt_float :: "(string \<rightharpoonup> string) \<Rightarrow> string \<Rightarrow> real option" where
  "opt_float params name =
     (case Get_float params [] name (Default None) None None None None of Inl _ \<Rightarrow> None | Inr v \<Rightarrow> v)"

definition def_float :: "(string \<rightharpoonup> string) \<Rightarrow> string \<Rightarrow> real \<Rightarrow> real option \<Rightarrow> real" where
  "def_float params name d above1 =
     (case Get_float params [] name (Default (Some d)) None None above1 None of Inr (Some v) \<Rightarrow> v | _ \<Rightarrow> d)"

definition g92_axis :: "(string \<rightharpoonup> string) \<Rightarrow> nat \<times> string \<Rightarrow> GCodeMoveModule \<Rightarrow> GCodeMoveModule" where
  "g92_axis params pa s =
     (let (i, axis) = pa in
      case opt_float params axis of None \<Rightarrow> s
      | Some v \<Rightarrow>
          let x = (if i = 3 then v * extrudeFactor s else v)
          in s\<lparr>basePosition := (basePosition s)[i := lastPosition s ! i - x]\<rparr>)"

definition Cmd_G92 :: "(string \<rightharpoonup> string) \<Rightarrow> GCodeMoveModule \<Rightarrow> GCodeMoveModule" where
  "Cmd_G92 params s =
     (let s1 = fold (g92_axis params) axes4 s in
      if list_all (\<lambda>(i, axis). opt_float params axis = None) axes4 then s1\<lparr>basePosition := lastPosition s1\<rparr> else s1)"

definition Cmd_M220 :: "(string \<rightharpoonup> string) \<Rightarrow> GCodeMoveModule \<Rightarrow> GCodeMoveModule" where
  "Cmd_M220 params s =
     (let v = def_float params ''S'' 100 (Some 0) / (60 * 100)
      in s\<lparr>speed := get_gcode_speed s * v, speedFactor := v\<rparr>)"

definition Cmd_M221 :: "(string \<rightharpoonup> string) \<Rightarrow> GCodeMoveModule \<Rightarrow> GCodeMoveModule" where
  "Cmd_M221 params s =
     (let f = def_float params ''S'' 100 (Some 0) / 100;
          last_e = lastPosition s ! 3;
          e_value = (last_e - basePosition s ! 3) / extrudeFactor s
      in s\<lparr>basePosition := (basePosition s)[3 := last_e - e_value * f], extrudeFactor := f\<rparr>)"

text \<open>The offset an axis gets: its own parameter, or the old offset and the adjustment.\<close>

definition new_offset :: "(string \<rightharpoonup> string) \<Rightarrow> string \<Rightarrow> real \<Rightarrow> real option" where
  "new_offset params axis old =
     (case opt_float params axis of Some x \<Rightarrow> Some x
      | None \<Rightarrow> (case opt_float params (axis @ ''_ADJUST'') of None \<Rightarrow> None | Some x \<Rightarrow> Some (x + old)))"

definition offset_axis :: "(string \<rightharpoonup> string) \<Rightarrow> nat \<times> string \<Rightarrow> GCodeMoveModule \<times> real list \<Rightarrow> GCodeMoveModule \<times> real list" where
  "offset_axis params pa sd =
     (let (pos, axis) = pa; (s, moveDelta) = sd in
      case new_offset params axis (homingPosition s ! pos) of None \<Rightarrow> (s, moveDelta)
      | Some offset \<Rightarrow>
          let delta = offset - homingPosition s ! pos
          in (s\<lparr>basePosition := (basePosition s)[pos := basePosition s ! pos + delta],
                homingPosition := (homingPosition s)[pos := offset]\<rparr>, moveDelta[pos := delta]))"

definition wants_move :: "(string \<rightharpoonup> string) \<Rightarrow> bool" where
  "wants_move params = (Get_int params [] ''MOVE'' (Default 0) \<noteq> Inr 0)"

text \<open>Calling a move function that was never set dereferences nil.\<close>

definition call_move :: "mover \<Rightarrow> real \<Rightarrow> GCodeMoveModule \<Rightarrow> GCodeMoveModule \<times> call list \<times> unit result" where
  "call_move mv v s =
     (if moveWithTransform s = Unset then (s, [], Inl (GoPanic ''nil pointer dereference''))
      else (s, [(moveWithTransform s, lastPosition s, v)], mv (moveWithTransform s) (lastPosition s) v))"

definition Cmd_SET_GCODE_OFFSET :: "mover \<Rightarrow> (string \<rightharpoonup> string) \<Rightarrow> GCodeMoveModule \<Rightarrow> GCodeMoveModule \<times> call list \<times> unit result" where
  "Cmd_SET_GCODE_OFFSET mv params s =
     (let (s1, moveDelta) = fold (offset_axis params) axes4 (s, [0, 0, 0, 0]) in
      if wants_move params then
        call_move mv (def_float params ''MOVE_SPEED'' (speed s1) None)
          (s1\<lparr>lastPosition := map2 (+) (lastPosition s1) moveDelta\<rparr>)
      else (s1, [], Inr ()))"

definition state_name :: "(string \<rightharpoonup> string) \<Rightarrow> string" where
  "state_name params = (case Get_param params [] ''NAME'' (Default ''default'') of Inr n \<Rightarrow> n | Inl _ \<Rightarrow> [])"

definition Cmd_SAVE_GCODE_STATE :: "(string \<rightharpoonup> string) \<Rightarrow> GCodeMoveModule \<Rightarrow> GCodeMoveModule" where
  "Cmd_SAVE_GCODE_STATE params s =
     s\<lparr>savedStates := (savedStates s)(state_name params \<mapsto>
         \<lparr>sv_absoluteCoord = absoluteCoord s, sv_absoluteExtrude = absoluteExtrude s,
          sv_basePosition = basePosition s, sv_lastPosition = lastPosition s, sv_homingPosition = homingPosition s,
          sv_speed = speed s, sv_speedFactor = speedFactor s, sv_extrudeFactor = extrudeFactor s\<rparr>)\<rparr>"

definition Cmd_RESTORE_GCODE_STATE :: "mover \<Rightarrow> (string \<rightharpoonup> string) \<Rightarrow> GCodeMoveModule \<Rightarrow> GCodeMoveModule \<times> call list \<times> unit result" where
  "Cmd_RESTORE_GCODE_STATE mv params s =
     (case savedStates s (state_name params) of
        None \<Rightarrow> (s, [], Inl (GoPanic (''Unknown g-code state: '' @ state_name params)))
      | Some st \<Rightarrow>
          let s1 = s\<lparr>absoluteCoord := sv_absoluteCoord st, absoluteExtrude := sv_absoluteExtrude st,
                     basePosition := sv_basePosition st, homingPosition := sv_homingPosition st,
                     speed := sv_speed st, speedFactor := sv_speedFactor st, extrudeFactor := sv_extrudeFactor st\<rparr>;
              eDiff = lastPosition s1 ! 3 - sv_lastPosition st ! 3;
              s2 = s1\<lparr>basePosition := (basePosition s1)[3 := basePosition s1 ! 3 + eDiff]\<rparr>
          in if wants_move params then
               call_move mv (def_float params ''MOVE_SPEED'' (speed s2) (Some 0))
                 (s2\<lparr>lastPosition := (lastPosition s2)[0 := sv_lastPosition st ! 0, 1 := sv_lastPosition st ! 1,
                                                      2 := sv_lastPosition st ! 2]\<rparr>)
             else (s2, [], Inr ()))"

text \<open>The commands the module registers, under their names, on parsed parameters.\<close>

datatype gcode_command =
    G1 "string \<rightharpoonup> string" string | G20 | G21 | M82 | M83 | G90 | G91
  | G92 "string \<rightharpoonup> string" | M220 "string \<rightharpoonup> string" | M221 "string \<rightharpoonup> string"
  | SET_GCODE_OFFSET "string \<rightharpoonup> string" | SAVE_GCODE_STATE "string \<rightharpoonup> string" | RESTORE_GCODE_STATE "string \<rightharpoonup> string"

definition Cmd_G20 :: "GCodeMoveModule \<Rightarrow> GCodeMoveModule \<times> call list \<times> unit result" where
  "Cmd_G20 s = (s, [], Inl (GoPanic ''Machine does not support G20 (inches) command''))"

fun run_command :: "mover \<Rightarrow> gcode_command \<Rightarrow> GCodeMoveModule \<Rightarrow> GCodeMoveModule \<times> call list \<times> unit result" where
  "run_command mv (G1 params line) s = applyMoveParameters mv params line s"
| "run_command mv G20 s = Cmd_G20 s"
| "run_command mv G21 s = (s, [], Inr ())"
| "run_command mv M82 s = (s\<lparr>absoluteExtrude := True\<rparr>, [], Inr ())"
| "run_command mv M83 s = (s\<lparr>absoluteExtrude := False\<rparr>, [], Inr ())"
| "run_command mv G90 s = (s\<lparr>absoluteCoord := True\<rparr>, [], Inr ())"
| "run_command mv G91 s = (s\<lparr>absoluteCoord := False\<rparr>, [], Inr ())"
| "run_command mv (G92 params) s = (Cmd_G92 params s, [], Inr ())"
| "run_command mv (M220 params) s = (Cmd_M220 params s, [], Inr ())"
| "run_command mv (M221 params) s = (Cmd_M221 params s, [], Inr ())"
| "run_command mv (SET_GCODE_OFFSET params) s = Cmd_SET_GCODE_OFFSET mv params s"
| "run_command mv (SAVE_GCODE_STATE params) s = (Cmd_SAVE_GCODE_STATE params s, [], Inr ())"
| "run_command mv (RESTORE_GCODE_STATE params) s = Cmd_RESTORE_GCODE_STATE mv params s"

text \<open>A command line to the command the module registered for its name; \<open>G0\<close> is \<open>G1\<close>.\<close>

definition registered_command :: "string \<Rightarrow> (string \<rightharpoonup> string) \<Rightarrow> string \<Rightarrow> gcode_command option" where
  "registered_command name params line =
     map_of [(''G1'', G1 params line), (''G20'', G20), (''G21'', G21), (''M82'', M82), (''M83'', M83),
             (''G90'', G90), (''G91'', G91), (''G92'', G92 params), (''M220'', M220 params), (''M221'', M221 params),
             (''SET_GCODE_OFFSET'', SET_GCODE_OFFSET params), (''SAVE_GCODE_STATE'', SAVE_GCODE_STATE params),
             (''RESTORE_GCODE_STATE'', RESTORE_GCODE_STATE params), (''G0'', G1 params line)] name"

text \<open>
  A line of a script to the command it runs.  An extended command reads its parameters from the raw
  text after its name, and has none when that text is malformed.  A line of another module's command
  is nothing here.
\<close>

definition script_command :: "string \<Rightarrow> gcode_command option result" where
  "script_command input =
     (let p = ParseDispatchCommandLine input in
      if IsTraditionalGCode (Command p) then Inr (registered_command (Command p) (Params p) (OriginalLine p))
      else bindR (GetRawCommandParameters (Command p) (OriginalLine p)) (\<lambda>raw.
        let params = (case ParseExtendedParams raw of Inl _ \<Rightarrow> Map.empty | Inr m \<Rightarrow> m)
        in Inr (registered_command (Command p) params (OriginalLine p))))"

text \<open>Commands one after the other, up to the first that fails.\<close>

fun run_seq :: "('c \<Rightarrow> 's \<Rightarrow> 's \<times> 'o list \<times> unit result) \<Rightarrow> 'c list \<Rightarrow> 's \<Rightarrow> 's \<times> 'o list \<times> unit result" where
  "run_seq step [] s = (s, [], Inr ())"
| "run_seq step (c # cs) s =
     (case step c s of (s1, o1, Inl e) \<Rightarrow> (s1, o1, Inl e)
      | (s1, o1, Inr _) \<Rightarrow> (case run_seq step cs s1 of (s2, o2, r) \<Rightarrow> (s2, o1 @ o2, r)))"

definition exec_line :: "(gcode_command \<Rightarrow> 's \<Rightarrow> 's \<times> 'o list \<times> unit result) \<Rightarrow> string \<Rightarrow> 's \<Rightarrow> 's \<times> 'o list \<times> unit result" where
  "exec_line step input s =
     (case script_command input of Inl e \<Rightarrow> (s, [], Inl e) | Inr None \<Rightarrow> (s, [], Inr ()) | Inr (Some c) \<Rightarrow> step c s)"

definition Run_script :: "(gcode_command \<Rightarrow> 's \<Rightarrow> 's \<times> 'o list \<times> unit result) \<Rightarrow> string \<Rightarrow> 's \<Rightarrow> 's \<times> 'o list \<times> unit result" where
  "Run_script step script = run_seq (exec_line step) (split_char CHR 10 script)"

section \<open>What the commands mean in G-code coordinates\<close>

text \<open>
  The specification knows only what the status shows: the G-code position, the machine position,
  the feed rate in G-code units, the two factors, the modes, the homing origin and the saved
  statuses.  It has neither a base position nor a scaled speed.
\<close>

record gcode_spec =
  sp_status :: gcode_status
  sp_saved :: "string \<rightharpoonup> gcode_status"
  sp_target :: target

definition spec_scale :: "nat \<Rightarrow> gcode_status \<Rightarrow> real" where
  "spec_scale i st = (if i = 3 then st_extrude_factor st else 1)"

definition spec_axis :: "(string \<rightharpoonup> string) \<Rightarrow> nat \<times> string \<Rightarrow> gcode_status \<Rightarrow> gcode_status" where
  "spec_axis params pa st =
     (let (i, axis) = pa in
      case params axis of None \<Rightarrow> st
      | Some raw \<Rightarrow>
          (case ParseFloat raw of None \<Rightarrow> st
           | Some x \<Rightarrow>
               let g = st_gcode_position st ! i;
                   v = (if \<not> st_absolute_coordinates st \<or> (i = 3 \<and> \<not> st_absolute_extrude st) then g + x else x)
               in st\<lparr>st_gcode_position := (st_gcode_position st)[i := v],
                     st_position := (st_position st)[i := st_position st ! i + (v - g) * spec_scale i st]\<rparr>))"

text \<open>The speed of the toolhead is the feed rate times the override, per second.\<close>

definition spec_velocity :: "gcode_status \<Rightarrow> real" where
  "spec_velocity st = st_speed st * st_speed_factor st / 60"

definition spec_send :: "mover \<Rightarrow> go_error \<Rightarrow> real \<Rightarrow> gcode_spec \<Rightarrow> gcode_spec \<times> call list \<times> unit result" where
  "spec_send mv e v sp =
     (if sp_target sp = Unset then (sp, [], Inl e)
      else (sp, [(sp_target sp, st_position (sp_status sp), v)], mv (sp_target sp) (st_position (sp_status sp)) v))"

definition spec_G1 :: "mover \<Rightarrow> (string \<rightharpoonup> string) \<Rightarrow> string \<Rightarrow> gcode_spec \<Rightarrow> gcode_spec \<times> call list \<times> unit result" where
  "spec_G1 mv params line sp =
     (let st = fold (spec_axis params) axes4 (sp_status sp);
          f = (case params ''F'' of None \<Rightarrow> Inr (st_speed st)
               | Some raw \<Rightarrow>
                   (case ParseFloat raw of None \<Rightarrow> Inl (GoPanic (''Unable to parse move '' @ line))
                    | Some x \<Rightarrow> if x \<le> 0 then Inl (GoPanic (''Invalid speed in '' @ line)) else Inr x))
      in case f of
           Inl e \<Rightarrow> (sp\<lparr>sp_status := st\<rparr>, [], Inl e)
         | Inr v \<Rightarrow>
             let st' = st\<lparr>st_speed := v\<rparr>
             in spec_send mv (GoPanic ''gcode_move not ready'') (spec_velocity st') (sp\<lparr>sp_status := st'\<rparr>))"

definition spec_G92 :: "(string \<rightharpoonup> string) \<Rightarrow> gcode_status \<Rightarrow> gcode_status" where
  "spec_G92 params st =
     (if list_all (\<lambda>(i, axis). opt_float params axis = None) axes4 then st\<lparr>st_gcode_position := [0, 0, 0, 0]\<rparr>
      else st\<lparr>st_gcode_position :=
         map (\<lambda>(i, axis). case opt_float params axis of None \<Rightarrow> st_gcode_position st ! i | Some v \<Rightarrow> v) axes4\<rparr>)"

definition spec_offset :: "(string \<rightharpoonup> string) \<Rightarrow> gcode_status \<Rightarrow> nat \<times> string \<Rightarrow> real" where
  "spec_offset params st pa =
     (let (i, axis) = pa; old = st_homing_origin st ! i in case new_offset params axis old of None \<Rightarrow> old | Some x \<Rightarrow> x)"

definition spec_SET_OFFSET :: "mover \<Rightarrow> (string \<rightharpoonup> string) \<Rightarrow> gcode_spec \<Rightarrow> gcode_spec \<times> call list \<times> unit result" where
  "spec_SET_OFFSET mv params sp =
     (let st = sp_status sp;
          origin = map (spec_offset params st) axes4;
          delta = map2 (-) origin (st_homing_origin st);
          st1 = st\<lparr>st_homing_origin := origin\<rparr>
      in if wants_move params then
           spec_send mv (GoPanic ''nil pointer dereference'') (def_float params ''MOVE_SPEED'' (spec_velocity st) None)
             (sp\<lparr>sp_status := st1\<lparr>st_position := map2 (+) (st_position st) delta\<rparr>\<rparr>)
         else (sp\<lparr>sp_status := st1\<lparr>st_gcode_position :=
                 map (\<lambda>i. st_gcode_position st ! i - delta ! i / spec_scale i st) [0..<4]\<rparr>\<rparr>, [], Inr ()))"

definition spec_RESTORE :: "mover \<Rightarrow> (string \<rightharpoonup> string) \<Rightarrow> gcode_spec \<Rightarrow> gcode_spec \<times> call list \<times> unit result" where
  "spec_RESTORE mv params sp =
     (case sp_saved sp (state_name params) of
        None \<Rightarrow> (sp, [], Inl (GoPanic (''Unknown g-code state: '' @ state_name params)))
      | Some sv \<Rightarrow>
          let pos = st_position (sp_status sp) in
          if wants_move params then
            spec_send mv (GoPanic ''nil pointer dereference'') (def_float params ''MOVE_SPEED'' (spec_velocity sv) (Some 0))
              (sp\<lparr>sp_status := sv\<lparr>st_position := (take 3 (st_position sv)) @ [pos ! 3]\<rparr>\<rparr>)
          else (sp\<lparr>sp_status := sv\<lparr>st_position := pos, st_gcode_position :=
                  map (\<lambda>i. if i = 3 then st_gcode_position sv ! 3 else st_gcode_position sv ! i + (pos ! i - st_position sv ! i)) [0..<4]\<rparr>\<rparr>,
                [], Inr ()))"

fun spec_command :: "mover \<Rightarrow> gcode_command \<Rightarrow> gcode_spec \<Rightarrow> gcode_spec \<times> call list \<times> unit result" where
  "spec_command mv (G1 params line) sp = spec_G1 mv params line sp"
| "spec_command mv G20 sp = (sp, [], Inl (GoPanic ''Machine does not support G20 (inches) command''))"
| "spec_command mv G21 sp = (sp, [], Inr ())"
| "spec_command mv M82 sp = (sp\<lparr>sp_status := (sp_status sp)\<lparr>st_absolute_extrude := True\<rparr>\<rparr>, [], Inr ())"
| "spec_command mv M83 sp = (sp\<lparr>sp_status := (sp_status sp)\<lparr>st_absolute_extrude := False\<rparr>\<rparr>, [], Inr ())"
| "spec_command mv G90 sp = (sp\<lparr>sp_status := (sp_status sp)\<lparr>st_absolute_coordinates := True\<rparr>\<rparr>, [], Inr ())"
| "spec_command mv G91 sp = (sp\<lparr>sp_status := (sp_status sp)\<lparr>st_absolute_coordinates := False\<rparr>\<rparr>, [], Inr ())"
| "spec_command mv (G92 params) sp = (sp\<lparr>sp_status := spec_G92 params (sp_status sp)\<rparr>, [], Inr ())"
| "spec_command mv (M220 params) sp =
     (sp\<lparr>sp_status := (sp_status sp)\<lparr>st_speed_factor := def_float params ''S'' 100 (Some 0) / 100\<rparr>\<rparr>, [], Inr ())"
| "spec_command mv (M221 params) sp =
     (sp\<lparr>sp_status := (sp_status sp)\<lparr>st_extrude_factor := def_float params ''S'' 100 (Some 0) / 100\<rparr>\<rparr>, [], Inr ())"
| "spec_command mv (SET_GCODE_OFFSET params) sp = spec_SET_OFFSET mv params sp"
| "spec_command mv (SAVE_GCODE_STATE params) sp =
     (sp\<lparr>sp_saved := (sp_saved sp)(state_name params \<mapsto> sp_status sp)\<rparr>, [], Inr ())"
| "spec_command mv (RESTORE_GCODE_STATE params) sp = spec_RESTORE mv params sp"

section \<open>The module implements the specification\<close>

definition state_wf :: "GCodeMoveModule \<Rightarrow> bool" where
  "state_wf s \<longleftrightarrow> length (basePosition s) = 4 \<and> length (lastPosition s) = 4 \<and> length (homingPosition s) = 4 \<and>
     speedFactor s \<noteq> 0 \<and> extrudeFactor s \<noteq> 0"

text \<open>A saved state as a state of its own.\<close>

definition resume_state :: "savedState \<Rightarrow> GCodeMoveModule" where
  "resume_state st =
     LoadConfigGCodeMove
       \<lparr>absoluteCoord := sv_absoluteCoord st, absoluteExtrude := sv_absoluteExtrude st,
        basePosition := sv_basePosition st, lastPosition := sv_lastPosition st, homingPosition := sv_homingPosition st,
        speed := sv_speed st, speedFactor := sv_speedFactor st, extrudeFactor := sv_extrudeFactor st\<rparr>"

definition gm_abs :: "GCodeMoveModule \<Rightarrow> gcode_spec" where
  "gm_abs s = \<lparr>sp_status = gm_Get_status s,
     sp_saved = (\<lambda>n. map_option (\<lambda>st. gm_Get_status (resume_state st)) (savedStates s n)),
     sp_target = moveWithTransform s\<rparr>"

definition gm_wf :: "GCodeMoveModule \<Rightarrow> bool" where
  "gm_wf s \<longleftrightarrow> state_wf s \<and> (\<forall>n st. savedStates s n = Some st \<longrightarrow> state_wf (resume_state st))"

lemma less4: "i < (4 :: nat) \<longleftrightarrow> i = 0 \<or> i = 1 \<or> i = 2 \<or> i = 3"
  by auto

lemma gcode_position_list:
  assumes "state_wf s"
  shows "get_gcode_position s =
    [lastPosition s ! 0 - basePosition s ! 0, lastPosition s ! 1 - basePosition s ! 1,
     lastPosition s ! 2 - basePosition s ! 2, (lastPosition s ! 3 - basePosition s ! 3) / extrudeFactor s]"
proof -
  obtain a b c d where "lastPosition s = [a, b, c, d]"
    using assms by (auto simp: state_wf_def length4_conv)
  moreover obtain a' b' c' d' where "basePosition s = [a', b', c', d']"
    using assms by (auto simp: state_wf_def length4_conv)
  ultimately show ?thesis by (simp add: get_gcode_position_def numeral_eq_Suc)
qed

definition coord_scale :: "nat \<Rightarrow> GCodeMoveModule \<Rightarrow> real" where
  "coord_scale i s = (if i = 3 then extrudeFactor s else 1)"

lemma gcode_position_nth:
  "state_wf s \<Longrightarrow> i < 4 \<Longrightarrow> get_gcode_position s ! i = (lastPosition s ! i - basePosition s ! i) / coord_scale i s"
  by (drule less4[THEN iffD1], elim disjE) (simp_all add: gcode_position_list coord_scale_def numeral_eq_Suc)

lemma gcode_position_length [simp]: "state_wf s \<Longrightarrow> length (get_gcode_position s) = 4"
  by (simp add: gcode_position_list)

lemma gcode_position_cong:
  assumes "lastPosition s = lastPosition t" "basePosition s = basePosition t" "extrudeFactor s = extrudeFactor t"
  shows "get_gcode_position s = get_gcode_position t"
  using assms by (simp add: get_gcode_position_def)

lemma gcode_position_last:
  assumes "state_wf s" "i < 4"
  shows "get_gcode_position (s\<lparr>lastPosition := (lastPosition s)[i := x]\<rparr>) =
         (get_gcode_position s)[i := (x - basePosition s ! i) / coord_scale i s]"
proof -
  have "state_wf (s\<lparr>lastPosition := (lastPosition s)[i := x]\<rparr>)" using assms by (simp add: state_wf_def)
  note wf = this assms(1)
  have l: "length (lastPosition s) = 4" "length (basePosition s) = 4" using assms(1) by (simp_all add: state_wf_def)
  show ?thesis
    using less4[THEN iffD1, OF assms(2)] unfolding gcode_position_list[OF wf(1)] gcode_position_list[OF wf(2)]
    by (elim disjE) (simp_all add: coord_scale_def l numeral_eq_Suc)
qed

lemma gcode_position_base:
  assumes "state_wf s" "i < 4"
  shows "get_gcode_position (s\<lparr>basePosition := (basePosition s)[i := x]\<rparr>) =
         (get_gcode_position s)[i := (lastPosition s ! i - x) / coord_scale i s]"
proof -
  have "state_wf (s\<lparr>basePosition := (basePosition s)[i := x]\<rparr>)" using assms by (simp add: state_wf_def)
  note wf = this assms(1)
  have l: "length (lastPosition s) = 4" "length (basePosition s) = 4" using assms(1) by (simp_all add: state_wf_def)
  show ?thesis
    using less4[THEN iffD1, OF assms(2)] unfolding gcode_position_list[OF wf(1)] gcode_position_list[OF wf(2)]
    by (elim disjE) (simp_all add: coord_scale_def l numeral_eq_Suc)
qed

text \<open>The axes of a move one by one.\<close>

definition axis_step :: "(string \<rightharpoonup> string) \<Rightarrow> nat \<times> string \<Rightarrow> GCodeMoveModule \<Rightarrow> GCodeMoveModule" where
  "axis_step params pa s = (if fst pa = 3 then move_extruder params s else move_axis params pa s)"

lemma axis_step_form:
  "axis_step params (i, axis) s = s \<or> (\<exists>x. axis_step params (i, axis) s = s\<lparr>lastPosition := (lastPosition s)[i := x]\<rparr>)"
proof (cases "i = 3")
  case True
  then show ?thesis by (auto simp: axis_step_def move_extruder_def Let_def split: option.splits)
next
  case False
  then show ?thesis by (auto simp: axis_step_def move_axis_def split: option.splits)
qed

lemma axis_step_status:
  assumes "state_wf s" "(i, axis) \<in> set axes4"
  shows "gm_Get_status (axis_step params (i, axis) s) = spec_axis params (i, axis) (gm_Get_status s)"
proof -
  have i: "i < 4" "axis = ''E'' \<longleftrightarrow> i = 3" using assms(2) by (auto simp: axes4_def)
  have k: "coord_scale i s \<noteq> 0" using assms(1) by (simp add: coord_scale_def state_wf_def)
  have sc: "spec_scale i (gm_Get_status s) = coord_scale i s" by (simp add: spec_scale_def coord_scale_def gm_Get_status_def)
  have g: "get_gcode_position s ! i = (lastPosition s ! i - basePosition s ! i) / coord_scale i s"
    by (rule gcode_position_nth[OF assms(1) i(1)])
  show ?thesis
  proof (cases "params axis")
    case None
    then show ?thesis using i by (auto simp: axis_step_def move_axis_def move_extruder_def spec_axis_def)
  next
    case (Some raw)
    show ?thesis
    proof (cases "ParseFloat raw")
      case None
      then show ?thesis using Some i by (auto simp: axis_step_def move_axis_def move_extruder_def spec_axis_def)
    next
      case (Some x)
      define rel where "rel \<longleftrightarrow> \<not> absoluteCoord s \<or> (i = 3 \<and> \<not> absoluteExtrude s)"
      define y where "y = (if rel then lastPosition s ! i + x * coord_scale i s else x * coord_scale i s + basePosition s ! i)"
      define v where "v = (if rel then get_gcode_position s ! i + x else x)"
      have "axis_step params (i, axis) s = s\<lparr>lastPosition := (lastPosition s)[i := y]\<rparr>"
        using Some \<open>params axis = Some raw\<close> i(2)
        by (auto simp: axis_step_def move_axis_def move_extruder_def y_def rel_def coord_scale_def Let_def)
      moreover have "spec_axis params (i, axis) (gm_Get_status s) = (gm_Get_status s)
          \<lparr>st_gcode_position := (get_gcode_position s)[i := v],
           st_position := (lastPosition s)[i := lastPosition s ! i + (v - get_gcode_position s ! i) * coord_scale i s]\<rparr>"
        using Some \<open>params axis = Some raw\<close>
        by (simp add: spec_axis_def sc v_def rel_def Let_def) (auto simp: gm_Get_status_def)
      moreover have "(y - basePosition s ! i) / coord_scale i s = v" "lastPosition s ! i + (v - get_gcode_position s ! i) * coord_scale i s = y"
        using k by (simp_all add: y_def v_def g field_simps)
      ultimately show ?thesis
        by (simp add: gm_Get_status_def gcode_position_last[OF assms(1) i(1)] get_gcode_speed_def get_gcode_speed_override_def)
    qed
  qed
qed

lemma axis_step_keeps:
  "state_wf s \<Longrightarrow> state_wf (axis_step params pa s)"
  "savedStates (axis_step params pa s) = savedStates s"
  "moveWithTransform (axis_step params pa s) = moveWithTransform s"
  "speedFactor (axis_step params pa s) = speedFactor s"
  "speed (axis_step params pa s) = speed s"
  using axis_step_form[of params "fst pa" "snd pa" s] by (auto simp: state_wf_def)

lemma axis_steps_status:
  "state_wf s \<Longrightarrow> set axs \<subseteq> set axes4 \<Longrightarrow>
   gm_Get_status (fold (axis_step params) axs s) = fold (spec_axis params) axs (gm_Get_status s) \<and>
   state_wf (fold (axis_step params) axs s) \<and> savedStates (fold (axis_step params) axs s) = savedStates s \<and>
   moveWithTransform (fold (axis_step params) axs s) = moveWithTransform s \<and>
   speedFactor (fold (axis_step params) axs s) = speedFactor s \<and> speed (fold (axis_step params) axs s) = speed s"
proof (induction axs arbitrary: s)
  case (Cons pa axs)
  then show ?case using axis_step_status[of s "fst pa" "snd pa" params] by (simp add: axis_step_keeps)
qed simp

lemma move_is_axis_steps:
  "move_extruder params (fold (move_axis params) [(0, ''X''), (1, ''Y''), (2, ''Z'')] s) = fold (axis_step params) axes4 s"
  by (simp add: axes4_def axis_step_def)

definition abs_run :: "GCodeMoveModule \<times> call list \<times> unit result \<Rightarrow> gcode_spec \<times> call list \<times> unit result" where
  "abs_run r = (gm_abs (fst r), snd r)"

lemma gm_abs_status:
  "savedStates t = savedStates s \<Longrightarrow> moveWithTransform t = moveWithTransform s \<Longrightarrow>
   gm_abs t = (gm_abs s)\<lparr>sp_status := gm_Get_status t\<rparr>"
  by (simp add: gm_abs_def)

lemma gm_abs_simps [simp]:
  "sp_status (gm_abs s) = gm_Get_status s" "sp_target (gm_abs s) = moveWithTransform s"
  "sp_saved (gm_abs s) n = map_option (\<lambda>st. gm_Get_status (resume_state st)) (savedStates s n)"
  by (simp_all add: gm_abs_def)

lemmas status_defs = gm_Get_status_def get_gcode_speed_def get_gcode_speed_override_def

lemma velocity_of_speed: "state_wf s \<Longrightarrow> spec_velocity (gm_Get_status s) = speed s"
  by (simp add: spec_velocity_def status_defs state_wf_def)

lemma status_speed:
  "state_wf s \<Longrightarrow> gm_Get_status (s\<lparr>speed := v * speedFactor s\<rparr>) = (gm_Get_status s)\<lparr>st_speed := v\<rparr>"
  by (simp add: status_defs state_wf_def gcode_position_cong[of "s\<lparr>speed := v * speedFactor s\<rparr>" s])

lemma G1_refines:
  assumes "state_wf s"
  shows "abs_run (applyMoveParameters mv params line s) = spec_G1 mv params line (gm_abs s)"
    and "state_wf (fst (applyMoveParameters mv params line s))"
    and "savedStates (fst (applyMoveParameters mv params line s)) = savedStates s"
proof -
  define t where "t = fold (axis_step params) axes4 s"
  have t: "fold (spec_axis params) axes4 (gm_Get_status s) = gm_Get_status t" "state_wf t" "savedStates t = savedStates s"
    "moveWithTransform t = moveWithTransform s"
    using axis_steps_status[OF assms, of axes4 params] by (simp_all add: t_def)
  define f where "f = (case params ''F'' of None \<Rightarrow> Inr (get_gcode_speed t)
     | Some raw \<Rightarrow> (case ParseFloat raw of None \<Rightarrow> Inl (GoPanic (''Unable to parse move '' @ line))
        | Some x \<Rightarrow> if x \<le> 0 then Inl (GoPanic (''Invalid speed in '' @ line)) else Inr x))"
  have sf: "speed t = get_gcode_speed t * speedFactor t" using t(2) by (simp add: get_gcode_speed_def state_wf_def)
  have run: "applyMoveParameters mv params line s =
      (case f of Inl e \<Rightarrow> (t, [], Inl e)
       | Inr v \<Rightarrow> let s3 = t\<lparr>speed := v * speedFactor t\<rparr> in
           if moveWithTransform s3 = Unset then (s3, [], Inl (GoPanic ''gcode_move not ready''))
           else (s3, [(moveWithTransform s3, lastPosition s3, speed s3)], mv (moveWithTransform s3) (lastPosition s3) (speed s3)))"
    unfolding applyMoveParameters_def Let_def move_is_axis_steps t_def[symmetric] f_def
    by (simp add: sf split: option.splits)
  have spec: "spec_G1 mv params line (gm_abs s) =
      (case f of Inl e \<Rightarrow> ((gm_abs s)\<lparr>sp_status := gm_Get_status t\<rparr>, [], Inl e)
       | Inr v \<Rightarrow> let st' = (gm_Get_status t)\<lparr>st_speed := v\<rparr>
           in spec_send mv (GoPanic ''gcode_move not ready'') (spec_velocity st') ((gm_abs s)\<lparr>sp_status := st'\<rparr>))"
    unfolding spec_G1_def Let_def gm_abs_simps t(1) f_def by (simp add: gm_Get_status_def split: option.splits)
  have w: "state_wf (t\<lparr>speed := v\<rparr>)" for v using t(2) by (simp add: state_wf_def)
  show "state_wf (fst (applyMoveParameters mv params line s))"
    and "savedStates (fst (applyMoveParameters mv params line s)) = savedStates s"
    unfolding run using w t by (simp_all add: Let_def split: sum.splits)
  show "abs_run (applyMoveParameters mv params line s) = spec_G1 mv params line (gm_abs s)"
  proof (cases f)
    case (Inl e)
    then show ?thesis using t gm_abs_status[of t s] by (simp add: run spec abs_run_def)
  next
    case (Inr v)
    let ?u = "t\<lparr>speed := v * speedFactor t\<rparr>"
    have "gm_abs ?u = (gm_abs s)\<lparr>sp_status := (gm_Get_status t)\<lparr>st_speed := v\<rparr>\<rparr>"
      using gm_abs_status[of ?u s] t by (simp add: status_speed[OF t(2)])
    moreover have "spec_velocity ((gm_Get_status t)\<lparr>st_speed := v\<rparr>) = v * speedFactor t"
      by (simp add: spec_velocity_def status_defs)
    ultimately show ?thesis
      using Inr t(4) by (simp add: run spec abs_run_def spec_send_def Let_def) (simp add: gm_Get_status_def)
  qed
qed

lemma status_base:
  assumes "state_wf s" "i < 4"
  shows "gm_Get_status (s\<lparr>basePosition := (basePosition s)[i := x]\<rparr>) =
    (gm_Get_status s)\<lparr>st_gcode_position := (get_gcode_position s)[i := (lastPosition s ! i - x) / coord_scale i s]\<rparr>"
  by (simp add: status_defs gcode_position_base[OF assms])

lemma g92_axis_status:
  assumes "state_wf s" "i < 4"
  shows "gm_Get_status (g92_axis params (i, axis) s) =
      (gm_Get_status s)\<lparr>st_gcode_position := (get_gcode_position s)[i := case opt_float params axis of None \<Rightarrow> get_gcode_position s ! i | Some v \<Rightarrow> v]\<rparr>"
    and "state_wf (g92_axis params (i, axis) s)" and "savedStates (g92_axis params (i, axis) s) = savedStates s"
    and "moveWithTransform (g92_axis params (i, axis) s) = moveWithTransform s"
    and "lastPosition (g92_axis params (i, axis) s) = lastPosition s"
proof -
  have k: "coord_scale i s \<noteq> 0" using assms(1) by (simp add: coord_scale_def state_wf_def)
  show "gm_Get_status (g92_axis params (i, axis) s) =
      (gm_Get_status s)\<lparr>st_gcode_position := (get_gcode_position s)[i := case opt_float params axis of None \<Rightarrow> get_gcode_position s ! i | Some v \<Rightarrow> v]\<rparr>"
  proof (cases "opt_float params axis")
    case None
    then show ?thesis by (simp add: g92_axis_def) (simp add: gm_Get_status_def)
  next
    case (Some v)
    have "g92_axis params (i, axis) s = s\<lparr>basePosition := (basePosition s)[i := lastPosition s ! i - v * coord_scale i s]\<rparr>"
      using Some by (simp add: g92_axis_def coord_scale_def)
    then show ?thesis using Some k by (simp add: status_base[OF assms])
  qed
qed (use assms in \<open>auto simp: g92_axis_def state_wf_def Let_def split: option.splits\<close>)

definition g92_value :: "(string \<rightharpoonup> string) \<Rightarrow> nat \<times> string \<Rightarrow> real list \<Rightarrow> real list" where
  "g92_value params pa p = p[fst pa := case opt_float params (snd pa) of None \<Rightarrow> p ! fst pa | Some v \<Rightarrow> v]"

lemma g92_axes_status:
  "state_wf s \<Longrightarrow> set axs \<subseteq> set axes4 \<Longrightarrow>
   gm_Get_status (fold (g92_axis params) axs s) =
     (gm_Get_status s)\<lparr>st_gcode_position := fold (g92_value params) axs (get_gcode_position s)\<rparr> \<and>
   state_wf (fold (g92_axis params) axs s) \<and> savedStates (fold (g92_axis params) axs s) = savedStates s \<and>
   moveWithTransform (fold (g92_axis params) axs s) = moveWithTransform s \<and>
   lastPosition (fold (g92_axis params) axs s) = lastPosition s"
proof (induction axs arbitrary: s)
  case Nil
  then show ?case by (simp add: gm_Get_status_def)
next
  case (Cons pa axs)
  have "fst pa < 4" using Cons.prems(2) by (auto simp: axes4_def)
  note a = g92_axis_status[OF Cons.prems(1) this, of params "snd pa"]
  have "get_gcode_position (g92_axis params pa s) = g92_value params pa (get_gcode_position s)"
    using a(1) by (simp add: gm_Get_status_def g92_value_def)
  then show ?case using Cons.IH[OF a(2)] Cons.prems(2) a by simp
qed

lemma G92_refines:
  assumes "state_wf s"
  shows "gm_abs (Cmd_G92 params s) = (gm_abs s)\<lparr>sp_status := spec_G92 params (gm_Get_status s)\<rparr>"
    and "state_wf (Cmd_G92 params s)" and "savedStates (Cmd_G92 params s) = savedStates s"
proof -
  let ?t = "fold (g92_axis params) axes4 s"
  have t: "gm_Get_status ?t = (gm_Get_status s)\<lparr>st_gcode_position := fold (g92_value params) axes4 (get_gcode_position s)\<rparr>"
    "state_wf ?t" "savedStates ?t = savedStates s" "moveWithTransform ?t = moveWithTransform s" "lastPosition ?t = lastPosition s"
    using g92_axes_status[OF assms, of axes4 params] by simp_all
  have v: "fold (g92_value params) axes4 (get_gcode_position s) =
      map (\<lambda>(i, axis). case opt_float params axis of None \<Rightarrow> get_gcode_position s ! i | Some v \<Rightarrow> v) axes4"
    unfolding gcode_position_list[OF assms] by (simp add: axes4_def g92_value_def numeral_eq_Suc split: option.split)
  have z: "gm_Get_status (?t\<lparr>basePosition := lastPosition ?t\<rparr>) = (gm_Get_status ?t)\<lparr>st_gcode_position := [0, 0, 0, 0]\<rparr>"
  proof -
    have "state_wf (?t\<lparr>basePosition := lastPosition ?t\<rparr>)" using t(2) by (simp add: state_wf_def)
    from gcode_position_list[OF this] show ?thesis by (simp add: status_defs)
  qed
  show "state_wf (Cmd_G92 params s)" "savedStates (Cmd_G92 params s) = savedStates s"
    using t by (simp_all add: Cmd_G92_def Let_def state_wf_def)
  have "moveWithTransform (Cmd_G92 params s) = moveWithTransform s" using t by (simp add: Cmd_G92_def Let_def)
  moreover have "gm_Get_status (Cmd_G92 params s) = spec_G92 params (gm_Get_status s)"
  proof -
    have g: "st_gcode_position (gm_Get_status s) = get_gcode_position s" by (simp add: gm_Get_status_def)
    show ?thesis using t(1) z v unfolding Cmd_G92_def spec_G92_def Let_def g by simp
  qed
  ultimately show "gm_abs (Cmd_G92 params s) = (gm_abs s)\<lparr>sp_status := spec_G92 params (gm_Get_status s)\<rparr>"
    using gm_abs_status \<open>savedStates (Cmd_G92 params s) = savedStates s\<close> by metis
qed

lemma M220_refines:
  assumes "state_wf s" and "def_float params ''S'' 100 (Some 0) \<noteq> 0"
  shows "gm_abs (Cmd_M220 params s) = (gm_abs s)\<lparr>sp_status := (gm_Get_status s)\<lparr>st_speed_factor := def_float params ''S'' 100 (Some 0) / 100\<rparr>\<rparr>"
    and "state_wf (Cmd_M220 params s)" and "savedStates (Cmd_M220 params s) = savedStates s"
proof -
  have "get_gcode_position (Cmd_M220 params s) = get_gcode_position s"
    by (rule gcode_position_cong) (simp_all add: Cmd_M220_def)
  then have "gm_Get_status (Cmd_M220 params s) = (gm_Get_status s)\<lparr>st_speed_factor := def_float params ''S'' 100 (Some 0) / 100\<rparr>"
    using assms by (simp add: status_defs) (simp add: Cmd_M220_def get_gcode_speed_def state_wf_def Let_def)
  then show "gm_abs (Cmd_M220 params s) = (gm_abs s)\<lparr>sp_status := (gm_Get_status s)\<lparr>st_speed_factor := def_float params ''S'' 100 (Some 0) / 100\<rparr>\<rparr>"
    using gm_abs_status[of "Cmd_M220 params s" s] by (simp add: Cmd_M220_def Let_def)
qed (use assms in \<open>simp_all add: Cmd_M220_def state_wf_def Let_def\<close>)

lemma M221_refines:
  assumes "state_wf s" and "def_float params ''S'' 100 (Some 0) \<noteq> 0"
  shows "gm_abs (Cmd_M221 params s) = (gm_abs s)\<lparr>sp_status := (gm_Get_status s)\<lparr>st_extrude_factor := def_float params ''S'' 100 (Some 0) / 100\<rparr>\<rparr>"
    and "state_wf (Cmd_M221 params s)" and "savedStates (Cmd_M221 params s) = savedStates s"
proof -
  show w: "state_wf (Cmd_M221 params s)" using assms by (simp add: Cmd_M221_def state_wf_def Let_def)
  have l: "length (basePosition s) = 4" "extrudeFactor s \<noteq> 0" using assms(1) by (simp_all add: state_wf_def)
  have "get_gcode_position (Cmd_M221 params s) = get_gcode_position s"
    unfolding gcode_position_list[OF assms(1)] gcode_position_list[OF w]
    using assms(2) l by (simp add: Cmd_M221_def Let_def)
  then have "gm_Get_status (Cmd_M221 params s) = (gm_Get_status s)\<lparr>st_extrude_factor := def_float params ''S'' 100 (Some 0) / 100\<rparr>"
    by (simp add: status_defs) (simp add: Cmd_M221_def Let_def)
  then show "gm_abs (Cmd_M221 params s) = (gm_abs s)\<lparr>sp_status := (gm_Get_status s)\<lparr>st_extrude_factor := def_float params ''S'' 100 (Some 0) / 100\<rparr>\<rparr>"
    using gm_abs_status[of "Cmd_M221 params s" s] by (simp add: Cmd_M221_def Let_def)
qed (simp add: Cmd_M221_def Let_def)

lemma offset_axis_uniform:
  assumes "d ! pos = 0" and "pos < length d"
  shows "offset_axis params (pos, axis) (s, d) =
    (let o' = (case new_offset params axis (homingPosition s ! pos) of None \<Rightarrow> homingPosition s ! pos | Some x \<Rightarrow> x);
         delta = o' - homingPosition s ! pos
     in (s\<lparr>basePosition := (basePosition s)[pos := basePosition s ! pos + delta], homingPosition := (homingPosition s)[pos := o']\<rparr>,
         d[pos := delta]))"
proof -
  have "d[pos := 0] = d" using list_update_id[of d pos] assms by simp
  then show ?thesis by (simp add: offset_axis_def Let_def split: option.split)
qed

lemma offset_axes_fold:
  assumes "state_wf s"
  shows "fold (offset_axis params) axes4 (s, [0, 0, 0, 0]) =
    (let origin = map (spec_offset params (gm_Get_status s)) axes4; delta = map2 (-) origin (homingPosition s)
     in (s\<lparr>basePosition := map2 (+) (basePosition s) delta, homingPosition := origin\<rparr>, delta))"
proof -
  obtain h0 h1 h2 h3 where h: "homingPosition s = [h0, h1, h2, h3]" using assms by (auto simp: state_wf_def length4_conv)
  obtain b0 b1 b2 b3 where b: "basePosition s = [b0, b1, b2, b3]" using assms by (auto simp: state_wf_def length4_conv)
  define o' where "o' axis h = (case new_offset params axis h of None \<Rightarrow> h | Some x \<Rightarrow> x)" for axis h
  have u: "offset_axis params (pos, axis) (t, d) =
      (t\<lparr>basePosition := (basePosition t)[pos := basePosition t ! pos + (o' axis (homingPosition t ! pos) - homingPosition t ! pos)],
         homingPosition := (homingPosition t)[pos := o' axis (homingPosition t ! pos)]\<rparr>,
       d[pos := o' axis (homingPosition t ! pos) - homingPosition t ! pos])"
    if "d ! pos = 0" "pos < length d" for pos axis t d
    using offset_axis_uniform[OF that] by (simp add: o'_def Let_def)
  have sp: "spec_offset params (gm_Get_status s) (i, axis) = o' axis (homingPosition s ! i)" for i axis
    by (simp add: spec_offset_def o'_def gm_Get_status_def Let_def)
  show ?thesis
    by (simp add: axes4_def sp h b u Let_def numeral_eq_Suc)
qed

lemma call_move_refines:
  assumes "gm_abs t = sp"
  shows "abs_run (call_move mv v t) = spec_send mv (GoPanic ''nil pointer dereference'') v sp"
  using assms by (auto simp: call_move_def spec_send_def abs_run_def gm_Get_status_def)

lemma call_move_state: "fst (call_move mv v t) = t"
  by (simp add: call_move_def)

lemma OFFSET_refines:
  assumes "state_wf s"
  shows "abs_run (Cmd_SET_GCODE_OFFSET mv params s) = spec_SET_OFFSET mv params (gm_abs s)"
    and "state_wf (fst (Cmd_SET_GCODE_OFFSET mv params s))"
    and "savedStates (fst (Cmd_SET_GCODE_OFFSET mv params s)) = savedStates s"
proof -
  define origin where "origin = map (spec_offset params (gm_Get_status s)) axes4"
  define delta where "delta = map2 (-) origin (homingPosition s)"
  define t where "t = s\<lparr>basePosition := map2 (+) (basePosition s) delta, homingPosition := origin\<rparr>"
  define u where "u = t\<lparr>lastPosition := map2 (+) (lastPosition t) delta\<rparr>"
  have l: "length origin = 4" "length delta = 4"
    using assms by (simp_all add: origin_def delta_def axes4_def state_wf_def)
  have w: "state_wf t" "state_wf u" using assms l by (simp_all add: t_def u_def state_wf_def)
  have run: "Cmd_SET_GCODE_OFFSET mv params s =
      (if wants_move params then call_move mv (def_float params ''MOVE_SPEED'' (speed t) None) u else (t, [], Inr ()))"
    using offset_axes_fold[OF assms, of params]
    by (simp add: Cmd_SET_GCODE_OFFSET_def Let_def origin_def[symmetric] delta_def[symmetric] t_def u_def)
  have spec: "spec_SET_OFFSET mv params (gm_abs s) =
      (let st = gm_Get_status s; st1 = st\<lparr>st_homing_origin := origin\<rparr> in
       if wants_move params then
         spec_send mv (GoPanic ''nil pointer dereference'') (def_float params ''MOVE_SPEED'' (spec_velocity st) None)
           ((gm_abs s)\<lparr>sp_status := st1\<lparr>st_position := map2 (+) (st_position st) delta\<rparr>\<rparr>)
       else ((gm_abs s)\<lparr>sp_status := st1\<lparr>st_gcode_position :=
               map (\<lambda>i. st_gcode_position st ! i - delta ! i / spec_scale i st) [0..<4]\<rparr>\<rparr>, [], Inr ()))"
  proof -
    have "map2 (-) origin (st_homing_origin (gm_Get_status s)) = delta" by (simp add: delta_def gm_Get_status_def)
    then show ?thesis by (simp add: spec_SET_OFFSET_def Let_def origin_def[symmetric])
  qed
  show "state_wf (fst (Cmd_SET_GCODE_OFFSET mv params s))" "savedStates (fst (Cmd_SET_GCODE_OFFSET mv params s)) = savedStates s"
    using w by (simp_all add: run call_move_state) (simp_all add: t_def u_def)
  have k: "extrudeFactor s \<noteq> 0" "length (basePosition s) = 4" "length (lastPosition s) = 4" using assms by (simp_all add: state_wf_def)
  have gu: "get_gcode_position u = get_gcode_position s"
    unfolding gcode_position_list[OF assms] gcode_position_list[OF w(2)] using k l by (simp add: u_def t_def)
  have gt: "get_gcode_position t = map (\<lambda>i. get_gcode_position s ! i - delta ! i / spec_scale i (gm_Get_status s)) [0..<4]"
    unfolding gcode_position_list[OF assms] gcode_position_list[OF w(1)]
    using k l by (simp add: t_def spec_scale_def gm_Get_status_def upt_rec numeral_eq_Suc field_simps)
  have "gm_abs u = (gm_abs s)\<lparr>sp_status := (gm_Get_status s)\<lparr>st_homing_origin := origin, st_position := map2 (+) (lastPosition s) delta\<rparr>\<rparr>"
    using gm_abs_status[of u s] gu by (simp add: status_defs) (simp add: u_def t_def)
  moreover have "gm_abs t = (gm_abs s)\<lparr>sp_status := (gm_Get_status s)\<lparr>st_homing_origin := origin, st_gcode_position := get_gcode_position t\<rparr>\<rparr>"
    using gm_abs_status[of t s] by (simp add: status_defs) (simp add: t_def)
  moreover have "speed t = spec_velocity (gm_Get_status s)" using velocity_of_speed[OF assms] by (simp add: t_def)
  moreover have "st_position (gm_Get_status s) = lastPosition s" "st_gcode_position (gm_Get_status s) = get_gcode_position s"
    by (simp_all add: gm_Get_status_def)
  ultimately show "abs_run (Cmd_SET_GCODE_OFFSET mv params s) = spec_SET_OFFSET mv params (gm_abs s)"
    unfolding run spec using gt by (simp add: call_move_refines Let_def) (simp add: abs_run_def)
qed

lemma resume_saved:
  "gm_Get_status (resume_state
     \<lparr>sv_absoluteCoord = absoluteCoord s, sv_absoluteExtrude = absoluteExtrude s,
      sv_basePosition = basePosition s, sv_lastPosition = lastPosition s, sv_homingPosition = homingPosition s,
      sv_speed = speed s, sv_speedFactor = speedFactor s, sv_extrudeFactor = extrudeFactor s\<rparr>) = gm_Get_status s"
  by (simp add: status_defs resume_state_def get_gcode_position_def)

lemma SAVE_refines:
  assumes "gm_wf s"
  shows "gm_abs (Cmd_SAVE_GCODE_STATE params s) = (gm_abs s)\<lparr>sp_saved := (sp_saved (gm_abs s))(state_name params \<mapsto> gm_Get_status s)\<rparr>"
    and "gm_wf (Cmd_SAVE_GCODE_STATE params s)"
proof -
  have "gm_Get_status (Cmd_SAVE_GCODE_STATE params s) = gm_Get_status s"
    by (simp add: status_defs Cmd_SAVE_GCODE_STATE_def get_gcode_position_def)
  then show "gm_abs (Cmd_SAVE_GCODE_STATE params s) = (gm_abs s)\<lparr>sp_saved := (sp_saved (gm_abs s))(state_name params \<mapsto> gm_Get_status s)\<rparr>"
    by (simp add: gm_abs_def) (simp add: Cmd_SAVE_GCODE_STATE_def fun_eq_iff resume_saved)
  show "gm_wf (Cmd_SAVE_GCODE_STATE params s)"
    using assms by (auto simp: gm_wf_def state_wf_def Cmd_SAVE_GCODE_STATE_def resume_state_def)
qed

lemma RESTORE_refines:
  assumes "gm_wf s"
  shows "abs_run (Cmd_RESTORE_GCODE_STATE mv params s) = spec_RESTORE mv params (gm_abs s) \<and>
         gm_wf (fst (Cmd_RESTORE_GCODE_STATE mv params s))"
proof (cases "savedStates s (state_name params)")
  case None
  then show ?thesis
    using assms by (simp_all add: Cmd_RESTORE_GCODE_STATE_def spec_RESTORE_def abs_run_def)
next
  case (Some st)
  let ?r = "resume_state st"
  define t where "t = s\<lparr>absoluteCoord := sv_absoluteCoord st, absoluteExtrude := sv_absoluteExtrude st,
     homingPosition := sv_homingPosition st,
     speed := sv_speed st, speedFactor := sv_speedFactor st, extrudeFactor := sv_extrudeFactor st,
     basePosition := (sv_basePosition st)[3 := sv_basePosition st ! 3 + (lastPosition s ! 3 - sv_lastPosition st ! 3)]\<rparr>"
  define u where "u = t\<lparr>lastPosition := (lastPosition s)[0 := sv_lastPosition st ! 0, 1 := sv_lastPosition st ! 1, 2 := sv_lastPosition st ! 2]\<rparr>"
  have r: "state_wf ?r" using assms Some by (simp add: gm_wf_def)
  then have l: "length (sv_basePosition st) = 4" "length (sv_lastPosition st) = 4" "length (sv_homingPosition st) = 4"
    "sv_extrudeFactor st \<noteq> 0" "sv_speedFactor st \<noteq> 0" by (simp_all add: state_wf_def resume_state_def)
  have ls: "length (lastPosition s) = 4" using assms by (simp add: gm_wf_def state_wf_def)
  have w: "state_wf t" "state_wf u" using l ls by (simp_all add: t_def u_def state_wf_def)
  have run: "Cmd_RESTORE_GCODE_STATE mv params s =
      (if wants_move params then call_move mv (def_float params ''MOVE_SPEED'' (sv_speed st) (Some 0)) u else (t, [], Inr ()))"
    by (simp add: Cmd_RESTORE_GCODE_STATE_def Some Let_def t_def u_def)
  have sv: "savedStates t = savedStates s" "savedStates u = savedStates s" "moveWithTransform t = moveWithTransform s"
    "moveWithTransform u = moveWithTransform s" by (simp_all add: t_def u_def)
  have wf: "gm_wf (fst (Cmd_RESTORE_GCODE_STATE mv params s))"
    using assms w sv by (simp add: run call_move_state gm_wf_def)
  have gr: "get_gcode_position ?r = [sv_lastPosition st ! 0 - sv_basePosition st ! 0, sv_lastPosition st ! 1 - sv_basePosition st ! 1,
      sv_lastPosition st ! 2 - sv_basePosition st ! 2, (sv_lastPosition st ! 3 - sv_basePosition st ! 3) / sv_extrudeFactor st]"
    unfolding gcode_position_list[OF r] by (simp add: resume_state_def)
  have gu: "get_gcode_position u = get_gcode_position ?r"
    unfolding gr gcode_position_list[OF w(2)] using l ls by (simp add: u_def t_def)
  have gt: "get_gcode_position t = map (\<lambda>i. if i = 3 then get_gcode_position ?r ! 3
        else get_gcode_position ?r ! i + (lastPosition s ! i - sv_lastPosition st ! i)) [0..<4]"
    unfolding gr gcode_position_list[OF w(1)] using l ls by (simp add: t_def upt_rec numeral_eq_Suc)
  obtain a b c d where pl: "sv_lastPosition st = [a, b, c, d]" using l(2) by (auto simp: length4_conv)
  obtain a' b' c' d' where sl: "lastPosition s = [a', b', c', d']" using ls by (auto simp: length4_conv)
  have pu: "lastPosition u = take 3 (sv_lastPosition st) @ [lastPosition s ! 3]"
    unfolding u_def pl sl by (simp add: numeral_eq_Suc)
  have au: "gm_abs u = (gm_abs s)\<lparr>sp_status := (gm_Get_status ?r)\<lparr>st_position := take 3 (sv_lastPosition st) @ [lastPosition s ! 3]\<rparr>\<rparr>"
    using gm_abs_status[OF sv(2,4)] gu pu by (simp add: status_defs) (simp add: u_def t_def resume_state_def)
  have at: "gm_abs t = (gm_abs s)\<lparr>sp_status := (gm_Get_status ?r)\<lparr>st_position := lastPosition s, st_gcode_position := get_gcode_position t\<rparr>\<rparr>"
    using gm_abs_status[OF sv(1,3)] by (simp add: status_defs) (simp add: t_def resume_state_def)
  have v: "spec_velocity (gm_Get_status ?r) = sv_speed st" using velocity_of_speed[OF r] by (simp add: resume_state_def)
  have st: "st_position (gm_Get_status s) = lastPosition s" "st_position (gm_Get_status ?r) = sv_lastPosition st"
    "st_gcode_position (gm_Get_status ?r) = get_gcode_position ?r"
    by (simp_all add: gm_Get_status_def) (simp add: resume_state_def)
  have "abs_run (Cmd_RESTORE_GCODE_STATE mv params s) = spec_RESTORE mv params (gm_abs s)"
  proof (cases "wants_move params")
    case True
    then show ?thesis
      by (simp add: run spec_RESTORE_def Some st v call_move_refines[OF au] del: upt.simps)
  next
    case False
    have "abs_run (t, [], Inr ()) = ((gm_abs s)\<lparr>sp_status := (gm_Get_status ?r)\<lparr>st_position := lastPosition s, st_gcode_position := get_gcode_position t\<rparr>\<rparr>, [], Inr ())"
      using at by (simp add: abs_run_def)
    then show ?thesis
      unfolding run spec_RESTORE_def Let_def gm_abs_simps Some option.map option.case st using False gt by simp
  qed
  with wf show ?thesis by blast
qed

definition factor_positive :: "gcode_command \<Rightarrow> bool" where
  "factor_positive cmd =
     (case cmd of M220 params \<Rightarrow> def_float params ''S'' 100 (Some 0) > 0
      | M221 params \<Rightarrow> def_float params ''S'' 100 (Some 0) > 0 | _ \<Rightarrow> True)"

lemma gm_wf_keeps: "gm_wf s \<Longrightarrow> state_wf t \<Longrightarrow> savedStates t = savedStates s \<Longrightarrow> gm_wf t"
  by (simp add: gm_wf_def)

lemma run_command_refines:
  assumes "gm_wf s" and "factor_positive cmd"
  shows "(case run_command mv cmd s of (s', calls, r) \<Rightarrow>
            (gm_abs s', calls, r) = spec_command mv cmd (gm_abs s) \<and> gm_wf s')"
proof -
  have w: "state_wf s" using assms(1) by (simp add: gm_wf_def)
  note keep = gm_wf_keeps[OF assms(1)]
  have modes: "gm_abs t = (gm_abs s)\<lparr>sp_status := (gm_Get_status s)\<lparr>st_absolute_coordinates := absoluteCoord t, st_absolute_extrude := absoluteExtrude t\<rparr>\<rparr> \<and> gm_wf t"
    if "t = s\<lparr>absoluteCoord := absoluteCoord t, absoluteExtrude := absoluteExtrude t\<rparr>" for t
  proof -
    have e: "basePosition t = basePosition s" "lastPosition t = lastPosition s" "homingPosition t = homingPosition s" "speed t = speed s"
      "speedFactor t = speedFactor s" "extrudeFactor t = extrudeFactor s" "savedStates t = savedStates s" "moveWithTransform t = moveWithTransform s"
      by (subst that, simp)+
    show ?thesis using gm_abs_status[of t s] keep[of t] w e by (simp add: status_defs state_wf_def gcode_position_cong[of t s])
  qed
  have main: "abs_run (run_command mv cmd s) = spec_command mv cmd (gm_abs s) \<and> gm_wf (fst (run_command mv cmd s))"
  proof (cases cmd)
    case (G1 params line)
    then show ?thesis using G1_refines[OF w] keep by simp
  next
    case (G92 params)
    then show ?thesis using G92_refines[OF w, of params] keep[of "Cmd_G92 params s"] by (simp add: abs_run_def)
  next
    case (M220 params)
    then show ?thesis using M220_refines[OF w, of params] keep[of "Cmd_M220 params s"] assms(2) by (simp add: abs_run_def factor_positive_def)
  next
    case (M221 params)
    then show ?thesis using M221_refines[OF w, of params] keep[of "Cmd_M221 params s"] assms(2) by (simp add: abs_run_def factor_positive_def)
  next
    case (SET_GCODE_OFFSET params)
    then show ?thesis using OFFSET_refines[OF w] keep by simp
  next
    case (SAVE_GCODE_STATE params)
    then show ?thesis using SAVE_refines[OF assms(1), of params] by (simp add: abs_run_def)
  next
    case (RESTORE_GCODE_STATE params)
    then show ?thesis using RESTORE_refines[OF assms(1)] by simp
  qed (use assms(1) modes[of "s\<lparr>absoluteExtrude := True\<rparr>"] modes[of "s\<lparr>absoluteExtrude := False\<rparr>"]
        modes[of "s\<lparr>absoluteCoord := True\<rparr>"] modes[of "s\<lparr>absoluteCoord := False\<rparr>"]
       in \<open>simp_all add: abs_run_def Cmd_G20_def gm_Get_status_def\<close>)
  then show ?thesis by (auto simp: abs_run_def split: prod.splits)
qed

text \<open>
  After \<open>RESTORE_GCODE_STATE\<close> with \<open>MOVE\<close>, the G-code position, feed rate, factors, modes and
  homing origin are those of the saved status.
\<close>

lemma restore_returns:
  assumes "gm_wf s" "savedStates s (state_name params) = Some st" "wants_move params"
  shows "(gm_Get_status (fst (Cmd_RESTORE_GCODE_STATE mv params s)))\<lparr>st_position := []\<rparr> =
         (gm_Get_status (resume_state st))\<lparr>st_position := []\<rparr>"
proof -
  have "gm_Get_status (fst (Cmd_RESTORE_GCODE_STATE mv params s)) = sp_status (fst (spec_RESTORE mv params (gm_abs s)))"
    using RESTORE_refines[OF assms(1), of mv params] by (metis abs_run_def fst_conv gm_abs_simps(1))
  then show ?thesis using assms(2,3) by (simp add: spec_RESTORE_def spec_send_def Let_def)
qed

text \<open>
  An override of zero is reported and then used: the bound replaces the value, and the factor every
  later feed rate is multiplied by becomes zero.
\<close>

lemma M220_zero: "speedFactor (Cmd_M220 [''S'' \<mapsto> ''0''] s) = 0"
proof -
  have "ParseFloat ''0'' = Some 0" by code_simp
  then show ?thesis by (simp add: Cmd_M220_def def_float_def Get_float_def param_text_def float_value_def Let_def)
qed

section \<open>Scripts\<close>

text \<open>
  The contract of an implementation and its specification: one step from related states gives
  related states, the same output and the same result.  Sequences of steps inherit it.
\<close>

locale data_refinement =
  fixes abst :: "'s \<Rightarrow> 'a" and inva :: "'s \<Rightarrow> bool" and okay :: "'c \<Rightarrow> bool"
    and step :: "'c \<Rightarrow> 's \<Rightarrow> 's \<times> 'o list \<times> unit result"
    and spec :: "'c \<Rightarrow> 'a \<Rightarrow> 'a \<times> 'o list \<times> unit result"
  assumes simulates: "inva s \<Longrightarrow> okay c \<Longrightarrow>
    (case step c s of (s', out, r) \<Rightarrow> (abst s', out, r) = spec c (abst s) \<and> inva s')"
begin

lemma sequences:
  "inva s \<Longrightarrow> list_all okay cs \<Longrightarrow>
   (case run_seq step cs s of (s', out, r) \<Rightarrow> (abst s', out, r) = run_seq spec cs (abst s) \<and> inva s')"
proof (induction cs arbitrary: s)
  case (Cons c cs)
  obtain s1 o1 r1 where st: "step c s = (s1, o1, r1)" by (metis prod_cases3)
  have sp: "spec c (abst s) = (abst s1, o1, r1)" "inva s1"
    using simulates[of s c] Cons.prems st by auto
  show ?case
  proof (cases r1)
    case (Inl e)
    then show ?thesis using sp by (simp add: st)
  next
    case (Inr u)
    obtain s2 o2 r2 where run: "run_seq step cs s1 = (s2, o2, r2)" by (metis prod_cases3)
    have "run_seq spec cs (abst s1) = (abst s2, o2, r2)" "inva s2"
      using Cons.IH[OF sp(2)] Cons.prems(2) run by auto
    then show ?thesis using Inr sp by (simp add: st run)
  qed
qed simp

end

definition line_ok :: "string \<Rightarrow> bool" where
  "line_ok input = (case script_command input of Inr (Some c) \<Rightarrow> factor_positive c | _ \<Rightarrow> True)"

interpretation gms: data_refinement gm_abs gm_wf line_ok "exec_line (run_command mv)" "exec_line (spec_command mv)"
proof
  fix s input
  assume w: "gm_wf s" and l: "line_ok input"
  show "case exec_line (run_command mv) input s of (s', out, r) \<Rightarrow>
      (gm_abs s', out, r) = exec_line (spec_command mv) input (gm_abs s) \<and> gm_wf s'"
  proof (cases "\<exists>c. script_command input = Inr (Some c)")
    case True
    then obtain c where c: "script_command input = Inr (Some c)" by blast
    then have "factor_positive c" using l by (simp add: line_ok_def)
    then show ?thesis using run_command_refines[OF w, of c mv] by (simp add: exec_line_def c)
  next
    case False
    then show ?thesis using w by (auto simp: exec_line_def split: sum.splits option.splits)
  qed
qed

definition sets_factor :: "string \<Rightarrow> bool" where
  "sets_factor input =
     (case script_command input of Inr (Some c) \<Rightarrow> (case c of M220 _ \<Rightarrow> True | M221 _ \<Rightarrow> True | _ \<Rightarrow> False) | _ \<Rightarrow> False)"

lemma line_ok_no_factor: "\<not> sets_factor input \<Longrightarrow> line_ok input"
  unfolding sets_factor_def line_ok_def factor_positive_def
  by (cases "script_command input") (auto split: option.splits gcode_command.splits)



end
