(* ===== verification/Spec2Isabelle.thy ===== *)
theory Spec2Isabelle
  imports ToolheadMotion StepQueue TmcHoming TmcUart TmcCurrent MsgProto GCodeMove
begin

text \<open>
  Verification of the Klipper-go printer host.

  \<^bold>\<open>The program.\<close>  The host reads G-code, turns it into moves of a toolhead, plans the speed of the
  moves, and sends timed commands to micro-controllers that drive the motors.  A line of G-code is
  parsed (\<^verbatim>\<open>src/internal/pkg/gcode\<close>) and a move in G-code coordinates becomes a move of the
  machine.  The toolhead (\<^verbatim>\<open>src/project/goklipper.go\<close>, \<^verbatim>\<open>src/internal/pkg/motion\<close>) checks it
  against the kinematics and the extruder and puts it in the look-ahead queue; flushed batches are
  fed as trapezoids to the motion queue of \<^verbatim>\<open>src/chelper/trapq.c\<close>, and timers release the motion in
  time.  The drivers of the motors are configured and read through registers
  (\<^verbatim>\<open>src/internal/pkg/tmc\<close>) over a serial line, and everything that goes to a micro-controller is a
  message of the host protocol (\<^verbatim>\<open>src/internal/pkg/msgproto\<close>).

  \<^bold>\<open>Representation.\<close>  A struct is a record, a tagged value a datatype, an operation one function
  on the explicit state.  A panic or an error is the left value of a sum.  A Go \<open>float64\<close> is a real
  number: rounding, infinities and NaN are not represented, and NaN as a mark of absence is \<open>None\<close>.
  Integers are unbounded where the code stays far within 64 bits and wrap where it relies on the width;
  the search of the step compressor, on signed integers whose overflow C leaves undefined, is unbounded.
  Calls to parts outside a component are recorded as events in their order, or are a function that
  the component's operations take as a parameter: the clock, the serial line, the register access,
  the taker of moves.  A loop that may not end is a partial function into \<open>option\<close> and \<open>None\<close> means that
  it does not end; theorems that such a loop returns are about the value \<open>Some\<close>.  No definition uses
  fuel.  Go maps that are iterated are association lists in the order of the iteration, so a result
  holds for every order.

  \<^bold>\<open>Theories.\<close>

  \<^item> \<^verbatim>\<open>Prelude\<close>: results, indexing, minima, adjacent elements; \<^verbatim>\<open>GoStrings\<close>: the parts of
    \<open>strings\<close>, \<open>strconv\<close> and \<open>fmt\<close> the sources use.

  \<^item> \<^verbatim>\<open>MoveQueue\<close> (\<^verbatim>\<open>move_queue.go\<close>, \<^verbatim>\<open>move_batch.go\<close>) and \<^verbatim>\<open>LookAhead\<close>: moves, junctions, the
    backward and forward pass of a flush, lazy flushes.  C1 to C6: every plan is a sequence of
    feasible trapezoids, continuous in speed across all interleavings of additions and flushes;
    complete flushes empty the queue; the timing of a batch; the geometry of junctions.

  \<^item> \<^verbatim>\<open>Extrusion\<close> (\<^verbatim>\<open>extrusion.go\<close>, \<^verbatim>\<open>extruder_runtime.go\<close>, \<^verbatim>\<open>force_move.go\<close>,
    \<^verbatim>\<open>manual_stepper_core.go\<close>): both extruders satisfy the planner's contract for junctions.  C7 to
    C9: corner velocity, exact limits and errors, exact distances and times.

  \<^item> \<^verbatim>\<open>Kinematics\<close> (\<^verbatim>\<open>kinematics/\<close>): cartesian, corexy and none with their homing state.  C11 to C14:
    accepted moves stay in range, the check is exact, corexy positions round-trip, homing moves reach
    the endstop.

  \<^item> \<^verbatim>\<open>Trapq\<close> (\<^verbatim>\<open>trapq.c\<close>): C15 to C17: continuity of the queue, safe expiry, exact history.

  \<^item> \<^verbatim>\<open>StepCompress\<close> and \<^verbatim>\<open>StepQueue\<close> (\<^verbatim>\<open>stepcompress.c\<close>): step times to commands of the
    micro-controller, at the width of the C integers.  The search for a quadratic sequence ends, and
    what it finds passes the guard.  C10: the queued commands, executed, make the requested steps in
    order and direction, never late and early by a bounded error, and the position is the sum of all
    requests.  C37: a past position read from the history is the one the stepper had.

  \<^item> \<^verbatim>\<open>ToolheadTiming\<close> (\<^verbatim>\<open>toolhead_runtime.go\<close>, \<^verbatim>\<open>toolhead_flush.go\<close>, \<^verbatim>\<open>toolhead_pause.go\<close>,
    \<^verbatim>\<open>toolhead_config.go\<close>): C18 to C23: the loops over time return for every clock that runs, nothing is
    released beyond the planned motion, buffers stay bounded, limits stay valid.

  \<^item> \<^verbatim>\<open>Toolhead\<close> and \<^verbatim>\<open>ToolheadMotion\<close> (the toolhead of \<^verbatim>\<open>goklipper.go\<close> with
    \<^verbatim>\<open>toolhead_move_runtime.go\<close>, \<^verbatim>\<open>toolhead_control_runtime.go\<close>, \<^verbatim>\<open>toolhead_timer_runtime.go\<close>,
    \<^verbatim>\<open>toolhead_drip.go\<close>, \<^verbatim>\<open>toolhead_commands.go\<close>): the composition of all of the above.  C24 to C28: in
    every reachable state the queued motion is continuous in time, position and speed up to the
    commanded position; moves and dwells return; what waiting for moves and a refused drip move do.

  \<^item> \<^verbatim>\<open>ConfigAccess\<close> (the accessors of \<^verbatim>\<open>goklipper.go\<close>, \<^verbatim>\<open>validation.go\<close>, \<^verbatim>\<open>configparser\<close>): C31: exactly
    which integer options are accepted.

  \<^item> \<^verbatim>\<open>TmcFields\<close> (\<^verbatim>\<open>field_helper.go\<close>, \<^verbatim>\<open>config_helpers.go\<close>) and \<^verbatim>\<open>TmcTables\<close> (the tables and
    configuration routines of six drivers): C29 and C30: the tables are well formed and every
    configured field reads back.

  \<^item> \<^verbatim>\<open>TmcUart\<close> (\<^verbatim>\<open>transport_codecs.go\<close>, \<^verbatim>\<open>uart_transport_runtime.go\<close>): C32 to C34: the datagrams
    decode exactly, a write that reports success took effect over a line that loses and garbles, and
    the one path on which this fails.

  \<^item> \<^verbatim>\<open>TmcHoming\<close> (\<^verbatim>\<open>virtual_pin_core.go\<close>): C35: homing puts back every field.  \<^verbatim>\<open>TmcCurrent\<close>
    (\<^verbatim>\<open>current_helpers.go\<close>): C36: the current that is set is the nearest step; on one driver it is
    not.

  \<^item> \<^verbatim>\<open>MsgProto\<close> (\<^verbatim>\<open>msgproto.go\<close>): parameter types, formats, blocks and the dictionary.  C38 and C39:
    messages survive the wire, and the check of packets accepts exactly the encoded blocks.

  \<^item> \<^verbatim>\<open>GCodeParse\<close> (\<^verbatim>\<open>gcode_parse_helpers.go\<close>, \<^verbatim>\<open>command_params.go\<close>, \<^verbatim>\<open>dispatch_runtime.go\<close>) and
    \<^verbatim>\<open>GCodeMove\<close> (\<^verbatim>\<open>gcode_move_module.go\<close>): lines to commands to moves.  C40: scripts refine a
    specification in G-code coordinates.

  \<^bold>\<open>Interfaces.\<close>  What one part needs of another is a locale whose laws are proved for the code's own
  definitions: the junction contract of extruders, the check of moves that the kinematics share, the
  store of register fields that homing uses, and the relation of an implementation to its
  specification by which sequences of commands inherit what holds of one.

  \<^bold>\<open>Not modelled.\<close>  Step generation (\<^verbatim>\<open>itersolve.c\<close>) finds roots of positions by iteration on floats
  and the serial queue is a pointer structure shared by threads; the reactor and the serial handler depend on the
  operating system's scheduling; configuration of micro-controllers, trigger synchronisation, pins
  and fans are sequences of commands whose effect is in firmware outside the sources; bed mesh, probing
  and resonance testing work on measured floats; the web interface, the filament changer and the
  print control exchange JSON with other programs.  Rounding of floats is outside the model
  everywhere: the theorems are about the real-valued program.
\<close>

end
